(* ===== verification/Xdp_Prelude.thy ===== *)
theory Xdp_Prelude
  imports Main "HOL-Library.Word" "HOL-Library.Multiset"
begin

text \<open>
  Shared vocabulary of the development: the outcome of a Rust computation (a value, a panic,
  undefined behaviour, or a loop that used up its fuel), the machine integers with the overflow
  behaviour of the two build profiles, indexing and slicing with their bounds checks, and the
  generic lemmas the components use.

  \<^item> \<open>u32\<close> and \<open>u8\<close> are words.
  \<^item> \<open>usize\<close> and \<open>u64\<close> are naturals; the crate is compiled for 64-bit targets only
    (\<^verbatim>\<open>src/lib.rs\<close>), so both have 64 bits, and every arithmetic operation of the
    source on them goes through \<open>add64\<close>, \<open>sub64\<close>, \<open>mul64\<close> or \<open>rem64\<close>, which
    write out what happens at the bounds.
  \<^item> A build has overflow checks on (debug profile: a panic) or off (release profile:
    wrap-around); the flag is the first argument of the checked operations.
\<close>

section \<open>Outcomes\<close>

datatype panic_cause =
    ArithOverflow
  | DivByZero
  | OutOfRange
  | Unwrap
  | Expect string
  | Assertion

datatype 'a outcome =
    Ret 'a
  | Panic panic_cause
  | UB
  | Spin

primrec bindO :: "'a outcome \<Rightarrow> ('a \<Rightarrow> 'b outcome) \<Rightarrow> 'b outcome" where
  "bindO (Ret x) f = f x"
| "bindO (Panic c) f = Panic c"
| "bindO UB f = UB"
| "bindO Spin f = Spin"

text \<open>Running a closure over a sequence, until it panics.\<close>

fun foldO :: "('c \<Rightarrow> 'd \<Rightarrow> 'c outcome) \<Rightarrow> 'c \<Rightarrow> 'd list \<Rightarrow> 'c outcome" where
  "foldO f c [] = Ret c"
| "foldO f c (x # xs) = bindO (f c x) (\<lambda>c'. foldO f c' xs)"

text \<open>\<open>Result::expect\<close>, \<open>Result::unwrap\<close> and \<open>Option::expect\<close>.\<close>

fun expectR :: "string \<Rightarrow> 'e + 'a \<Rightarrow> 'a outcome" where
  "expectR msg (Inl e) = Panic (Expect msg)"
| "expectR msg (Inr x) = Ret x"

fun unwrapR :: "'e + 'a \<Rightarrow> 'a outcome" where
  "unwrapR (Inl e) = Panic Unwrap"
| "unwrapR (Inr x) = Ret x"

fun expectO :: "string \<Rightarrow> 'a option \<Rightarrow> 'a outcome" where
  "expectO msg None = Panic (Expect msg)"
| "expectO msg (Some x) = Ret x"

text \<open>\<open>assert!\<close> and \<open>assert_eq!\<close>.\<close>

definition assertO :: "bool \<Rightarrow> unit outcome" where
  "assertO b = (if b then Ret () else Panic Assertion)"

section \<open>Machine integers\<close>

type_synonym u8 = "8 word"
type_synonym u16 = "16 word"
type_synonym u32 = "32 word"
type_synonym u64 = nat
type_synonym usize = nat
type_synonym i32 = int

definition add64 :: "bool \<Rightarrow> nat \<Rightarrow> nat \<Rightarrow> nat outcome" where
  "add64 chk a b =
     (if a + b < 2 ^ 64 then Ret (a + b)
      else if chk then Panic ArithOverflow else Ret ((a + b) mod 2 ^ 64))"

definition sub64 :: "bool \<Rightarrow> nat \<Rightarrow> nat \<Rightarrow> nat outcome" where
  "sub64 chk a b =
     (if b \<le> a then Ret (a - b)
      else if chk then Panic ArithOverflow else Ret (2 ^ 64 + a - b))"

definition mul64 :: "bool \<Rightarrow> nat \<Rightarrow> nat \<Rightarrow> nat outcome" where
  "mul64 chk a b =
     (if a * b < 2 ^ 64 then Ret (a * b)
      else if chk then Panic ArithOverflow else Ret ((a * b) mod 2 ^ 64))"

definition rem64 :: "nat \<Rightarrow> nat \<Rightarrow> nat outcome" where
  "rem64 a b = (if b = 0 then Panic DivByZero else Ret (a mod b))"

definition checked_mul64 :: "nat \<Rightarrow> nat \<Rightarrow> nat option" where
  "checked_mul64 a b = (if a * b < 2 ^ 64 then Some (a * b) else None)"

definition add32 :: "bool \<Rightarrow> u32 \<Rightarrow> u32 \<Rightarrow> u32 outcome" where
  "add32 chk a b =
     (if chk \<and> 2 ^ 32 \<le> unat a + unat b then Panic ArithOverflow else Ret (a + b))"

definition sub32 :: "bool \<Rightarrow> u32 \<Rightarrow> u32 \<Rightarrow> u32 outcome" where
  "sub32 chk a b = (if chk \<and> a < b then Panic ArithOverflow else Ret (a - b))"

definition div32 :: "u32 \<Rightarrow> u32 \<Rightarrow> u32 outcome" where
  "div32 a b = (if b = 0 then Panic DivByZero else Ret (a div b))"

text \<open>The casts \<open>as u32\<close> and \<open>as usize\<close>.\<close>

definition as_u32 :: "nat \<Rightarrow> u32" where
  "as_u32 n = word_of_nat n"

definition as_usize :: "u32 \<Rightarrow> usize" where
  "as_usize x = unat x"

section \<open>Indexing and slicing\<close>

definition nthO :: "'a list \<Rightarrow> nat \<Rightarrow> 'a outcome" where
  "nthO xs i = (if i < length xs then Ret (xs ! i) else Panic OutOfRange)"

definition setO :: "'a list \<Rightarrow> nat \<Rightarrow> 'a \<Rightarrow> 'a list outcome" where
  "setO xs i x = (if i < length xs then Ret (xs[i := x]) else Panic OutOfRange)"

text \<open>\<open>&xs[a..b]\<close>\<close>

definition sliceO :: "'a list \<Rightarrow> nat \<Rightarrow> nat \<Rightarrow> 'a list outcome" where
  "sliceO xs a b =
     (if a \<le> b \<and> b \<le> length xs then Ret (take (b - a) (drop a xs)) else Panic OutOfRange)"

text \<open>\<open>for x in xs[a..b].iter_mut() { *x = f(x) }\<close>\<close>

definition map_range :: "('a \<Rightarrow> 'a) \<Rightarrow> nat \<Rightarrow> nat \<Rightarrow> 'a list \<Rightarrow> 'a list" where
  "map_range f a b xs = take a xs @ map f (take (b - a) (drop a xs)) @ drop b xs"

text \<open>A number in decimal, as \<open>Display\<close> prints it.\<close>

fun show_nat :: "nat \<Rightarrow> string" where
  "show_nat n =
     (if n < 10 then [char_of (48 + n)] else show_nat (n div 10) @ [char_of (48 + n mod 10)])"

declare show_nat.simps [simp del]

section \<open>Lemmas on outcomes and checked arithmetic\<close>

named_theorems checked_defs \<open>definitions of the checked integer and slice operations\<close>

declare add64_def [checked_defs] sub64_def [checked_defs] mul64_def [checked_defs]
  rem64_def [checked_defs] add32_def [checked_defs] sub32_def [checked_defs]
  div32_def [checked_defs] nthO_def [checked_defs] setO_def [checked_defs]
  sliceO_def [checked_defs]

lemma bindO_Ret_iff:
  "bindO m f = Ret y \<longleftrightarrow> (\<exists>x. m = Ret x \<and> f x = Ret y)"
  by (cases m) auto

lemma bindO_Panic_iff:
  "bindO m f = Panic c \<longleftrightarrow> m = Panic c \<or> (\<exists>x. m = Ret x \<and> f x = Panic c)"
  by (cases m) auto

lemma bindO_assoc: "bindO (bindO m f) g = bindO m (\<lambda>x. bindO (f x) g)"
  by (cases m) auto

lemma bindO_cong [fundef_cong]:
  "m = m' \<Longrightarrow> (\<And>x. m' = Ret x \<Longrightarrow> f x = f' x) \<Longrightarrow> bindO m f = bindO m' f'"
  by (cases m') auto

lemma foldO_append: "foldO f c (xs @ ys) = bindO (foldO f c xs) (\<lambda>c'. foldO f c' ys)"
  by (induction xs arbitrary: c) (simp_all add: bindO_assoc)

text \<open>An invariant of the closure holds at the end, if there is one.\<close>

lemma foldO_inv:
  assumes "\<And>c x c'. I c \<Longrightarrow> f c x = Ret c' \<Longrightarrow> I c'"
  shows "I c \<Longrightarrow> foldO f c xs = Ret c' \<Longrightarrow> I c'"
  using assms by (induction xs arbitrary: c) (auto simp: bindO_Ret_iff)

lemma expectR_Ret_iff [simp]: "expectR msg r = Ret x \<longleftrightarrow> r = Inr x"
  by (cases r) auto

lemma unwrapR_Ret_iff [simp]: "unwrapR r = Ret x \<longleftrightarrow> r = Inr x"
  by (cases r) auto

lemma expectO_Ret_iff [simp]: "expectO msg r = Ret x \<longleftrightarrow> r = Some x"
  by (cases r) auto

lemma add64_fits [simp]: "a + b < 2 ^ 64 \<Longrightarrow> add64 chk a b = Ret (a + b)"
  by (simp add: add64_def)

lemma sub64_fits [simp]: "b \<le> a \<Longrightarrow> sub64 chk a b = Ret (a - b)"
  by (simp add: sub64_def)

lemma rem64_nonzero [simp]: "0 < b \<Longrightarrow> rem64 a b = Ret (a mod b)"
  by (simp add: rem64_def)

lemma nthO_in [simp]: "i < length xs \<Longrightarrow> nthO xs i = Ret (xs ! i)"
  by (simp add: nthO_def)

lemma setO_in [simp]: "i < length xs \<Longrightarrow> setO xs i x = Ret (xs[i := x])"
  by (simp add: setO_def)

lemma sliceO_in [simp]:
  "a \<le> b \<Longrightarrow> b \<le> length xs \<Longrightarrow> sliceO xs a b = Ret (take (b - a) (drop a xs))"
  by (simp add: sliceO_def)

lemma as_u32_small [simp]: "n < 2 ^ 32 \<Longrightarrow> unat (as_u32 n) = n"
  by (simp add: as_u32_def unat_of_nat take_bit_nat_eq_self)

lemma unat_as_u32: "unat (as_u32 n) = n mod 2 ^ 32"
  by (simp add: as_u32_def unat_of_nat take_bit_eq_mod)

lemma as_u32_as_usize [simp]: "as_u32 (as_usize x) = x"
  by (simp add: as_u32_def as_usize_def)

lemma as_usize_less [simp]: "as_usize x < 2 ^ 32"
  using unsigned_less [of x, where ?'a = nat] by (simp add: as_usize_def)

section \<open>Lemmas on updated ranges\<close>

lemma length_map_range [simp]:
  "a \<le> b \<Longrightarrow> b \<le> length xs \<Longrightarrow> length (map_range f a b xs) = length xs"
  by (simp add: map_range_def)

lemma nth_map_range:
  assumes "a \<le> b" "b \<le> length xs" "i < length xs"
  shows "map_range f a b xs ! i = (if a \<le> i \<and> i < b then f (xs ! i) else xs ! i)"
  using assms by (auto simp: map_range_def nth_append min_def)

lemma take_drop_map_range:
  assumes "a \<le> b" "b \<le> length xs"
  shows "take (b - a) (drop a (map_range f a b xs)) = map f (take (b - a) (drop a xs))"
  using assms by (simp add: map_range_def)

section \<open>Lemmas on multisets of distinct elements\<close>

lemma mset_subset_mset_set:
  assumes "mset as \<subseteq># mset_set A" "finite A"
  shows "distinct as" "set as \<subseteq> A"
proof -
  have "count (mset as) a \<le> 1" for a
    using mset_subset_eq_count [OF assms(1), of a] assms(2)
    by (metis count_mset_set(1,3) dual_order.trans zero_le_one)
  then show "distinct as"
    by (metis count_mset_0_iff distinct_count_atmost_1 le_eq_less_or_eq less_one)
  show "set as \<subseteq> A"
    using set_mset_mono [OF assms(1)] assms(2) by simp
qed

lemma mset_set_remove_list:
  assumes "finite S" "distinct ixs" "set ixs \<subseteq> S"
  shows "mset_set S = mset ixs + mset_set (S - set ixs)"
proof -
  have "mset ixs = mset_set (set ixs)" using assms(2) by (simp add: mset_set_set)
  moreover have "mset_set S = mset_set (set ixs) + mset_set (S - set ixs)"
    using assms by (metis Diff_disjoint Diff_partition List.finite_set finite_Diff mset_set_Union)
  ultimately show ?thesis by simp
qed

end
