(* ===== verification/Xdp_Platform.thy ===== *)
theory Xdp_Platform
  imports Xdp_Prelude
begin

text \<open>
  The code under the crate that is not in the repository: \<open>libbpf-sys\<close> (the ring and socket
  functions of libbpf), \<open>libc\<close> (\<open>poll\<close>, \<open>sendto\<close>, \<open>mmap\<close>, \<open>errno\<close> and the
  C constants), the kernel behind them, the clock and the file system. All of it is one parameter
  of the model, the record \<open>'k ffi\<close>; \<open>'k\<close> is the state the kernel and libbpf keep, about
  which nothing is assumed. The model's own state is the process memory.

  The second half states, as named predicates, the documented behaviour of the AF\_XDP rings the
  crate relies on (a producer ring, a consumer ring, the transmit pair and the receive pair).
  Theorems that need it have the predicate as a hypothesis.
\<close>

section \<open>The world\<close>

record 'k world =
  mem :: "nat \<Rightarrow> u8"
  kern :: 'k

text \<open>
  Rings, sockets and UMEMs are C structs reached through a pointer; the pointer is all the crate
  handles, their contents are part of \<open>'k\<close>.
\<close>

type_synonym ring = nat
type_synonym umem_ptr = nat
type_synonym socket_ptr = nat

record xdp_desc =
  xd_addr :: u64
  xd_len :: u32
  xd_options :: u32

record c_pollfd =
  pf_fd :: i32
  pf_events :: int
  pf_revents :: int

record xsk_umem_config =
  uc_fill_size :: u32
  uc_comp_size :: u32
  uc_frame_size :: u32
  uc_frame_headroom :: u32
  uc_flags :: u32

record xsk_socket_config =
  sc_rx_size :: u32
  sc_tx_size :: u32
  sc_xdp_flags :: u32
  sc_bind_flags :: u16
  sc_libbpf_flags :: u32

datatype io_error = OsErrno i32 | OtherIo string

record abi_consts =
  EINTR :: i32
  ENOBUFS :: i32
  EAGAIN :: i32
  EBUSY :: i32
  ENETDOWN :: i32
  POLLIN :: int
  POLLOUT :: int
  PROT_READ :: u32
  PROT_WRITE :: u32
  MAP_ANONYMOUS :: u32
  MAP_PRIVATE :: u32
  MAP_HUGETLB :: u32
  MAP_FAILED :: nat
  XDP_PACKET_HEADROOM :: u32
  XSK_RING_CONS__DEFAULT_NUM_DESCS :: u32
  XSK_RING_PROD__DEFAULT_NUM_DESCS :: u32
  XSK_UMEM__DEFAULT_FRAME_SIZE :: u32
  XSK_UMEM__DEFAULT_FRAME_HEADROOM :: u32

text \<open>
  A C function with an out-parameter returns the parameter's final value beside its result.
  \<open>fill_addr\<close> and \<open>tx_desc\<close> return a pointer the crate writes through once, so they
  appear as the write; \<open>comp_addr\<close> and \<open>rx_desc\<close> return one it reads.
\<close>

record 'k ffi =
  overflow_checks :: bool
  abi :: abi_consts
  xsk_ring_prod__reserve :: "ring \<Rightarrow> u64 \<Rightarrow> u32 \<Rightarrow> 'k world \<Rightarrow> (u64 \<times> u32) \<times> 'k world"
  xsk_ring_prod__fill_addr :: "ring \<Rightarrow> u32 \<Rightarrow> u64 \<Rightarrow> 'k world \<Rightarrow> 'k world"
  xsk_ring_prod__tx_desc :: "ring \<Rightarrow> u32 \<Rightarrow> xdp_desc \<Rightarrow> 'k world \<Rightarrow> 'k world"
  xsk_ring_prod__submit :: "ring \<Rightarrow> u64 \<Rightarrow> 'k world \<Rightarrow> 'k world"
  xsk_ring_prod__needs_wakeup :: "ring \<Rightarrow> 'k world \<Rightarrow> i32"
  xsk_ring_cons__peek :: "ring \<Rightarrow> u64 \<Rightarrow> u32 \<Rightarrow> 'k world \<Rightarrow> (u64 \<times> u32) \<times> 'k world"
  xsk_ring_cons__comp_addr :: "ring \<Rightarrow> u32 \<Rightarrow> 'k world \<Rightarrow> u64"
  xsk_ring_cons__rx_desc :: "ring \<Rightarrow> u32 \<Rightarrow> 'k world \<Rightarrow> xdp_desc"
  xsk_ring_cons__release :: "ring \<Rightarrow> u64 \<Rightarrow> 'k world \<Rightarrow> 'k world"
  libc_poll :: "c_pollfd \<Rightarrow> i32 \<Rightarrow> 'k world \<Rightarrow> (i32 \<times> c_pollfd) \<times> 'k world"
  libc_sendto :: "i32 \<Rightarrow> 'k world \<Rightarrow> int \<times> 'k world"
  libc_errno :: "'k world \<Rightarrow> i32"
  libc_mmap :: "usize \<Rightarrow> u32 \<Rightarrow> u32 \<Rightarrow> 'k world \<Rightarrow> nat \<times> 'k world"
  libc_munmap :: "nat \<Rightarrow> usize \<Rightarrow> 'k world \<Rightarrow> i32 \<times> 'k world"
  xsk_umem__create ::
    "nat \<Rightarrow> u64 \<Rightarrow> xsk_umem_config \<Rightarrow> 'k world \<Rightarrow> (i32 \<times> umem_ptr \<times> ring \<times> ring) \<times> 'k world"
  xsk_umem__delete :: "umem_ptr \<Rightarrow> 'k world \<Rightarrow> i32 \<times> 'k world"
  xsk_socket__create ::
    "string \<Rightarrow> u32 \<Rightarrow> umem_ptr \<Rightarrow> xsk_socket_config \<Rightarrow> 'k world \<Rightarrow>
     (i32 \<times> socket_ptr \<times> ring \<times> ring) \<times> 'k world"
  xsk_socket__fd :: "socket_ptr \<Rightarrow> 'k world \<Rightarrow> i32"
  xsk_socket__delete :: "socket_ptr \<Rightarrow> 'k world \<Rightarrow> 'k world"
  instant_now :: "'k world \<Rightarrow> nat"
  read_to_string :: "string \<Rightarrow> 'k world \<Rightarrow> io_error + string"

section \<open>The contract of a producer ring\<close>

text \<open>
  What the documentation of libbpf and of AF\_XDP says of a producer ring, in terms of a view of
  the world: how many entries can be reserved now (\<open>pv_free\<close>), how many are reserved and not yet
  submitted (\<open>pv_resv\<close>), what the slot of an index holds (\<open>pv_slot\<close>), and the sequence of
  all entries submitted so far (\<open>pv_subm\<close>). Indices run freely from 0 modulo \<open>2 ^ 32\<close>, so
  the next index is the number of entries submitted.
\<close>

record ('k, 'e) prod_view =
  pv_ok :: "'k world \<Rightarrow> bool"
  pv_free :: "'k world \<Rightarrow> nat"
  pv_resv :: "'k world \<Rightarrow> nat"
  pv_slot :: "'k world \<Rightarrow> u32 \<Rightarrow> 'e"
  pv_subm :: "'k world \<Rightarrow> 'e list"

definition pv_index :: "('k, 'e) prod_view \<Rightarrow> 'k world \<Rightarrow> nat \<Rightarrow> u32" where
  "pv_index V w k = word_of_nat (length (pv_subm V w) + k)"

text \<open>\<open>reserve\<close> grants all the entries asked for or none.\<close>

definition reserve_law :: "'k ffi \<Rightarrow> ring \<Rightarrow> ('k, 'e) prod_view \<Rightarrow> bool" where
  "reserve_law F r V \<longleftrightarrow>
     (\<forall>w nb idx cnt i w'. pv_ok V w \<longrightarrow> pv_resv V w = 0 \<longrightarrow> 0 < nb \<longrightarrow>
        xsk_ring_prod__reserve F r nb idx w = ((cnt, i), w') \<longrightarrow>
        pv_ok V w' \<and> pv_subm V w' = pv_subm V w \<and> pv_resv V w' = cnt \<and>
        (if nb \<le> pv_free V w then cnt = nb \<and> i = pv_index V w 0 else cnt = 0))"

text \<open>Writing the slot of a reserved index changes that slot and no other reserved one.\<close>

definition put_law :: "(u32 \<Rightarrow> 'e \<Rightarrow> 'k world \<Rightarrow> 'k world) \<Rightarrow> ('k, 'e) prod_view \<Rightarrow> bool" where
  "put_law put V \<longleftrightarrow>
     (\<forall>w k e. pv_ok V w \<longrightarrow> k < pv_resv V w \<longrightarrow>
        (let w' = put (pv_index V w k) e w in
           pv_ok V w' \<and> pv_subm V w' = pv_subm V w \<and> pv_resv V w' = pv_resv V w \<and>
           pv_slot V w' (pv_index V w k) = e \<and>
           (\<forall>j < pv_resv V w. j \<noteq> k \<longrightarrow>
              pv_slot V w' (pv_index V w j) = pv_slot V w (pv_index V w j))))"

text \<open>\<open>submit\<close> hands the reserved slots to the other side, in index order.\<close>

definition submit_law :: "'k ffi \<Rightarrow> ring \<Rightarrow> ('k, 'e) prod_view \<Rightarrow> bool" where
  "submit_law F r V \<longleftrightarrow>
     (\<forall>w. pv_ok V w \<longrightarrow>
        (let w' = xsk_ring_prod__submit F r (pv_resv V w) w in
           pv_ok V w' \<and> pv_resv V w' = 0 \<and>
           pv_subm V w' =
             pv_subm V w @ map (\<lambda>k. pv_slot V w (pv_index V w k)) [0..<pv_resv V w]))"

definition prod_ring ::
    "'k ffi \<Rightarrow> ring \<Rightarrow> (u32 \<Rightarrow> 'e \<Rightarrow> 'k world \<Rightarrow> 'k world) \<Rightarrow> ('k, 'e) prod_view \<Rightarrow> bool" where
  "prod_ring F r put V \<longleftrightarrow> reserve_law F r V \<and> put_law put V \<and> submit_law F r V"

section \<open>The contract of a consumer ring\<close>

text \<open>
  \<open>cv_pend\<close> is what a \<open>peek\<close> made now would see, \<open>cv_peek\<close> the number of entries peeked
  and not yet released, \<open>cv_taken\<close> the sequence of all entries released so far.
\<close>

record ('k, 'e) cons_view =
  cv_ok :: "'k world \<Rightarrow> bool"
  cv_pend :: "'k world \<Rightarrow> 'e list"
  cv_peek :: "'k world \<Rightarrow> nat"
  cv_taken :: "'k world \<Rightarrow> 'e list"

definition cv_index :: "('k, 'e) cons_view \<Rightarrow> 'k world \<Rightarrow> nat \<Rightarrow> u32" where
  "cv_index V w k = word_of_nat (length (cv_taken V w) + k)"

text \<open>\<open>peek\<close> grants as many entries as there are, at most the number asked for.\<close>

definition peek_law ::
    "'k ffi \<Rightarrow> ring \<Rightarrow> (u32 \<Rightarrow> 'k world \<Rightarrow> 'e) \<Rightarrow> ('k, 'e) cons_view \<Rightarrow> bool" where
  "peek_law F r get V \<longleftrightarrow>
     (\<forall>w nb idx cnt i w'. cv_ok V w \<longrightarrow> cv_peek V w = 0 \<longrightarrow>
        xsk_ring_cons__peek F r nb idx w = ((cnt, i), w') \<longrightarrow>
        cv_ok V w' \<and> cv_taken V w' = cv_taken V w \<and> cv_peek V w' = cnt \<and>
        cnt = min nb (length (cv_pend V w)) \<and> (0 < cnt \<longrightarrow> i = cv_index V w 0) \<and>
        cnt \<le> length (cv_pend V w') \<and> take cnt (cv_pend V w') = take cnt (cv_pend V w) \<and>
        (\<forall>k < cnt. get (cv_index V w k) w' = cv_pend V w ! k))"

text \<open>\<open>release\<close> gives the peeked slots back to the other side.\<close>

definition release_law :: "'k ffi \<Rightarrow> ring \<Rightarrow> ('k, 'e) cons_view \<Rightarrow> bool" where
  "release_law F r V \<longleftrightarrow>
     (\<forall>w. cv_ok V w \<longrightarrow>
        (let w' = xsk_ring_cons__release F r (cv_peek V w) w in
           cv_ok V w' \<and> cv_peek V w' = 0 \<and>
           cv_taken V w' = cv_taken V w @ take (cv_peek V w) (cv_pend V w)))"

definition cons_ring ::
    "'k ffi \<Rightarrow> ring \<Rightarrow> (u32 \<Rightarrow> 'k world \<Rightarrow> 'e) \<Rightarrow> ('k, 'e) cons_view \<Rightarrow> bool" where
  "cons_ring F r get V \<longleftrightarrow> peek_law F r get V \<and> release_law F r V"

text \<open>
  In a build with overflow checks the crate's arithmetic on ring indices must not pass
  \<open>2 ^ 32\<close>; without them it wraps as the rings do.
\<close>

definition idx_room :: "'k ffi \<Rightarrow> nat \<Rightarrow> bool" where
  "idx_room F n \<longleftrightarrow> (overflow_checks F \<longrightarrow> n < 2 ^ 32)"

section \<open>Using the contracts\<close>

lemma reserve_lawD:
  assumes "reserve_law F r V" "pv_ok V w" "pv_resv V w = 0" "0 < nb"
    and "xsk_ring_prod__reserve F r nb idx w = ((cnt, i), w')"
  shows "pv_ok V w'" "pv_subm V w' = pv_subm V w" "pv_resv V w' = cnt"
    "nb \<le> pv_free V w \<Longrightarrow> cnt = nb" "nb \<le> pv_free V w \<Longrightarrow> i = pv_index V w 0"
    "pv_free V w < nb \<Longrightarrow> cnt = 0"
proof -
  have "pv_ok V w' \<and> pv_subm V w' = pv_subm V w \<and> pv_resv V w' = cnt \<and>
      (if nb \<le> pv_free V w then cnt = nb \<and> i = pv_index V w 0 else cnt = 0)"
    using assms unfolding reserve_law_def by blast
  then show "pv_ok V w'" "pv_subm V w' = pv_subm V w" "pv_resv V w' = cnt"
    "nb \<le> pv_free V w \<Longrightarrow> cnt = nb" "nb \<le> pv_free V w \<Longrightarrow> i = pv_index V w 0"
    "pv_free V w < nb \<Longrightarrow> cnt = 0"
    by (simp_all split: if_splits)
qed

lemma submit_lawD:
  assumes "submit_law F r V" "pv_ok V w" "w' = xsk_ring_prod__submit F r (pv_resv V w) w"
  shows "pv_ok V w'" "pv_resv V w' = 0"
    "pv_subm V w' = pv_subm V w @ map (\<lambda>k. pv_slot V w (pv_index V w k)) [0..<pv_resv V w]"
  using assms by (simp_all add: submit_law_def Let_def)

lemma peek_lawD:
  assumes "peek_law F r get V" "cv_ok V w" "cv_peek V w = 0"
    and "xsk_ring_cons__peek F r nb idx w = ((cnt, i), w')"
  shows "cv_ok V w'" "cv_taken V w' = cv_taken V w" "cv_peek V w' = cnt"
    "cnt = min nb (length (cv_pend V w))" "0 < cnt \<Longrightarrow> i = cv_index V w 0"
    "cnt \<le> length (cv_pend V w')" "take cnt (cv_pend V w') = take cnt (cv_pend V w)"
    "\<And>k. k < cnt \<Longrightarrow> get (cv_index V w k) w' = cv_pend V w ! k"
proof -
  have "cv_ok V w' \<and> cv_taken V w' = cv_taken V w \<and> cv_peek V w' = cnt \<and>
        cnt = min nb (length (cv_pend V w)) \<and> (0 < cnt \<longrightarrow> i = cv_index V w 0) \<and>
        cnt \<le> length (cv_pend V w') \<and> take cnt (cv_pend V w') = take cnt (cv_pend V w) \<and>
        (\<forall>k < cnt. get (cv_index V w k) w' = cv_pend V w ! k)"
    using assms unfolding peek_law_def by blast
  then show "cv_ok V w'" "cv_taken V w' = cv_taken V w" "cv_peek V w' = cnt"
    "cnt = min nb (length (cv_pend V w))" "0 < cnt \<Longrightarrow> i = cv_index V w 0"
    "cnt \<le> length (cv_pend V w')" "take cnt (cv_pend V w') = take cnt (cv_pend V w)"
    "\<And>k. k < cnt \<Longrightarrow> get (cv_index V w k) w' = cv_pend V w ! k"
    by blast+
qed

lemma release_lawD:
  assumes "release_law F r V" "cv_ok V w" "w' = xsk_ring_cons__release F r (cv_peek V w) w"
  shows "cv_ok V w'" "cv_peek V w' = 0"
    "cv_taken V w' = cv_taken V w @ take (cv_peek V w) (cv_pend V w)"
  using assms by (simp_all add: release_law_def Let_def)

lemma prod_ringD:
  assumes "prod_ring F r put V"
  shows "reserve_law F r V" "put_law put V" "submit_law F r V"
  using assms by (simp_all add: prod_ring_def)

lemma cons_ringD:
  assumes "cons_ring F r get V"
  shows "peek_law F r get V" "release_law F r V"
  using assms by (simp_all add: cons_ring_def)

lemma idx_room_mono: "idx_room F n \<Longrightarrow> m \<le> n \<Longrightarrow> idx_room F m"
  by (auto simp: idx_room_def)

lemma add32_index:
  assumes "idx_room F (n + k)"
  shows "add32 (overflow_checks F) (word_of_nat n) (word_of_nat k) = Ret (word_of_nat (n + k))"
  using assms by (auto simp: add32_def idx_room_def unat_of_nat take_bit_nat_eq_self)

end
