(* ===== verification/Mmap.thy ===== *)
theory Mmap
  imports Xdp_Platform
begin

text \<open>
  \<^verbatim>\<open>src/src/umem/mmap.rs\<close>: the anonymous mapping behind the UMEM, and the borrowed byte
  ranges the frames read and write. A range outside the mapping is undefined behaviour, as the
  comments of the source say; an offset that does not fit \<open>isize\<close> panics.
\<close>

unbundle bit_operations_syntax

section \<open>Definitions\<close>

record MmapArea =
  area_len :: usize
  mem_ptr :: nat

definition MmapArea_new ::
    "'k ffi \<Rightarrow> usize \<Rightarrow> bool \<Rightarrow> 'k world \<Rightarrow> (io_error + MmapArea) \<times> 'k world" where
  "MmapArea_new F len huge w =
     (let A = abi F;
          prot = PROT_READ A OR PROT_WRITE A;
          flags = MAP_ANONYMOUS A OR MAP_PRIVATE A;
          flags = (if huge then flags OR MAP_HUGETLB A else flags);
          (p, w') = libc_mmap F len prot flags w
      in if p = MAP_FAILED A then (Inl (OsErrno (libc_errno F w')), w')
         else (Inr \<lparr>area_len = len, mem_ptr = p\<rparr>, w'))"

definition MmapArea_drop :: "'k ffi \<Rightarrow> MmapArea \<Rightarrow> 'k world \<Rightarrow> 'k world" where
  "MmapArea_drop F m w = snd (libc_munmap F (mem_ptr m) (area_len m) w)"

definition bytes_at :: "'k world \<Rightarrow> nat \<Rightarrow> nat \<Rightarrow> u8 list" where
  "bytes_at w p n = map (\<lambda>i. mem w (p + i)) [0..<n]"

definition mem_range :: "MmapArea \<Rightarrow> usize \<Rightarrow> usize \<Rightarrow> 'k world \<Rightarrow> u8 list outcome" where
  "mem_range m off len w =
     (if 2 ^ 63 \<le> off then Panic Unwrap
      else if area_len m < off + len then UB
      else Ret (bytes_at w (mem_ptr m + off) len))"

text \<open>
  \<open>mem_range_mut\<close> lends the range for writing: the borrower sees the bytes and, when the borrow
  ends, has stored \<open>region_store\<close> there.
\<close>

definition mem_range_mut :: "MmapArea \<Rightarrow> usize \<Rightarrow> usize \<Rightarrow> 'k world \<Rightarrow> u8 list outcome" where
  "mem_range_mut m off len w =
     (if 2 ^ 63 \<le> off then Panic Unwrap
      else if area_len m < off + len then UB
      else Ret (bytes_at w (mem_ptr m + off) len))"

definition region_store :: "MmapArea \<Rightarrow> usize \<Rightarrow> u8 list \<Rightarrow> 'k world \<Rightarrow> 'k world" where
  "region_store m off bs w =
     w\<lparr>mem := (\<lambda>a. if mem_ptr m + off \<le> a \<and> a < mem_ptr m + off + length bs
                  then bs ! (a - (mem_ptr m + off)) else mem w a)\<rparr>"

definition in_area :: "MmapArea \<Rightarrow> nat \<Rightarrow> nat \<Rightarrow> bool" where
  "in_area m off n \<longleftrightarrow> off < 2 ^ 63 \<and> off + n \<le> area_len m"

section \<open>Byte ranges as an interface\<close>

text \<open>What the frames rely on: reading back what was stored, and no effect outside the range.\<close>

locale byte_store =
  fixes read :: "'m \<Rightarrow> nat \<Rightarrow> nat \<Rightarrow> 'w \<Rightarrow> u8 list outcome"
    and store :: "'m \<Rightarrow> nat \<Rightarrow> u8 list \<Rightarrow> 'w \<Rightarrow> 'w"
    and covers :: "'m \<Rightarrow> nat \<Rightarrow> nat \<Rightarrow> bool"
  assumes read_total: "covers m off n \<Longrightarrow> \<exists>bs. read m off n w = Ret bs \<and> length bs = n"
    and read_store: "covers m off (length bs) \<Longrightarrow> read m off (length bs) (store m off bs w) = Ret bs"
    and read_store_other:
      "off + length bs \<le> off' \<or> off' + n \<le> off \<Longrightarrow> read m off' n (store m off bs w) = read m off' n w"
begin

lemma store_commute_reads:
  assumes "covers m o1 (length b1)" "covers m o2 (length b2)"
    and "o1 + length b1 \<le> o2 \<or> o2 + length b2 \<le> o1"
  shows "read m o1 (length b1) (store m o2 b2 (store m o1 b1 w)) = Ret b1"
    and "read m o2 (length b2) (store m o2 b2 (store m o1 b1 w)) = Ret b2"
proof -
  show "read m o1 (length b1) (store m o2 b2 (store m o1 b1 w)) = Ret b1"
    using assms by (subst read_store_other) (auto simp: read_store)
  show "read m o2 (length b2) (store m o2 b2 (store m o1 b1 w)) = Ret b2"
    using assms by (simp add: read_store)
qed

end

section \<open>Lemmas\<close>

lemma length_bytes_at [simp]: "length (bytes_at w p n) = n"
  by (simp add: bytes_at_def)

lemma nth_bytes_at [simp]: "i < n \<Longrightarrow> bytes_at w p n ! i = mem w (p + i)"
  by (simp add: bytes_at_def)

lemma bytes_at_cong:
  "(\<And>a. p \<le> a \<Longrightarrow> a < p + n \<Longrightarrow> mem w a = mem w' a) \<Longrightarrow> bytes_at w p n = bytes_at w' p n"
  by (auto simp: bytes_at_def)

lemma mem_range_in: "in_area m off n \<Longrightarrow> mem_range m off n w = Ret (bytes_at w (mem_ptr m + off) n)"
  by (auto simp: mem_range_def in_area_def)

lemma mem_range_mut_eq: "mem_range_mut m off n w = mem_range m off n w"
  by (simp add: mem_range_mut_def mem_range_def)

lemma bytes_at_store_same:
  "bytes_at (region_store m off bs w) (mem_ptr m + off) (length bs) = bs"
  by (auto simp: bytes_at_def region_store_def intro: nth_equalityI)

lemma mem_region_store_outside:
  "a < mem_ptr m + off \<or> mem_ptr m + off + length bs \<le> a \<Longrightarrow> mem (region_store m off bs w) a = mem w a"
  by (auto simp: region_store_def)

lemma bytes_at_store_other:
  "p + n \<le> mem_ptr m + off \<or> mem_ptr m + off + length bs \<le> p \<Longrightarrow>
   bytes_at (region_store m off bs w) p n = bytes_at w p n"
  by (rule bytes_at_cong) (auto simp: region_store_def)

lemma region_store_Nil [simp]: "region_store m off [] w = w"
proof -
  have "(\<lambda>a. if mem_ptr m + off \<le> a \<and> a < mem_ptr m + off then x a else mem w a) = mem w" for x
    by (rule ext) auto
  then show ?thesis by (simp add: region_store_def)
qed

lemma kern_region_store [simp]: "kern (region_store m off bs w) = kern w"
  by (simp add: region_store_def)

interpretation mmap_bytes: byte_store mem_range region_store in_area
proof
  show "\<exists>bs. mem_range m off n w = Ret bs \<and> length bs = n" if "in_area m off n"
    for m off n and w :: "'a world"
    using that by (simp add: mem_range_in)
  show "mem_range m off (length bs) (region_store m off bs w) = Ret bs"
    if "in_area m off (length bs)" for m off bs and w :: "'a world"
    using that by (simp add: mem_range_in bytes_at_store_same)
  show "mem_range m off' n (region_store m off bs w) = mem_range m off' n w"
    if "off + length bs \<le> off' \<or> off' + n \<le> off" for m off off' n bs and w :: "'a world"
    using that by (auto simp: mem_range_def bytes_at_store_other)
qed

end
