(* ===== verification/Frame.thy ===== *)
theory Frame
  imports Mmap
begin

text \<open>
  \<^verbatim>\<open>src/src/umem/umem.rs\<close>, lines 10 to 236 and the error types: the frame descriptor, its
  checks, and reading and writing the frame's bytes.
\<close>

section \<open>Definitions\<close>

datatype FrameStatus = Free | Filled | OnTxQueue | OnFillQueue

fun is_free :: "FrameStatus \<Rightarrow> bool" where
  "is_free Free = True"
| "is_free _ = False"

record Frame =
  frame_addr :: usize
  frame_len :: usize
  frame_options :: u32
  frame_mtu :: usize
  frame_mmap :: MmapArea
  frame_status :: FrameStatus

datatype AccessError =
    NullRegion
  | RegionOutOfBounds usize usize usize
  | CrossesFrameBoundary usize usize

datatype DataError = SizeExceedsMtu usize usize

datatype WriteError = WE_Access AccessError | WE_Data DataError

definition set_addr :: "usize \<Rightarrow> Frame \<Rightarrow> Frame" where
  "set_addr a f = f\<lparr>frame_addr := a\<rparr>"

definition set_len :: "usize \<Rightarrow> Frame \<Rightarrow> Frame" where
  "set_len n f = f\<lparr>frame_len := n\<rparr>"

definition set_options :: "u32 \<Rightarrow> Frame \<Rightarrow> Frame" where
  "set_options opts f = f\<lparr>frame_options := opts\<rparr>"

definition is_access_valid :: "Frame \<Rightarrow> usize \<Rightarrow> AccessError + unit" where
  "is_access_valid f n =
     (if frame_len f < n then Inl (CrossesFrameBoundary (frame_addr f) n) else Inr ())"

definition is_data_valid :: "Frame \<Rightarrow> u8 list \<Rightarrow> DataError + unit" where
  "is_data_valid f data =
     (if frame_mtu f < length data then Inl (SizeExceedsMtu (length data) (frame_mtu f))
      else Inr ())"

definition read_from_umem :: "Frame \<Rightarrow> usize \<Rightarrow> 'k world \<Rightarrow> u8 list outcome" where
  "read_from_umem f n w = mem_range (frame_mmap f) (frame_addr f) n w"

definition read_from_umem_checked ::
    "Frame \<Rightarrow> usize \<Rightarrow> 'k world \<Rightarrow> (AccessError + u8 list) outcome" where
  "read_from_umem_checked f n w =
     (case is_access_valid f n of
        Inl e \<Rightarrow> Ret (Inl e)
      | Inr _ \<Rightarrow> bindO (mem_range (frame_mmap f) (frame_addr f) n w) (\<lambda>bs. Ret (Inr bs)))"

definition write_to_umem :: "Frame \<Rightarrow> u8 list \<Rightarrow> 'k world \<Rightarrow> (Frame \<times> 'k world) outcome" where
  "write_to_umem f data w =
     (let data_len = length data in
      bindO (if 0 < data_len then
               bindO (mem_range_mut (frame_mmap f) (frame_addr f) data_len w)
                 (\<lambda>_. Ret (region_store (frame_mmap f) (frame_addr f) data w))
             else Ret w)
        (\<lambda>w'. Ret (set_len data_len f, w')))"

definition write_to_umem_checked ::
    "Frame \<Rightarrow> u8 list \<Rightarrow> 'k world \<Rightarrow> ((WriteError + unit) \<times> Frame \<times> 'k world) outcome" where
  "write_to_umem_checked f data w =
     (let data_len = length data in
      if 0 < data_len then
        (case is_data_valid f data of
           Inl e \<Rightarrow> Ret (Inl (WE_Data e), f, w)
         | Inr _ \<Rightarrow>
             bindO (mem_range_mut (frame_mmap f) (frame_addr f) data_len w)
               (\<lambda>_. Ret (Inr (), set_len data_len f,
                        region_store (frame_mmap f) (frame_addr f) data w)))
      else Ret (Inr (), set_len data_len f, w))"

definition umem_region_mut :: "Frame \<Rightarrow> usize \<Rightarrow> 'k world \<Rightarrow> u8 list outcome" where
  "umem_region_mut f n w = mem_range_mut (frame_mmap f) (frame_addr f) n w"

definition umem_region_mut_checked ::
    "Frame \<Rightarrow> usize \<Rightarrow> 'k world \<Rightarrow> (AccessError + u8 list) outcome" where
  "umem_region_mut_checked f n w =
     bindO (mem_range_mut (frame_mmap f) (frame_addr f) n w) (\<lambda>bs. Ret (Inr bs))"

text \<open>The \<open>Display\<close> instances; \<open>addr + (len - 1)\<close> is machine arithmetic.\<close>

definition last_byte :: "bool \<Rightarrow> usize \<Rightarrow> usize \<Rightarrow> usize outcome" where
  "last_byte chk a n = bindO (sub64 chk n 1) (\<lambda>m. add64 chk a m)"

fun AccessError_fmt :: "bool \<Rightarrow> AccessError \<Rightarrow> string outcome" where
  "AccessError_fmt chk NullRegion = Ret ''region has zero length''"
| "AccessError_fmt chk (RegionOutOfBounds a n umem_len) =
     bindO (last_byte chk a n) (\<lambda>l.
       Ret (''UMEM region ['' @ show_nat a @ '', '' @ show_nat l @
            ''] is out of bounds (UMEM length is '' @ show_nat umem_len @ '')''))"
| "AccessError_fmt chk (CrossesFrameBoundary a n) =
     bindO (last_byte chk a n) (\<lambda>l.
       Ret (''UMEM region ['' @ show_nat a @ '', '' @ show_nat l @
            ''] intersects with more then one frame''))"

fun DataError_fmt :: "DataError \<Rightarrow> string" where
  "DataError_fmt (SizeExceedsMtu data_len mtu) =
     ''data length ('' @ show_nat data_len @ '' bytes) cannot be greater than the MTU ('' @
     show_nat mtu @ '' bytes)''"

fun WriteError_fmt :: "bool \<Rightarrow> WriteError \<Rightarrow> string outcome" where
  "WriteError_fmt chk (WE_Access e) = AccessError_fmt chk e"
| "WriteError_fmt chk (WE_Data e) = Ret (DataError_fmt e)"

text \<open>
  A frame is \<open>placed\<close> at offset \<open>a\<close> of chunk size \<open>sz\<close> when its chunk lies inside the
  mapping and its MTU fits the chunk; this is what \<open>create_umem\<close> establishes.
\<close>

definition placed :: "Frame \<Rightarrow> nat \<Rightarrow> nat \<Rightarrow> bool" where
  "placed f a sz \<longleftrightarrow>
     frame_addr f = a \<and> frame_mtu f \<le> sz \<and> in_area (frame_mmap f) a sz"

text \<open>The bytes a frame and a ring descriptor name.\<close>

definition frame_data :: "'k world \<Rightarrow> Frame \<Rightarrow> u8 list" where
  "frame_data w f = bytes_at w (mem_ptr (frame_mmap f) + frame_addr f) (frame_len f)"

definition desc_data :: "MmapArea \<Rightarrow> 'k world \<Rightarrow> xdp_desc \<Rightarrow> u8 list" where
  "desc_data m w d = bytes_at w (mem_ptr m + xd_addr d) (unat (xd_len d))"

section \<open>Lemmas\<close>

lemmas set_defs = set_addr_def set_len_def set_options_def

lemma is_free_iff [simp]: "is_free s \<longleftrightarrow> s = Free"
  by (cases s) auto

lemma in_area_mono: "in_area m a n \<Longrightarrow> k \<le> n \<Longrightarrow> in_area m a k"
  by (auto simp: in_area_def)

lemma placed_in_area: "placed f a sz \<Longrightarrow> n \<le> sz \<Longrightarrow> in_area (frame_mmap f) (frame_addr f) n"
  by (auto simp: placed_def intro: in_area_mono)

lemma write_checked_ok:
  assumes "in_area (frame_mmap f) (frame_addr f) (length data)" "length data \<le> frame_mtu f"
  shows "write_to_umem_checked f data w =
    Ret (Inr (), set_len (length data) f, region_store (frame_mmap f) (frame_addr f) data w)"
  using assms
  by (cases "data = []")
    (simp_all add: write_to_umem_checked_def is_data_valid_def mem_range_mut_eq mem_range_in Let_def)

lemma write_checked_too_big:
  assumes "frame_mtu f < length data"
  shows "write_to_umem_checked f data w =
    Ret (Inl (WE_Data (SizeExceedsMtu (length data) (frame_mtu f))), f, w)"
  using assms by (auto simp: write_to_umem_checked_def is_data_valid_def Let_def)

lemma read_checked_ok:
  assumes "in_area (frame_mmap f) (frame_addr f) n" "n \<le> frame_len f"
  shows "read_from_umem_checked f n w =
    Ret (Inr (bytes_at w (mem_ptr (frame_mmap f) + frame_addr f) n))"
  using assms by (simp add: read_from_umem_checked_def is_access_valid_def mem_range_in)

text \<open>The arithmetic of the error messages is safe for every error the frame checks return.\<close>

lemma access_error_fmt_safe:
  assumes "is_access_valid f n = Inl e" "frame_addr f + n \<le> 2 ^ 64"
  shows "\<exists>s. AccessError_fmt chk e = Ret s"
  using assms by (auto simp: is_access_valid_def last_byte_def split: if_splits)

end
