(* ===== verification/Ring_Loops.thy ===== *)
theory Ring_Loops
  imports Frame
begin

text \<open>
  What the four queues have in common: the loop that fills reserved slots and the interfaces of a
  queue that submits frames and of one that takes entries. The queues are in
  \<open>Umem_Queues\<close> and \<open>Socket_Queues\<close>; the sockets use them through the interfaces only.
\<close>

section \<open>Definitions\<close>

text \<open>
  \<open>for desc in ... { *slot(idx) = ...; idx += 1; }\<close>, the loop of both \<open>produce\<close> functions.
\<close>

fun write_slots ::
    "bool \<Rightarrow> (u32 \<Rightarrow> 'e \<Rightarrow> 'k world \<Rightarrow> 'k world) \<Rightarrow> 'e list \<Rightarrow> u32 \<Rightarrow> 'k world \<Rightarrow> 'k world outcome" where
  "write_slots chk put [] idx w = Ret w"
| "write_slots chk put (e # es) idx w =
     bindO (add32 chk idx 1) (\<lambda>idx'. write_slots chk put es idx' (put idx e w))"

text \<open>The calls a queue makes on its ring, and what they leave alone.\<close>

definition prod_ops ::
    "'k ffi \<Rightarrow> ring \<Rightarrow> (u32 \<Rightarrow> 'e \<Rightarrow> 'k world \<Rightarrow> 'k world) \<Rightarrow> ('k world \<Rightarrow> 'k world) set" where
  "prod_ops F r put =
     {\<lambda>w. snd (xsk_ring_prod__reserve F r nb i w) |nb i. True} \<union> {put i e |i e. True} \<union>
     {xsk_ring_prod__submit F r nb |nb. True}"

definition cons_ops :: "'k ffi \<Rightarrow> ring \<Rightarrow> ('k world \<Rightarrow> 'k world) set" where
  "cons_ops F r =
     {\<lambda>w. snd (xsk_ring_cons__peek F r nb i w) |nb i. True} \<union>
     {xsk_ring_cons__release F r nb |nb. True}"

definition keeps :: "('w \<Rightarrow> bool) \<Rightarrow> ('w \<Rightarrow> bool) \<Rightarrow> ('w \<Rightarrow> 'w) set \<Rightarrow> bool" where
  "keeps P I ops \<longleftrightarrow> (\<forall>f \<in> ops. \<forall>w. P w \<longrightarrow> I w \<longrightarrow> I (f w))"

section \<open>The slot loop\<close>

lemma keeps_reserve:
  "keeps P I (prod_ops F r put) \<Longrightarrow> P w \<Longrightarrow> I w \<Longrightarrow>
   xsk_ring_prod__reserve F r nb i w = (x, w') \<Longrightarrow> I w'"
  unfolding keeps_def prod_ops_def by (metis (mono_tags, lifting) UnCI mem_Collect_eq snd_conv)

lemma keeps_put: "keeps P I (prod_ops F r put) \<Longrightarrow> P w \<Longrightarrow> I w \<Longrightarrow> I (put i e w)"
  unfolding keeps_def prod_ops_def by blast

lemma keeps_submit:
  "keeps P I (prod_ops F r put) \<Longrightarrow> P w \<Longrightarrow> I w \<Longrightarrow> I (xsk_ring_prod__submit F r nb w)"
  unfolding keeps_def prod_ops_def by blast

lemma keeps_peek:
  "keeps P I (cons_ops F r) \<Longrightarrow> P w \<Longrightarrow> I w \<Longrightarrow>
   xsk_ring_cons__peek F r nb i w = (x, w') \<Longrightarrow> I w'"
  unfolding keeps_def cons_ops_def by (metis (mono_tags, lifting) UnCI mem_Collect_eq snd_conv)

lemma keeps_release:
  "keeps P I (cons_ops F r) \<Longrightarrow> P w \<Longrightarrow> I w \<Longrightarrow> I (xsk_ring_cons__release F r nb w)"
  unfolding keeps_def cons_ops_def by blast

lemma pv_index_cong: "pv_subm V w' = pv_subm V w \<Longrightarrow> pv_index V w' k = pv_index V w k"
  by (simp add: pv_index_def)

lemma pv_index_step:
  assumes "idx_room F (length (pv_subm V w) + k + 1)"
  shows "add32 (overflow_checks F) (pv_index V w k) 1 = Ret (pv_index V w (Suc k))"
  using add32_index [of F "length (pv_subm V w) + k" 1] assms by (simp add: pv_index_def)

lemma put_law_step:
  assumes "put_law put V" "pv_ok V w" "k < pv_resv V w" "w' = put (pv_index V w k) e w"
  shows "pv_ok V w'" "pv_subm V w' = pv_subm V w" "pv_resv V w' = pv_resv V w"
    "pv_slot V w' (pv_index V w k) = e"
    "\<And>j. j < pv_resv V w \<Longrightarrow> j \<noteq> k \<Longrightarrow> pv_slot V w' (pv_index V w j) = pv_slot V w (pv_index V w j)"
  using assms by (auto simp: put_law_def Let_def)

lemma write_slots_ok:
  assumes law: "put_law put V" and keep: "keeps (pv_ok V) I (prod_ops F r put)"
  shows "pv_ok V w \<Longrightarrow> I w \<Longrightarrow> k + length es \<le> pv_resv V w \<Longrightarrow>
    idx_room F (length (pv_subm V w) + k + length es) \<Longrightarrow>
    \<exists>w'. write_slots (overflow_checks F) put es (pv_index V w k) w = Ret w' \<and> pv_ok V w' \<and>
      pv_subm V w' = pv_subm V w \<and> pv_resv V w' = pv_resv V w \<and> I w' \<and>
      (\<forall>j < k. pv_slot V w' (pv_index V w j) = pv_slot V w (pv_index V w j)) \<and>
      (\<forall>j < length es. pv_slot V w' (pv_index V w (k + j)) = es ! j)"
proof (induction es arbitrary: k w)
  case Nil
  then show ?case by simp
next
  case (Cons e es)
  define w1 where "w1 = put (pv_index V w k) e w"
  have k: "k < pv_resv V w" using Cons.prems by simp
  note step = put_law_step [OF law Cons.prems(1) k w1_def]
  have idx: "pv_index V w1 j = pv_index V w j" for j
    by (rule pv_index_cong) (rule step(2))
  have room: "idx_room F (length (pv_subm V w) + k + 1)"
    using Cons.prems(4) by (rule idx_room_mono) simp
  have kept: "I w1"
    using keeps_put [OF keep Cons.prems(1,2)] by (simp add: w1_def)
  obtain w' where w': "write_slots (overflow_checks F) put es (pv_index V w1 (Suc k)) w1 = Ret w'"
    "pv_ok V w'" "pv_subm V w' = pv_subm V w1" "pv_resv V w' = pv_resv V w1" "I w'"
    "\<forall>j < Suc k. pv_slot V w' (pv_index V w1 j) = pv_slot V w1 (pv_index V w1 j)"
    "\<forall>j < length es. pv_slot V w' (pv_index V w1 (Suc k + j)) = es ! j"
    using Cons.IH [of w1 "Suc k"] Cons.prems step kept by auto
  have run: "write_slots (overflow_checks F) put (e # es) (pv_index V w k) w = Ret w'"
    using w'(1) pv_index_step [OF room] idx by (simp add: w1_def)
  have low: "pv_slot V w' (pv_index V w j) = pv_slot V w (pv_index V w j)" if "j < k" for j
    using w'(6) step(5) [of j] that k idx by simp
  have high: "pv_slot V w' (pv_index V w (k + j)) = (e # es) ! j" if "j < length (e # es)" for j
    using w'(6,7) step(4) that idx by (cases j) auto
  show ?case
    using run w'(2-5) step(2,3) low high by auto
qed

text \<open>Reserving, filling and submitting: what both \<open>produce\<close> functions do.\<close>

lemma produce_fits_core:
  assumes ring: "prod_ring F r put V" and ok: "pv_ok V w" "pv_resv V w = 0" and I: "I w"
    and room: "idx_room F (length (pv_subm V w) + length es)"
    and fits: "length es \<le> pv_free V w" "es \<noteq> []" and keep: "keeps (pv_ok V) I (prod_ops F r put)"
    and res: "xsk_ring_prod__reserve F r (length es) idx w = ((cnt, i), w1)"
  shows "\<exists>w2. cnt = length es \<and> write_slots (overflow_checks F) put es i w1 = Ret w2 \<and>
    (let w' = xsk_ring_prod__submit F r cnt w2 in
       pv_ok V w' \<and> pv_resv V w' = 0 \<and> pv_subm V w' = pv_subm V w @ es \<and> I w')"
proof -
  note laws = prod_ringD [OF ring]
  from fits have nb: "0 < length es" by simp
  note rl = reserve_lawD [OF laws(1) ok nb res]
  have w1: "pv_ok V w1" "pv_subm V w1 = pv_subm V w" "pv_resv V w1 = length es"
    "cnt = length es" "i = pv_index V w1 0"
    using rl fits by (simp_all add: pv_index_def)
  have "I w1" using keeps_reserve [OF keep ok(1) I res] .
  then obtain w2 where w2: "write_slots (overflow_checks F) put es i w1 = Ret w2" "pv_ok V w2"
    "pv_subm V w2 = pv_subm V w" "pv_resv V w2 = length es" "I w2"
    "\<forall>j < length es. pv_slot V w2 (pv_index V w1 j) = es ! j"
    using write_slots_ok [OF laws(2) keep w1(1), of 0 es] w1 room by auto
  have "map (\<lambda>k. pv_slot V w2 (pv_index V w2 k)) [0..<length es] = es"
    using w2(3,6) w1(2) by (auto intro!: nth_equalityI simp: pv_index_def)
  then have "pv_ok V (xsk_ring_prod__submit F r cnt w2)"
      "pv_resv V (xsk_ring_prod__submit F r cnt w2) = 0"
      "pv_subm V (xsk_ring_prod__submit F r cnt w2) = pv_subm V w @ es"
    using submit_lawD [OF laws(3) w2(2) refl] w1(4) w2(3,4) by simp_all
  moreover have "I (xsk_ring_prod__submit F r cnt w2)"
    using keeps_submit [OF keep w2(2,5)] .
  ultimately show ?thesis using w1(4) w2(1) by (auto simp: Let_def)
qed

lemma reserve_full_core:
  assumes ring: "prod_ring F r put V" and ok: "pv_ok V w" "pv_resv V w = 0" and I: "I w"
    and full: "pv_free V w < nb" and keep: "keeps (pv_ok V) I (prod_ops F r put)"
    and res: "xsk_ring_prod__reserve F r nb idx w = ((cnt, i), w1)"
  shows "cnt = 0" "pv_ok V w1" "pv_resv V w1 = 0" "pv_subm V w1 = pv_subm V w" "I w1"
proof -
  from full have nb: "0 < nb" by simp
  show "cnt = 0" "pv_ok V w1" "pv_resv V w1 = 0" "pv_subm V w1 = pv_subm V w"
    using reserve_lawD [OF prod_ringD(1) [OF ring] ok nb res] full by simp_all
  show "I w1" using keeps_reserve [OF keep ok(1) I res] .
qed

section \<open>The interface of a queue that submits frames\<close>

text \<open>
  \<open>contract F q V\<close>: the platform treats the queue's ring as documented; \<open>entry\<close> is what the
  queue writes for a frame.
\<close>

locale batch_producer =
  fixes produce :: "'k ffi \<Rightarrow> 'q \<Rightarrow> Frame list \<Rightarrow> 'k world \<Rightarrow> (usize \<times> 'k world) outcome"
    and entry :: "Frame \<Rightarrow> 'e"
    and contract :: "'k ffi \<Rightarrow> 'q \<Rightarrow> ('k, 'e) prod_view \<Rightarrow> bool"
    and ops :: "'k ffi \<Rightarrow> 'q \<Rightarrow> ('k world \<Rightarrow> 'k world) set"
  assumes produce_fits:
    "contract F q V \<Longrightarrow> pv_ok V w \<Longrightarrow> pv_resv V w = 0 \<Longrightarrow>
     idx_room F (length (pv_subm V w) + length ds) \<Longrightarrow> length ds \<le> pv_free V w \<Longrightarrow>
     keeps (pv_ok V) I (ops F q) \<Longrightarrow> I w \<Longrightarrow>
     \<exists>w'. produce F q ds w = Ret (length ds, w') \<and> pv_ok V w' \<and> pv_resv V w' = 0 \<and>
       pv_subm V w' = pv_subm V w @ map entry ds \<and> I w'"
    and produce_full:
    "contract F q V \<Longrightarrow> pv_ok V w \<Longrightarrow> pv_resv V w = 0 \<Longrightarrow> pv_free V w < length ds \<Longrightarrow>
     keeps (pv_ok V) I (ops F q) \<Longrightarrow> I w \<Longrightarrow>
     \<exists>w'. produce F q ds w = Ret (0, w') \<and> pv_ok V w' \<and> pv_resv V w' = 0 \<and>
       pv_subm V w' = pv_subm V w \<and> I w'"
begin

lemma produce_total:
  assumes "contract F q V" "pv_ok V w" "pv_resv V w = 0"
    and "idx_room F (length (pv_subm V w) + length ds)" "keeps (pv_ok V) I (ops F q)" "I w"
  shows "\<exists>n w'. produce F q ds w = Ret (n, w') \<and> pv_ok V w' \<and> pv_resv V w' = 0 \<and> I w' \<and>
    n = (if length ds \<le> pv_free V w then length ds else 0) \<and>
    pv_subm V w' = pv_subm V w @ (if length ds \<le> pv_free V w then map entry ds else [])"
  using produce_fits [of F q V w ds I] produce_full [of F q V w ds I] assms
  by (cases "length ds \<le> pv_free V w") auto

text \<open>Two batches that both fit arrive in the order they were submitted.\<close>

lemma produce_fifo:
  assumes "contract F q V" "pv_ok V w" "pv_resv V w = 0"
    and "idx_room F (length (pv_subm V w) + length ds + length es)"
    and "length ds \<le> pv_free V w" "produce F q ds w = Ret (n, w1)" "length es \<le> pv_free V w1"
  shows "\<exists>w2. produce F q es w1 = Ret (length es, w2) \<and>
    pv_subm V w2 = pv_subm V w @ map entry (ds @ es)"
proof -
  have "idx_room F (length (pv_subm V w) + length ds)"
    using assms(4) by (rule idx_room_mono) simp
  then have w1: "pv_ok V w1" "pv_resv V w1 = 0" "pv_subm V w1 = pv_subm V w @ map entry ds"
    using produce_fits [OF assms(1-3) _ assms(5), of "\<lambda>_. True"] assms(6) by (auto simp: keeps_def)
  then show ?thesis
    using produce_fits [OF assms(1) w1(1,2), of es "\<lambda>_. True"] assms(4,7)
    by (auto simp: keeps_def add.assoc)
qed

end

section \<open>Peeking and releasing\<close>

lemma cv_index_step:
  assumes "idx_room F (length (cv_taken V w) + k)"
  shows "add32 (overflow_checks F) (cv_index V w 0) (word_of_nat k) = Ret (cv_index V w k)"
  using add32_index [of F "length (cv_taken V w)" k] assms by (simp add: cv_index_def)

lemma peek_core:
  assumes ring: "cons_ring F r get V" and ok: "cv_ok V w" "cv_peek V w = 0" and I: "I w"
    and keep: "keeps (cv_ok V) I (cons_ops F r)"
    and res: "xsk_ring_cons__peek F r n idx w = ((cnt, i), w1)"
  shows "cnt = min n (length (cv_pend V w))" "0 < cnt \<Longrightarrow> i = cv_index V w 0" "I w1" "cv_ok V w1"
    "\<And>k. k < cnt \<Longrightarrow> get (cv_index V w k) w1 = cv_pend V w ! k"
    "cv_taken V w1 = cv_taken V w" "cv_peek V w1 = cnt"
proof -
  show "I w1" using keeps_peek [OF keep ok(1) I res] .
qed (use peek_lawD [OF cons_ringD(1) [OF ring] ok res] in simp_all)

lemma release_core:
  assumes ring: "cons_ring F r get V" and ok: "cv_ok V w" "cv_peek V w = 0" and I: "I w"
    and keep: "keeps (cv_ok V) I (cons_ops F r)"
    and res: "xsk_ring_cons__peek F r n idx w = ((cnt, i), w1)"
    and w': "w' = xsk_ring_cons__release F r cnt w1"
  shows "cv_ok V w'" "cv_peek V w' = 0" "cv_taken V w' = cv_taken V w @ take cnt (cv_pend V w)" "I w'"
proof -
  note pk = peek_core [OF ring ok I keep res]
  have pend: "take cnt (cv_pend V w1) = take cnt (cv_pend V w)"
    using peek_lawD(7) [OF cons_ringD(1) [OF ring] ok res] .
  show "cv_ok V w'" "cv_peek V w' = 0" "cv_taken V w' = cv_taken V w @ take cnt (cv_pend V w)"
    using release_lawD [OF cons_ringD(2) [OF ring] pk(4) refl] pk(6,7) pend unfolding w' by simp_all
  show "I w'" unfolding w' using keeps_release [OF keep pk(4,3)] .
qed

section \<open>The interface of a queue that takes entries\<close>

text \<open>\<open>decode\<close> is what the queue stores in the caller's buffer for an entry.\<close>

locale batch_consumer =
  fixes consume :: "'k ffi \<Rightarrow> 'q \<Rightarrow> u64 \<Rightarrow> 'b list \<Rightarrow> 'k world \<Rightarrow> (u64 \<times> 'b list \<times> 'k world) outcome"
    and decode :: "'e \<Rightarrow> 'b"
    and contract :: "'k ffi \<Rightarrow> 'q \<Rightarrow> ('k, 'e) cons_view \<Rightarrow> bool"
    and ops :: "'k ffi \<Rightarrow> 'q \<Rightarrow> ('k world \<Rightarrow> 'k world) set"
  assumes consume_ok:
    "contract F q V \<Longrightarrow> cv_ok V w \<Longrightarrow> cv_peek V w = 0 \<Longrightarrow> m = min n (length (cv_pend V w)) \<Longrightarrow>
     m \<le> length buf \<Longrightarrow> idx_room F (length (cv_taken V w) + m) \<Longrightarrow> keeps (cv_ok V) I (ops F q) \<Longrightarrow> I w \<Longrightarrow>
     \<exists>w'. consume F q n buf w = Ret (m, map decode (take m (cv_pend V w)) @ drop m buf, w') \<and>
       cv_ok V w' \<and> cv_peek V w' = 0 \<and> cv_taken V w' = cv_taken V w @ take m (cv_pend V w) \<and>
       I w'"
begin

lemma consume_bounded:
  assumes "contract F q V" "cv_ok V w" "cv_peek V w = 0" "n \<le> length buf"
    and "idx_room F (length (cv_taken V w) + n)" "consume F q n buf w = Ret (m, buf', w')"
  shows "m \<le> n" "length buf' = length buf" "drop m buf' = drop m buf"
proof -
  let ?m = "min n (length (cv_pend V w))"
  have "idx_room F (length (cv_taken V w) + ?m)"
    using assms(5) by (rule idx_room_mono) simp
  then have "m = ?m \<and> buf' = map decode (take ?m (cv_pend V w)) @ drop ?m buf"
    using consume_ok [OF assms(1-3) refl, of n buf "\<lambda>_. True"] assms(4,6)
    by (auto simp: keeps_def)
  then show "m \<le> n" "length buf' = length buf" "drop m buf' = drop m buf"
    using assms(4) by auto
qed

end

end
