(* ===== verification/Fd_Poll.thy ===== *)
theory Fd_Poll
  imports Xdp_Platform
begin

text \<open>
  \<^verbatim>\<open>src/src/socket/fd.rs\<close> and \<^verbatim>\<open>src/src/socket/poll.rs\<close>: the descriptor
  with its two \<open>pollfd\<close> structs, and polling it.
\<close>

section \<open>Definitions\<close>

record PollFd =
  pollfd :: c_pollfd

record Fd =
  fd_id :: i32
  pollin_fd :: PollFd
  pollout_fd :: PollFd

definition PollFd_new :: "c_pollfd \<Rightarrow> PollFd" where
  "PollFd_new p = \<lparr>pollfd = p\<rparr>"

definition Fd_new :: "abi_consts \<Rightarrow> i32 \<Rightarrow> Fd" where
  "Fd_new A i =
     \<lparr>fd_id = i,
      pollin_fd = PollFd_new \<lparr>pf_fd = i, pf_events = POLLIN A, pf_revents = 0\<rparr>,
      pollout_fd = PollFd_new \<lparr>pf_fd = i, pf_events = POLLOUT A, pf_revents = 0\<rparr>\<rparr>"

definition poll ::
    "'k ffi \<Rightarrow> PollFd \<Rightarrow> i32 \<Rightarrow> 'k world \<Rightarrow> (io_error + bool) \<times> PollFd \<times> 'k world" where
  "poll F p timeout_ms w =
     (let ((ret, c), w') = libc_poll F (pollfd p) timeout_ms w;
          p' = p\<lparr>pollfd := c\<rparr>
      in if ret < 0 then
           (if libc_errno F w' \<noteq> EINTR (abi F) then (Inl (OsErrno (libc_errno F w')), p', w')
            else (Inr False, p', w'))
         else if ret = 0 then (Inr False, p', w')
         else (Inr True, p', w'))"

definition poll_read ::
    "'k ffi \<Rightarrow> Fd \<Rightarrow> i32 \<Rightarrow> 'k world \<Rightarrow> (io_error + bool) \<times> Fd \<times> 'k world" where
  "poll_read F fd timeout_ms w =
     (let (r, p, w') = poll F (pollin_fd fd) timeout_ms w in (r, fd\<lparr>pollin_fd := p\<rparr>, w'))"

definition poll_write ::
    "'k ffi \<Rightarrow> Fd \<Rightarrow> i32 \<Rightarrow> 'k world \<Rightarrow> (io_error + bool) \<times> Fd \<times> 'k world" where
  "poll_write F fd timeout_ms w =
     (let (r, p, w') = poll F (pollout_fd fd) timeout_ms w in (r, fd\<lparr>pollout_fd := p\<rparr>, w'))"

text \<open>\<open>poll\<close> fails with \<open>EINTR\<close> only: the documented failure of a valid descriptor.\<close>

definition poll_law :: "'k ffi \<Rightarrow> bool" where
  "poll_law F \<longleftrightarrow>
     (\<forall>c t w ret c' w'. libc_poll F c t w = ((ret, c'), w') \<longrightarrow>
        0 \<le> ret \<or> libc_errno F w' = EINTR (abi F))"

section \<open>Lemmas\<close>

lemma poll_cases:
  assumes "libc_poll F (pollfd p) t w = ((ret, c), w')"
  shows "poll F p t w =
    ((if 0 < ret then Inr True
      else if ret < 0 \<and> libc_errno F w' \<noteq> EINTR (abi F) then Inl (OsErrno (libc_errno F w'))
      else Inr False), \<lparr>pollfd = c\<rparr>, w')"
  using assms by (auto simp: poll_def Let_def)

lemma poll_read_ok:
  assumes "poll_law F"
  shows "\<exists>b fd' c. poll_read F fd t w = (Inr b, fd', snd (libc_poll F c t w)) \<and> fd_id fd' = fd_id fd"
proof -
  obtain ret c w' where p: "libc_poll F (pollfd (pollin_fd fd)) t w = ((ret, c), w')"
    by (metis surj_pair)
  with assms have "0 \<le> ret \<or> libc_errno F w' = EINTR (abi F)"
    by (auto simp: poll_law_def)
  then have "\<exists>b. poll F (pollin_fd fd) t w = (Inr b, \<lparr>pollfd = c\<rparr>, w')"
    using poll_cases [OF p] by auto
  then obtain b where "poll F (pollin_fd fd) t w = (Inr b, \<lparr>pollfd = c\<rparr>, w')" ..
  then have "poll_read F fd t w =
      (Inr b, fd\<lparr>pollin_fd := \<lparr>pollfd = c\<rparr>\<rparr>, snd (libc_poll F (pollfd (pollin_fd fd)) t w))"
    using p by (simp add: poll_read_def)
  then show ?thesis by force
qed

end
