(* ===== verification/Umem_Queues.thy ===== *)
theory Umem_Queues
  imports Ring_Loops Fd_Poll
begin

text \<open>
  \<^verbatim>\<open>src/src/umem/umem.rs\<close>, \<open>FillQueue\<close> and \<open>CompQueue\<close>: frames given to the
  kernel for receiving, and addresses of frames it has sent.
\<close>

section \<open>Definitions\<close>

record FillQueue =
  fq_size :: u32
  fq_inner :: ring

record CompQueue =
  cq_size :: u32
  cq_inner :: ring

definition FillQueue_produce ::
    "'k ffi \<Rightarrow> FillQueue \<Rightarrow> Frame list \<Rightarrow> 'k world \<Rightarrow> (usize \<times> 'k world) outcome" where
  "FillQueue_produce F q descs w =
     (let nb = length descs; r = fq_inner q in
      if nb = 0 then Ret (0, w)
      else
        (let ((cnt, idx), w1) = xsk_ring_prod__reserve F r nb 0 w in
         if 0 < cnt then
           bindO (write_slots (overflow_checks F) (xsk_ring_prod__fill_addr F r)
                    (map frame_addr (take cnt descs)) idx w1)
             (\<lambda>w2. Ret (cnt, xsk_ring_prod__submit F r cnt w2))
         else Ret (cnt, w1)))"

definition FillQueue_needs_wakeup :: "'k ffi \<Rightarrow> FillQueue \<Rightarrow> 'k world \<Rightarrow> bool" where
  "FillQueue_needs_wakeup F q w = (xsk_ring_prod__needs_wakeup F (fq_inner q) w \<noteq> 0)"

definition FillQueue_wakeup ::
    "'k ffi \<Rightarrow> FillQueue \<Rightarrow> Fd \<Rightarrow> i32 \<Rightarrow> 'k world \<Rightarrow> (io_error + unit) \<times> Fd \<times> 'k world" where
  "FillQueue_wakeup F q fd poll_timeout w =
     (case poll_read F fd poll_timeout w of
        (Inl e, fd', w') \<Rightarrow> (Inl e, fd', w')
      | (Inr _, fd', w') \<Rightarrow> (Inr (), fd', w'))"

definition FillQueue_produce_and_wakeup ::
    "'k ffi \<Rightarrow> FillQueue \<Rightarrow> Frame list \<Rightarrow> Fd \<Rightarrow> i32 \<Rightarrow> 'k world \<Rightarrow>
     ((io_error + usize) \<times> Fd \<times> 'k world) outcome" where
  "FillQueue_produce_and_wakeup F q descs socket_fd poll_timeout w =
     bindO (FillQueue_produce F q descs w) (\<lambda>(cnt, w1).
       if 0 < cnt \<and> FillQueue_needs_wakeup F q w1 then
         (case FillQueue_wakeup F q socket_fd poll_timeout w1 of
            (Inl e, fd', w2) \<Rightarrow> Ret (Inl e, fd', w2)
          | (Inr _, fd', w2) \<Rightarrow> Ret (Inr cnt, fd', w2))
       else Ret (Inr cnt, socket_fd, w1))"

text \<open>\<open>for i in 0..cnt { free_frames[i as usize] = *comp_addr(idx + i as u32) }\<close>\<close>

fun comp_loop ::
    "'k ffi \<Rightarrow> ring \<Rightarrow> u32 \<Rightarrow> 'k world \<Rightarrow> nat list \<Rightarrow> u64 list \<Rightarrow> u64 list outcome" where
  "comp_loop F r idx w [] free_frames = Ret free_frames"
| "comp_loop F r idx w (i # is) free_frames =
     bindO (add32 (overflow_checks F) idx (as_u32 i)) (\<lambda>j.
       bindO (setO free_frames i (xsk_ring_cons__comp_addr F r j w)) (\<lambda>free_frames'.
         comp_loop F r idx w is free_frames'))"

definition CompQueue_consume ::
    "'k ffi \<Rightarrow> CompQueue \<Rightarrow> u64 \<Rightarrow> u64 list \<Rightarrow> 'k world \<Rightarrow> (u64 \<times> u64 list \<times> 'k world) outcome" where
  "CompQueue_consume F q n_frames free_frames w =
     (let r = cq_inner q; ((cnt, idx), w1) = xsk_ring_cons__peek F r n_frames 0 w in
      bindO (comp_loop F r idx w1 [0..<cnt] free_frames)
        (\<lambda>free_frames'. Ret (cnt, free_frames', xsk_ring_cons__release F r cnt w1)))"

text \<open>The contracts of the two rings, and the calls the queues make on them.\<close>

definition fill_contract :: "'k ffi \<Rightarrow> FillQueue \<Rightarrow> ('k, u64) prod_view \<Rightarrow> bool" where
  "fill_contract F q V \<longleftrightarrow> prod_ring F (fq_inner q) (xsk_ring_prod__fill_addr F (fq_inner q)) V"

definition fill_ops :: "'k ffi \<Rightarrow> FillQueue \<Rightarrow> ('k world \<Rightarrow> 'k world) set" where
  "fill_ops F q = prod_ops F (fq_inner q) (xsk_ring_prod__fill_addr F (fq_inner q))"

definition comp_contract :: "'k ffi \<Rightarrow> CompQueue \<Rightarrow> ('k, u64) cons_view \<Rightarrow> bool" where
  "comp_contract F q V \<longleftrightarrow> cons_ring F (cq_inner q) (xsk_ring_cons__comp_addr F (cq_inner q)) V"

definition comp_ops :: "'k ffi \<Rightarrow> CompQueue \<Rightarrow> ('k world \<Rightarrow> 'k world) set" where
  "comp_ops F q = cons_ops F (cq_inner q)"

section \<open>The fill queue submits all of a batch or none of it\<close>

lemma FillQueue_produce_fits:
  assumes con: "fill_contract F q V" and ok: "pv_ok V w" "pv_resv V w = 0"
    and room: "idx_room F (length (pv_subm V w) + length ds)" and fits: "length ds \<le> pv_free V w"
    and keep: "keeps (pv_ok V) I (fill_ops F q)" "I w"
  shows "\<exists>w'. FillQueue_produce F q ds w = Ret (length ds, w') \<and> pv_ok V w' \<and> pv_resv V w' = 0 \<and>
    pv_subm V w' = pv_subm V w @ map frame_addr ds \<and> I w'"
proof (cases "ds = []")
  case True
  with ok keep show ?thesis by (simp add: FillQueue_produce_def)
next
  case False
  obtain cnt i w1 where res: "xsk_ring_prod__reserve F (fq_inner q) (length ds) 0 w = ((cnt, i), w1)"
    by (metis surj_pair)
  obtain w2 where "cnt = length ds"
      "write_slots (overflow_checks F) (xsk_ring_prod__fill_addr F (fq_inner q)) (map frame_addr ds) i w1
       = Ret w2"
      "let w' = xsk_ring_prod__submit F (fq_inner q) cnt w2 in
       pv_ok V w' \<and> pv_resv V w' = 0 \<and> pv_subm V w' = pv_subm V w @ map frame_addr ds \<and> I w'"
    using produce_fits_core [where es = "map frame_addr ds"] con ok keep room fits False res
    unfolding fill_contract_def fill_ops_def by (metis length_map map_is_Nil_conv)
  with False res show ?thesis by (auto simp: FillQueue_produce_def Let_def)
qed

lemma FillQueue_produce_full:
  assumes con: "fill_contract F q V" and ok: "pv_ok V w" "pv_resv V w = 0"
    and full: "pv_free V w < length ds" and keep: "keeps (pv_ok V) I (fill_ops F q)" "I w"
  shows "\<exists>w'. FillQueue_produce F q ds w = Ret (0, w') \<and> pv_ok V w' \<and> pv_resv V w' = 0 \<and>
    pv_subm V w' = pv_subm V w \<and> I w'"
proof -
  obtain cnt i w1 where res: "xsk_ring_prod__reserve F (fq_inner q) (length ds) 0 w = ((cnt, i), w1)"
    by (metis surj_pair)
  note core = reserve_full_core [OF con [unfolded fill_contract_def] ok keep(2) full
      keep(1) [unfolded fill_ops_def] res]
  from full have "ds \<noteq> []" by auto
  with core res show ?thesis by (auto simp: FillQueue_produce_def Let_def)
qed

interpretation fill: batch_producer FillQueue_produce frame_addr fill_contract fill_ops
  by unfold_locales (rule FillQueue_produce_fits FillQueue_produce_full; assumption)+

section \<open>The completion queue hands out completed addresses\<close>

lemma comp_loop_ok:
  assumes "\<And>k. k < cnt \<Longrightarrow>
      add32 (overflow_checks F) idx (word_of_nat k) = Ret (ix k) \<and> xsk_ring_cons__comp_addr F r (ix k) w = e k"
  shows "k \<le> cnt \<Longrightarrow> cnt \<le> length ff \<Longrightarrow> take k ff = map e [0..<k] \<Longrightarrow>
    comp_loop F r idx w [k..<cnt] ff = Ret (map e [0..<cnt] @ drop cnt ff)"
proof (induction "cnt - k" arbitrary: k ff)
  case 0
  then have "k = cnt" by simp
  with 0 show ?case by (metis append_take_drop_id comp_loop.simps(1) upt_rec less_irrefl)
next
  case (Suc d)
  then have k: "k < cnt" "k < length ff" by auto
  let ?ff = "ff[k := e k]"
  have t: "take (Suc k) ?ff = map e [0..<Suc k]"
    using Suc.prems k by (simp add: take_Suc_conv_app_nth)
  have "comp_loop F r idx w [Suc k..<cnt] ?ff = Ret (map e [0..<cnt] @ drop cnt ?ff)"
    using Suc.hyps(2) Suc.prems k t by (intro Suc.hyps(1)) auto
  moreover have "drop cnt ?ff = drop cnt ff" using k by simp
  ultimately show ?case
    using k assms [OF k(1)] by (simp add: upt_conv_Cons as_u32_def)
qed

lemma CompQueue_consume_ok:
  assumes con: "comp_contract F q V" and ok: "cv_ok V w" "cv_peek V w = 0"
    and m: "m = min n (length (cv_pend V w))" "m \<le> length buf"
    and room: "idx_room F (length (cv_taken V w) + m)"
    and keep: "keeps (cv_ok V) I (comp_ops F q)" "I w"
  shows "\<exists>w'. CompQueue_consume F q n buf w = Ret (m, map id (take m (cv_pend V w)) @ drop m buf, w') \<and>
    cv_ok V w' \<and> cv_peek V w' = 0 \<and> cv_taken V w' = cv_taken V w @ take m (cv_pend V w) \<and> I w'"
proof -
  let ?r = "cq_inner q"
  obtain cnt i w1 where res: "xsk_ring_cons__peek F ?r n 0 w = ((cnt, i), w1)" by (metis surj_pair)
  note ring = con [unfolded comp_contract_def] and keep' = keep(1) [unfolded comp_ops_def]
  note pk = peek_core [OF ring ok keep(2) keep' res]
  have "cnt = m" using pk(1) m(1) by simp
  have "comp_loop F ?r i w1 [0..<cnt] buf =
      Ret (map (\<lambda>k. cv_pend V w ! k) [0..<cnt] @ drop cnt buf)"
  proof (rule comp_loop_ok [where ix = "cv_index V w" and k = 0 and cnt = cnt])
    fix k assume k: "k < cnt"
    have "idx_room F (length (cv_taken V w) + k)"
      using room by (rule idx_room_mono) (use k \<open>cnt = m\<close> in simp)
    then show "add32 (overflow_checks F) i (word_of_nat k) = Ret (cv_index V w k) \<and>
        xsk_ring_cons__comp_addr F ?r (cv_index V w k) w1 = cv_pend V w ! k"
      using pk(2,5) cv_index_step k by (metis gr_zeroI not_less_zero)
  qed (use m \<open>cnt = m\<close> in auto)
  moreover have "map (\<lambda>k. cv_pend V w ! k) [0..<cnt] = take m (cv_pend V w)"
    using m(1) \<open>cnt = m\<close> by (auto intro!: nth_equalityI)
  ultimately show ?thesis
    using release_core [OF ring ok keep(2) keep' res refl] res \<open>cnt = m\<close>
    by (auto simp: CompQueue_consume_def Let_def)
qed

interpretation compq: batch_consumer CompQueue_consume id comp_contract comp_ops
  by unfold_locales (rule CompQueue_consume_ok; assumption)

end
