(* ===== verification/Util_Pow2.thy ===== *)
theory Util_Pow2
  imports Xdp_Prelude
begin

text \<open>
  \<^verbatim>\<open>src/src/util.rs\<close>: the bit trick both configurations use to test a queue size, and its
  meaning. \<open>get_errno\<close> is the field \<open>libc_errno\<close> of the platform.
\<close>

unbundle bit_operations_syntax

definition is_pow_of_two :: "u32 \<Rightarrow> bool" where
  "is_pow_of_two val = (if val = 0 then False else (val AND (val - 1)) = 0)"

section \<open>The trick is right on naturals\<close>

lemma and_pred_even: "0 < m \<Longrightarrow> (2 * m) AND (2 * m - 1) = 2 * (m AND (m - 1))" for m :: nat
  by (cases m) (simp_all add: and_nat_unfold [of "Suc (Suc (2 * _))"] and_nat_unfold [of "2 * _"])

lemma and_pred_odd: "(2 * m + 1) AND (2 * m + 1 - 1) = 2 * m" for m :: nat
  by (simp add: and_nat_unfold [of "Suc (2 * m)"])

lemma and_pred_eq_0_iff: "0 < n \<Longrightarrow> n AND (n - 1) = 0 \<longleftrightarrow> (\<exists>k. n = 2 ^ k)" for n :: nat
proof (induction n rule: less_induct)
  case (less n)
  show ?case
  proof (cases "even n")
    case True
    then obtain m where n: "n = 2 * m" by blast
    with less.prems have m: "0 < m" "m < n" by auto
    have "n AND (n - 1) = 0 \<longleftrightarrow> m AND (m - 1) = 0"
      using and_pred_even [OF m(1)] n by simp
    also have "\<dots> \<longleftrightarrow> (\<exists>k. m = 2 ^ k)"
      using less.IH [OF m(2,1)] .
    also have "\<dots> \<longleftrightarrow> (\<exists>k. n = 2 ^ k)"
    proof
      assume "\<exists>k. m = 2 ^ k"
      then obtain k where "n = 2 ^ Suc k" using n by auto
      then show "\<exists>k. n = 2 ^ k" by blast
    next
      assume "\<exists>k. n = 2 ^ k"
      then obtain k where k: "n = 2 ^ k" by blast
      with m n have "0 < k" by (cases k) auto
      then obtain j where "k = Suc j" by (cases k) auto
      with k n show "\<exists>k. m = 2 ^ k" by auto
    qed
    finally show ?thesis .
  next
    case False
    then obtain m where n: "n = 2 * m + 1" by (elim oddE)
    have "n AND (n - 1) = 0 \<longleftrightarrow> n = 1"
      using and_pred_odd [of m] n by simp
    also have "\<dots> \<longleftrightarrow> (\<exists>k. n = 2 ^ k)"
      using False by (auto intro: exI [of _ 0])
    finally show ?thesis .
  qed
qed

section \<open>The trick is right on u32\<close>

lemma unat_and_pred:
  fixes v :: u32
  assumes "v \<noteq> 0"
  shows "unat (v AND (v - 1)) = unat v AND (unat v - 1)"
  using assms by (simp add: unsigned_and_eq unat_minus_one)

lemma is_pow_of_two_unat: "is_pow_of_two v \<longleftrightarrow> (\<exists>k. unat v = 2 ^ k)"
proof (cases "v = 0")
  case True
  then show ?thesis by (simp add: is_pow_of_two_def)
next
  case False
  then have "0 < unat v" by (simp add: unat_gt_0)
  then have "unat v AND (unat v - 1) = 0 \<longleftrightarrow> (\<exists>k. unat v = 2 ^ k)"
    by (rule and_pred_eq_0_iff)
  moreover have "v AND (v - 1) = 0 \<longleftrightarrow> unat v AND (unat v - 1) = 0"
    using unat_and_pred [OF False] by (metis unat_eq_zero)
  ultimately show ?thesis using False by (simp add: is_pow_of_two_def)
qed

end
