(* ===== verification/Config_Builder.thy ===== *)
theory Config_Builder
  imports Xdp_Prelude
begin

text \<open>
  The contract the two configuration builders of the crate share: \<open>build\<close> checks what the
  builder holds and copies it into the configuration. \<open>load\<close> is the chain of setter calls that
  puts every field of a configuration into a builder.
\<close>

locale config_builder =
  fixes build :: "'b \<Rightarrow> 'e + 'c"
    and load :: "'b \<Rightarrow> 'c \<Rightarrow> 'b"
    and valid :: "'c \<Rightarrow> bool"
  assumes build_load: "valid c \<Longrightarrow> build (load b c) = Inr c"
    and build_invalid: "\<not> valid c \<Longrightarrow> \<exists>e. build (load b c) = Inl e"
    and load_build: "build b = Inr c \<Longrightarrow> load b' c = b"
begin

lemma build_load_iff: "build (load b c) = Inr c \<longleftrightarrow> valid c"
  using build_load build_invalid by (metis Inl_Inr_False)

lemma build_sound: "build b = Inr c \<Longrightarrow> valid c"
  using load_build [of b c b] build_load_iff [of b c] by simp

lemma build_inj: "build b = Inr c \<Longrightarrow> build b' = Inr c \<Longrightarrow> b = b'"
  using load_build by metis

lemma build_complete: "valid c \<Longrightarrow> \<exists>b. build b = Inr c"
  using build_load by blast

end

end
