(* ===== verification/Umem_Config.thy ===== *)
theory Umem_Config
  imports Util_Pow2 Xdp_Platform Config_Builder
begin

text \<open>
  \<^verbatim>\<open>src/src/umem/config.rs\<close>: the UMEM configuration, its checks and its builder.
\<close>

section \<open>Definitions\<close>

datatype UmemConfigError =
    FrameCountInvalid string
  | CompSizeInvalid string
  | FillSizeInvalid string
  | FrameSizeInvalid string

fun UmemConfigError_fmt :: "UmemConfigError \<Rightarrow> string" where
  "UmemConfigError_fmt (FrameCountInvalid reason) = reason"
| "UmemConfigError_fmt (CompSizeInvalid reason) = reason"
| "UmemConfigError_fmt (FillSizeInvalid reason) = reason"
| "UmemConfigError_fmt (FrameSizeInvalid reason) = reason"

record UmemConfig =
  frame_count :: u32
  frame_size :: u32
  fill_queue_size :: u32
  comp_queue_size :: u32
  frame_headroom :: u32
  use_huge_pages :: bool

definition UmemConfig_default :: "abi_consts \<Rightarrow> UmemConfig" where
  "UmemConfig_default A =
     \<lparr>frame_count = 2048,
      frame_size = XSK_UMEM__DEFAULT_FRAME_SIZE A,
      fill_queue_size = XSK_RING_PROD__DEFAULT_NUM_DESCS A,
      comp_queue_size = XSK_RING_CONS__DEFAULT_NUM_DESCS A,
      frame_headroom = XSK_UMEM__DEFAULT_FRAME_HEADROOM A,
      use_huge_pages = False\<rparr>"

definition UmemConfig_new ::
    "u32 \<Rightarrow> u32 \<Rightarrow> u32 \<Rightarrow> u32 \<Rightarrow> u32 \<Rightarrow> bool \<Rightarrow> UmemConfigError + UmemConfig" where
  "UmemConfig_new n sz fill cmpl headroom huge =
     (if n = 0 then
        Inl (FrameCountInvalid ''frame count must be greater than 0'')
      else if \<not> is_pow_of_two fill then
        Inl (FillSizeInvalid ''fill queue size must be a power of two'')
      else if \<not> is_pow_of_two cmpl then
        Inl (CompSizeInvalid ''comp queue size must be a power of two'')
      else if sz < 2048 then
        Inl (FrameSizeInvalid ''frame size must be greater than or equal to 2048'')
      else
        Inr \<lparr>frame_count = n, frame_size = sz, fill_queue_size = fill,
             comp_queue_size = cmpl, frame_headroom = headroom, use_huge_pages = huge\<rparr>)"

definition umem_len :: "UmemConfig \<Rightarrow> usize outcome" where
  "umem_len c =
     (case checked_mul64 (as_usize (frame_count c)) (as_usize (frame_size c)) of
        None \<Rightarrow> Panic Unwrap
      | Some n \<Rightarrow> Ret n)"

record UmemConfigBuilder =
  ub_frame_count :: u32
  ub_frame_size :: u32
  ub_fill_queue_size :: u32
  ub_comp_queue_size :: u32
  ub_frame_headroom :: u32
  ub_use_huge_pages :: bool

definition UmemConfigBuilder_default :: "abi_consts \<Rightarrow> UmemConfigBuilder" where
  "UmemConfigBuilder_default A =
     \<lparr>ub_frame_count = 2048,
      ub_frame_size = XSK_UMEM__DEFAULT_FRAME_SIZE A,
      ub_fill_queue_size = XSK_RING_PROD__DEFAULT_NUM_DESCS A,
      ub_comp_queue_size = XSK_RING_CONS__DEFAULT_NUM_DESCS A,
      ub_frame_headroom = XSK_UMEM__DEFAULT_FRAME_HEADROOM A,
      ub_use_huge_pages = False\<rparr>"

definition UmemConfigBuilder_new :: "abi_consts \<Rightarrow> UmemConfigBuilder" where
  "UmemConfigBuilder_new A = UmemConfigBuilder_default A"

definition UmemConfigBuilder_frame_count :: "u32 \<Rightarrow> UmemConfigBuilder \<Rightarrow> UmemConfigBuilder" where
  "UmemConfigBuilder_frame_count v b = b\<lparr>ub_frame_count := v\<rparr>"

definition UmemConfigBuilder_frame_size :: "u32 \<Rightarrow> UmemConfigBuilder \<Rightarrow> UmemConfigBuilder" where
  "UmemConfigBuilder_frame_size v b = b\<lparr>ub_frame_size := v\<rparr>"

definition UmemConfigBuilder_fill_queue_size :: "u32 \<Rightarrow> UmemConfigBuilder \<Rightarrow> UmemConfigBuilder" where
  "UmemConfigBuilder_fill_queue_size v b = b\<lparr>ub_fill_queue_size := v\<rparr>"

definition UmemConfigBuilder_comp_queue_size :: "u32 \<Rightarrow> UmemConfigBuilder \<Rightarrow> UmemConfigBuilder" where
  "UmemConfigBuilder_comp_queue_size v b = b\<lparr>ub_comp_queue_size := v\<rparr>"

definition UmemConfigBuilder_frame_headroom :: "u32 \<Rightarrow> UmemConfigBuilder \<Rightarrow> UmemConfigBuilder" where
  "UmemConfigBuilder_frame_headroom v b = b\<lparr>ub_frame_headroom := v\<rparr>"

definition UmemConfigBuilder_use_huge_pages :: "bool \<Rightarrow> UmemConfigBuilder \<Rightarrow> UmemConfigBuilder" where
  "UmemConfigBuilder_use_huge_pages v b = b\<lparr>ub_use_huge_pages := v\<rparr>"

definition UmemConfigBuilder_build :: "UmemConfigBuilder \<Rightarrow> UmemConfigError + UmemConfig" where
  "UmemConfigBuilder_build b =
     UmemConfig_new (ub_frame_count b) (ub_frame_size b) (ub_fill_queue_size b)
       (ub_comp_queue_size b) (ub_frame_headroom b) (ub_use_huge_pages b)"

text \<open>
  For the contract of the builder: what a configuration promises, and the calls of all setters, one
  after the other, with the values of a configuration (an abbreviation of the calls, not a function of
  the crate).
\<close>

definition UmemConfig_valid :: "UmemConfig \<Rightarrow> bool" where
  "UmemConfig_valid c \<longleftrightarrow>
     0 < frame_count c \<and> (\<exists>k. unat (fill_queue_size c) = 2 ^ k) \<and>
     (\<exists>k. unat (comp_queue_size c) = 2 ^ k) \<and> 2048 \<le> unat (frame_size c)"

definition UmemConfigBuilder_load :: "UmemConfigBuilder \<Rightarrow> UmemConfig \<Rightarrow> UmemConfigBuilder" where
  "UmemConfigBuilder_load b c =
     UmemConfigBuilder_use_huge_pages (use_huge_pages c)
       (UmemConfigBuilder_frame_headroom (frame_headroom c)
         (UmemConfigBuilder_comp_queue_size (comp_queue_size c)
           (UmemConfigBuilder_fill_queue_size (fill_queue_size c)
             (UmemConfigBuilder_frame_size (frame_size c)
               (UmemConfigBuilder_frame_count (frame_count c) b)))))"

section \<open>Lemmas\<close>

lemmas UmemConfigBuilder_setters =
  UmemConfigBuilder_use_huge_pages_def UmemConfigBuilder_frame_headroom_def
  UmemConfigBuilder_comp_queue_size_def UmemConfigBuilder_fill_queue_size_def
  UmemConfigBuilder_frame_size_def UmemConfigBuilder_frame_count_def

lemma frame_size_2048: "sz < 2048 \<longleftrightarrow> unat sz < 2048" for sz :: u32
  by (simp add: word_less_nat_alt)

lemma UmemConfig_new_Inr:
  "UmemConfig_new n sz fill cmpl headroom huge = Inr c \<longleftrightarrow>
     UmemConfig_valid c \<and>
     c = \<lparr>frame_count = n, frame_size = sz, fill_queue_size = fill,
          comp_queue_size = cmpl, frame_headroom = headroom, use_huge_pages = huge\<rparr>"
  by (auto simp: UmemConfig_new_def UmemConfig_valid_def is_pow_of_two_unat frame_size_2048
      word_neq_0_conv)

lemma UmemConfig_valid_lens:
  assumes "UmemConfig_valid c"
  shows "0 < unat (frame_count c)" "2048 \<le> unat (frame_size c)"
    "0 < unat (fill_queue_size c)" "0 < unat (comp_queue_size c)"
  using assms by (auto simp: UmemConfig_valid_def word_less_nat_alt)

interpretation umem_cfg: config_builder UmemConfigBuilder_build UmemConfigBuilder_load UmemConfig_valid
proof
  fix b b' c
  have eq: "UmemConfigBuilder_build (UmemConfigBuilder_load b c) =
      UmemConfig_new (frame_count c) (frame_size c) (fill_queue_size c) (comp_queue_size c)
        (frame_headroom c) (use_huge_pages c)" for b
    by (simp add: UmemConfigBuilder_build_def UmemConfigBuilder_load_def UmemConfigBuilder_setters)
  show "UmemConfigBuilder_build (UmemConfigBuilder_load b c) = Inr c" if "UmemConfig_valid c"
    using that eq by (simp add: UmemConfig_new_Inr)
  show "\<exists>e. UmemConfigBuilder_build (UmemConfigBuilder_load b c) = Inl e" if "\<not> UmemConfig_valid c"
  proof (cases "UmemConfigBuilder_build (UmemConfigBuilder_load b c)")
    case (Inr d)
    then have "d = c" "UmemConfig_valid d" using eq [of b] by (auto simp: UmemConfig_new_Inr)
    with that show ?thesis by simp
  qed blast
  show "UmemConfigBuilder_load b' c = b" if "UmemConfigBuilder_build b = Inr c"
    using that
    by (auto simp: UmemConfigBuilder_build_def UmemConfig_new_Inr UmemConfigBuilder_load_def
        UmemConfigBuilder_setters)
qed

lemma umem_len_total: "umem_len c = Ret (unat (frame_count c) * unat (frame_size c))"
proof -
  have "unat (frame_count c) * unat (frame_size c) < 2 ^ 32 * 2 ^ 32"
    using as_usize_less [of "frame_count c"] as_usize_less [of "frame_size c"]
    unfolding as_usize_def by (intro mult_strict_mono) auto
  then show ?thesis by (simp add: umem_len_def checked_mul64_def as_usize_def)
qed

end
