(* ===== verification/Umem_Build.thy ===== *)
theory Umem_Build
  imports Umem_Queues Umem_Config
begin

text \<open>
  \<^verbatim>\<open>src/src/umem/umem.rs\<close>, lines 238 to 407: building the UMEM, which maps the memory,
  registers it and cuts it into frames.
\<close>

section \<open>Definitions\<close>

record UmemBuilder =
  ubld_config :: UmemConfig

record UmemBuilderWithMmap =
  ubm_config :: UmemConfig
  ubm_mmap_area :: MmapArea

record Umem =
  umem_config :: UmemConfig
  umem_mtu :: usize
  umem_inner :: umem_ptr

definition Umem_builder :: "UmemConfig \<Rightarrow> UmemBuilder" where
  "Umem_builder c = \<lparr>ubld_config = c\<rparr>"

definition create_mmap ::
    "'k ffi \<Rightarrow> UmemBuilder \<Rightarrow> 'k world \<Rightarrow> ((io_error + UmemBuilderWithMmap) \<times> 'k world) outcome" where
  "create_mmap F b w =
     bindO (umem_len (ubld_config b)) (\<lambda>n.
       case MmapArea_new F n (use_huge_pages (ubld_config b)) w of
         (Inl e, w') \<Rightarrow> Ret (Inl e, w')
       | (Inr m, w') \<Rightarrow> Ret (Inr \<lparr>ubm_config = ubld_config b, ubm_mmap_area = m\<rparr>, w'))"

text \<open>\<open>for i in 0..frame_count { ... frames.push(frame) }\<close>\<close>

fun make_frames ::
    "bool \<Rightarrow> MmapArea \<Rightarrow> usize \<Rightarrow> usize \<Rightarrow> nat list \<Rightarrow> Frame list \<Rightarrow> Frame list outcome" where
  "make_frames chk m frame_sz mtu [] frames = Ret frames"
| "make_frames chk m frame_sz mtu (i # is) frames =
     bindO (mul64 chk i frame_sz) (\<lambda>a.
       make_frames chk m frame_sz mtu is
         (frames @ [\<lparr>frame_addr = a, frame_len = 0, frame_options = 0, frame_mtu = mtu,
                     frame_mmap = m, frame_status = Free\<rparr>]))"

text \<open>When \<open>xsk_umem__create\<close> fails, the mapping is dropped on the way out.\<close>

definition create_umem ::
    "'k ffi \<Rightarrow> UmemBuilderWithMmap \<Rightarrow> 'k world \<Rightarrow>
     ((io_error + Umem \<times> FillQueue \<times> CompQueue \<times> Frame list) \<times> 'k world) outcome" where
  "create_umem F b w =
     (let c = ubm_config b; m = ubm_mmap_area b; chk = overflow_checks F;
          cfg = \<lparr>uc_fill_size = fill_queue_size c, uc_comp_size = comp_queue_size c,
                 uc_frame_size = frame_size c, uc_frame_headroom = frame_headroom c, uc_flags = 0\<rparr>;
          ((err, umem_p, fq, cq), w1) = xsk_umem__create F (mem_ptr m) (area_len m) cfg w
      in if err \<noteq> 0 then Ret (Inl (OsErrno (libc_errno F w1)), MmapArea_drop F m w1)
         else
           (let frame_sz = as_usize (frame_size c); n = as_usize (frame_count c);
                headroom = as_usize (frame_headroom c);
                xdp_packet_headroom = as_usize (XDP_PACKET_HEADROOM (abi F))
            in bindO (add64 chk xdp_packet_headroom headroom) (\<lambda>h.
                 bindO (sub64 chk frame_sz h) (\<lambda>mtu.
                   bindO (make_frames chk m frame_sz mtu [0..<n] []) (\<lambda>frames.
                     Ret (Inr (\<lparr>umem_config = c, umem_mtu = mtu, umem_inner = umem_p\<rparr>,
                               \<lparr>fq_size = fill_queue_size c, fq_inner = fq\<rparr>,
                               \<lparr>cq_size = comp_queue_size c, cq_inner = cq\<rparr>, frames), w1))))))"

definition Umem_as_mut_ptr :: "Umem \<Rightarrow> umem_ptr outcome" where
  "Umem_as_mut_ptr u =
     (if umem_inner u = 0 then Panic (Expect ''failed to get mut umem ptr'') else Ret (umem_inner u))"

definition XskUmem_drop :: "'k ffi \<Rightarrow> umem_ptr \<Rightarrow> 'k world \<Rightarrow> 'k world" where
  "XskUmem_drop F p w = snd (xsk_umem__delete F p w)"

text \<open>The frames a successful \<open>create_umem\<close> returns.\<close>

definition frame_at :: "MmapArea \<Rightarrow> usize \<Rightarrow> usize \<Rightarrow> nat \<Rightarrow> Frame" where
  "frame_at m frame_sz mtu i =
     \<lparr>frame_addr = i * frame_sz, frame_len = 0, frame_options = 0, frame_mtu = mtu,
      frame_mmap = m, frame_status = Free\<rparr>"

definition umem_frames :: "MmapArea \<Rightarrow> UmemConfig \<Rightarrow> usize \<Rightarrow> Frame list" where
  "umem_frames m c mtu =
     map (frame_at m (unat (frame_size c)) mtu) [0..<unat (frame_count c)]"

section \<open>Lemmas\<close>

lemma make_frames_ok:
  "\<forall>i \<in> set is. i * sz < 2 ^ 64 \<Longrightarrow>
   make_frames chk m sz mtu is frames = Ret (frames @ map (frame_at m sz mtu) is)"
  by (induction "is" arbitrary: frames) (simp_all add: mul64_def frame_at_def)

lemma frame_mult_bound:
  fixes n sz :: u32
  assumes "i < unat n"
  shows "i * unat sz < 2 ^ 64"
proof -
  have "i * unat sz \<le> unat n * unat sz" using assms by simp
  also have "\<dots> < 2 ^ 32 * 2 ^ 32"
    using as_usize_less [of n] as_usize_less [of sz] assms
    unfolding as_usize_def by (intro mult_strict_mono) auto
  finally show ?thesis by simp
qed

text \<open>
  The frame loop never overflows; the only arithmetic of \<open>create_umem\<close> that can is the MTU, when
  the headrooms do not fit the frame.
\<close>

lemma create_umem_ok:
  assumes create: "xsk_umem__create F (mem_ptr (ubm_mmap_area b)) (area_len (ubm_mmap_area b))
      \<lparr>uc_fill_size = fill_queue_size (ubm_config b), uc_comp_size = comp_queue_size (ubm_config b),
       uc_frame_size = frame_size (ubm_config b),
       uc_frame_headroom = frame_headroom (ubm_config b), uc_flags = 0\<rparr> w = ((0, p, fq, cq), w1)"
    and fits: "unat (XDP_PACKET_HEADROOM (abi F)) + unat (frame_headroom (ubm_config b))
      \<le> unat (frame_size (ubm_config b))"
    and mtu: "mtu = unat (frame_size (ubm_config b)) -
      (unat (XDP_PACKET_HEADROOM (abi F)) + unat (frame_headroom (ubm_config b)))"
  shows "create_umem F b w =
    Ret (Inr (\<lparr>umem_config = ubm_config b, umem_mtu = mtu, umem_inner = p\<rparr>,
              \<lparr>fq_size = fill_queue_size (ubm_config b), fq_inner = fq\<rparr>,
              \<lparr>cq_size = comp_queue_size (ubm_config b), cq_inner = cq\<rparr>,
              umem_frames (ubm_mmap_area b) (ubm_config b) mtu), w1)"
proof -
  let ?h = "unat (XDP_PACKET_HEADROOM (abi F)) + unat (frame_headroom (ubm_config b))"
  have "?h < 2 ^ 64"
    using as_usize_less [of "frame_size (ubm_config b)"] fits by (simp add: as_usize_def)
  moreover have "\<forall>i \<in> set [0..<unat (frame_count (ubm_config b))].
      i * unat (frame_size (ubm_config b)) < 2 ^ 64"
    using frame_mult_bound by simp
  ultimately show ?thesis
    using create fits mtu
    by (simp add: create_umem_def Let_def as_usize_def umem_frames_def make_frames_ok)
qed

lemma create_umem_headroom_panics:
  assumes create: "xsk_umem__create F (mem_ptr (ubm_mmap_area b)) (area_len (ubm_mmap_area b))
      \<lparr>uc_fill_size = fill_queue_size (ubm_config b), uc_comp_size = comp_queue_size (ubm_config b),
       uc_frame_size = frame_size (ubm_config b),
       uc_frame_headroom = frame_headroom (ubm_config b), uc_flags = 0\<rparr> w = ((0, p, fq, cq), w1)"
    and big: "unat (frame_size (ubm_config b)) <
      unat (XDP_PACKET_HEADROOM (abi F)) + unat (frame_headroom (ubm_config b))"
    and chk: "overflow_checks F"
  shows "create_umem F b w = Panic ArithOverflow"
proof -
  have "unat (XDP_PACKET_HEADROOM (abi F)) + unat (frame_headroom (ubm_config b)) < 2 ^ 64"
    using as_usize_less [of "XDP_PACKET_HEADROOM (abi F)"]
      as_usize_less [of "frame_headroom (ubm_config b)"] by (simp add: as_usize_def)
  then show ?thesis
    using create big chk by (simp add: create_umem_def Let_def as_usize_def sub64_def)
qed

lemma length_umem_frames [simp]: "length (umem_frames m c mtu) = unat (frame_count c)"
  by (simp add: umem_frames_def)

lemma nth_umem_frames [simp]:
  "i < unat (frame_count c) \<Longrightarrow> umem_frames m c mtu ! i = frame_at m (unat (frame_size c)) mtu i"
  by (simp add: umem_frames_def)

lemma frame_at_simps [simp]:
  "frame_addr (frame_at m sz mtu i) = i * sz" "frame_len (frame_at m sz mtu i) = 0"
  "frame_options (frame_at m sz mtu i) = 0" "frame_mtu (frame_at m sz mtu i) = mtu"
  "frame_mmap (frame_at m sz mtu i) = m" "frame_status (frame_at m sz mtu i) = Free"
  by (simp_all add: frame_at_def)

text \<open>Every frame lies inside the mapping and different frames do not overlap.\<close>

lemma umem_frames_placed:
  assumes "area_len m = unat (frame_count c) * unat (frame_size c)" "area_len m < 2 ^ 63"
    and "mtu \<le> unat (frame_size c)" "i < unat (frame_count c)"
  shows "placed (umem_frames m c mtu ! i) (i * unat (frame_size c)) (unat (frame_size c))"
proof -
  have "i * unat (frame_size c) + unat (frame_size c) = Suc i * unat (frame_size c)" by simp
  also have "\<dots> \<le> area_len m" using assms(1,4) by (metis Suc_leI mult_le_mono1)
  finally show ?thesis using assms by (auto simp: placed_def in_area_def)
qed

lemma chunk_disjoint:
  fixes i j sz :: nat
  assumes "i < j"
  shows "i * sz + sz \<le> j * sz"
  using assms by (metis Suc_leI add.commute mult_Suc mult_le_mono1)

end
