(* ===== verification/Socket_Config.thy ===== *)
theory Socket_Config
  imports Util_Pow2 Xdp_Platform Config_Builder
begin

text \<open>
  \<^verbatim>\<open>src/src/socket/config.rs\<close>: the socket configuration, its flags, its checks and its
  builder. The three \<open>bitflags!\<close> types are the words they wrap; \<open>bits()\<close> is the word and
  \<open>empty()\<close> is 0.
\<close>

unbundle bit_operations_syntax

section \<open>Definitions\<close>

type_synonym LibbpfFlags = u32
type_synonym XdpFlags = u32
type_synonym BindFlags = u16

definition XSK_LIBBPF_FLAGS__INHIBIT_PROG_LOAD :: LibbpfFlags where
  "XSK_LIBBPF_FLAGS__INHIBIT_PROG_LOAD = 1"

definition XDP_FLAGS_UPDATE_IF_NOEXIST :: XdpFlags where "XDP_FLAGS_UPDATE_IF_NOEXIST = 1"
definition XDP_FLAGS_SKB_MODE :: XdpFlags where "XDP_FLAGS_SKB_MODE = 2"
definition XDP_FLAGS_DRV_MODE :: XdpFlags where "XDP_FLAGS_DRV_MODE = 4"
definition XDP_FLAGS_HW_MODE :: XdpFlags where "XDP_FLAGS_HW_MODE = 8"
definition XDP_FLAGS_REPLACE :: XdpFlags where "XDP_FLAGS_REPLACE = 16"

definition XDP_SHARED_UMEM :: BindFlags where "XDP_SHARED_UMEM = 1"
definition XDP_COPY :: BindFlags where "XDP_COPY = 2"
definition XDP_ZEROCOPY :: BindFlags where "XDP_ZEROCOPY = 4"
definition XDP_USE_NEED_WAKEUP :: BindFlags where "XDP_USE_NEED_WAKEUP = 8"

datatype SocketConfigError =
    TxSizeInvalid string
  | RxSizeInvalid string

fun SocketConfigError_fmt :: "SocketConfigError \<Rightarrow> string" where
  "SocketConfigError_fmt (TxSizeInvalid reason) = reason"
| "SocketConfigError_fmt (RxSizeInvalid reason) = reason"

record SocketConfig =
  rx_queue_size :: u32
  tx_queue_size :: u32
  libbpf_flags :: LibbpfFlags
  xdp_flags :: XdpFlags
  bind_flags :: BindFlags

definition SocketConfig_new ::
    "u32 \<Rightarrow> u32 \<Rightarrow> LibbpfFlags \<Rightarrow> XdpFlags \<Rightarrow> BindFlags \<Rightarrow> SocketConfigError + SocketConfig" where
  "SocketConfig_new rx tx lf xf bf =
     (if \<not> is_pow_of_two rx then
        Inl (RxSizeInvalid ''rx queue size must be a power of two'')
      else if \<not> is_pow_of_two tx then
        Inl (TxSizeInvalid ''tx queue size must be a power of two'')
      else
        Inr \<lparr>rx_queue_size = rx, tx_queue_size = tx, libbpf_flags = lf, xdp_flags = xf,
             bind_flags = bf\<rparr>)"

definition SocketConfig_default :: "abi_consts \<Rightarrow> SocketConfig" where
  "SocketConfig_default A =
     \<lparr>rx_queue_size = XSK_RING_CONS__DEFAULT_NUM_DESCS A,
      tx_queue_size = XSK_RING_PROD__DEFAULT_NUM_DESCS A,
      libbpf_flags = 0, xdp_flags = 0, bind_flags = 0\<rparr>"

record SocketConfigBuilder =
  sb_rx_queue_size :: u32
  sb_tx_queue_size :: u32
  sb_libbpf_flags :: LibbpfFlags
  sb_xdp_flags :: XdpFlags
  sb_bind_flags :: BindFlags

definition SocketConfigBuilder_default :: "abi_consts \<Rightarrow> SocketConfigBuilder" where
  "SocketConfigBuilder_default A =
     \<lparr>sb_rx_queue_size = XSK_RING_CONS__DEFAULT_NUM_DESCS A,
      sb_tx_queue_size = XSK_RING_PROD__DEFAULT_NUM_DESCS A,
      sb_libbpf_flags = 0, sb_xdp_flags = 0, sb_bind_flags = 0\<rparr>"

definition SocketConfigBuilder_new :: "abi_consts \<Rightarrow> SocketConfigBuilder" where
  "SocketConfigBuilder_new A = SocketConfigBuilder_default A"

definition SocketConfigBuilder_rx_queue_size :: "u32 \<Rightarrow> SocketConfigBuilder \<Rightarrow> SocketConfigBuilder" where
  "SocketConfigBuilder_rx_queue_size v b = b\<lparr>sb_rx_queue_size := v\<rparr>"

definition SocketConfigBuilder_tx_queue_size :: "u32 \<Rightarrow> SocketConfigBuilder \<Rightarrow> SocketConfigBuilder" where
  "SocketConfigBuilder_tx_queue_size v b = b\<lparr>sb_tx_queue_size := v\<rparr>"

definition SocketConfigBuilder_libbpf_flags :: "LibbpfFlags \<Rightarrow> SocketConfigBuilder \<Rightarrow> SocketConfigBuilder" where
  "SocketConfigBuilder_libbpf_flags v b = b\<lparr>sb_libbpf_flags := v\<rparr>"

definition SocketConfigBuilder_xdp_flags :: "XdpFlags \<Rightarrow> SocketConfigBuilder \<Rightarrow> SocketConfigBuilder" where
  "SocketConfigBuilder_xdp_flags v b = b\<lparr>sb_xdp_flags := v\<rparr>"

definition SocketConfigBuilder_bind_flags :: "BindFlags \<Rightarrow> SocketConfigBuilder \<Rightarrow> SocketConfigBuilder" where
  "SocketConfigBuilder_bind_flags v b = b\<lparr>sb_bind_flags := v\<rparr>"

definition SocketConfigBuilder_build :: "SocketConfigBuilder \<Rightarrow> SocketConfigError + SocketConfig" where
  "SocketConfigBuilder_build b =
     SocketConfig_new (sb_rx_queue_size b) (sb_tx_queue_size b) (sb_libbpf_flags b)
       (sb_xdp_flags b) (sb_bind_flags b)"

text \<open>
  For the contract of the builder: what a configuration promises, and the calls of all setters, one
  after the other, with the values of a configuration (an abbreviation of the calls, not a function of
  the crate).
\<close>

definition SocketConfig_valid :: "SocketConfig \<Rightarrow> bool" where
  "SocketConfig_valid c \<longleftrightarrow>
     (\<exists>k. unat (rx_queue_size c) = 2 ^ k) \<and> (\<exists>k. unat (tx_queue_size c) = 2 ^ k)"

definition SocketConfigBuilder_load :: "SocketConfigBuilder \<Rightarrow> SocketConfig \<Rightarrow> SocketConfigBuilder" where
  "SocketConfigBuilder_load b c =
     SocketConfigBuilder_bind_flags (bind_flags c)
       (SocketConfigBuilder_xdp_flags (xdp_flags c)
         (SocketConfigBuilder_libbpf_flags (libbpf_flags c)
           (SocketConfigBuilder_tx_queue_size (tx_queue_size c)
             (SocketConfigBuilder_rx_queue_size (rx_queue_size c) b))))"

section \<open>Lemmas\<close>

lemmas SocketConfigBuilder_setters =
  SocketConfigBuilder_bind_flags_def SocketConfigBuilder_xdp_flags_def
  SocketConfigBuilder_libbpf_flags_def SocketConfigBuilder_tx_queue_size_def
  SocketConfigBuilder_rx_queue_size_def

lemma SocketConfig_new_Inr:
  "SocketConfig_new rx tx lf xf bf = Inr c \<longleftrightarrow>
     SocketConfig_valid c \<and>
     c = \<lparr>rx_queue_size = rx, tx_queue_size = tx, libbpf_flags = lf, xdp_flags = xf,
          bind_flags = bf\<rparr>"
  by (auto simp: SocketConfig_new_def SocketConfig_valid_def is_pow_of_two_unat)

interpretation socket_cfg: config_builder SocketConfigBuilder_build SocketConfigBuilder_load SocketConfig_valid
proof
  fix b b' c
  have eq: "SocketConfigBuilder_build (SocketConfigBuilder_load b c) =
      SocketConfig_new (rx_queue_size c) (tx_queue_size c) (libbpf_flags c) (xdp_flags c)
        (bind_flags c)" for b
    by (simp add: SocketConfigBuilder_build_def SocketConfigBuilder_load_def SocketConfigBuilder_setters)
  show "SocketConfigBuilder_build (SocketConfigBuilder_load b c) = Inr c" if "SocketConfig_valid c"
    using that eq by (simp add: SocketConfig_new_Inr)
  show "\<exists>e. SocketConfigBuilder_build (SocketConfigBuilder_load b c) = Inl e" if "\<not> SocketConfig_valid c"
  proof (cases "SocketConfigBuilder_build (SocketConfigBuilder_load b c)")
    case (Inr d)
    then have "d = c" "SocketConfig_valid d" using eq [of b] by (auto simp: SocketConfig_new_Inr)
    with that show ?thesis by simp
  qed blast
  show "SocketConfigBuilder_load b' c = b" if "SocketConfigBuilder_build b = Inr c"
    using that
    by (auto simp: SocketConfigBuilder_build_def SocketConfig_new_Inr SocketConfigBuilder_load_def
        SocketConfigBuilder_setters)
qed

lemma SocketConfig_valid_lens:
  assumes "SocketConfig_valid c"
  shows "0 < unat (rx_queue_size c)" "0 < unat (tx_queue_size c)"
  using assms by (auto simp: SocketConfig_valid_def)

end
