(* ===== verification/Socket_Queues.thy ===== *)
theory Socket_Queues
  imports Umem_Build Socket_Config
begin

text \<open>
  \<^verbatim>\<open>src/src/socket/socket.rs\<close>: creating the socket, \<open>TxQueue\<close> and \<open>RxQueue\<close>.
\<close>

section \<open>Definitions\<close>

datatype SocketCreateError =
    InvalidIfName nat
  | OsError string io_error

fun SocketCreateError_fmt :: "SocketCreateError \<Rightarrow> string" where
  "SocketCreateError_fmt (InvalidIfName _) = ''interface name contains null bytes''"
| "SocketCreateError_fmt (OsError context _) = ''OS or ffi call failed: '' @ context"

text \<open>The cause of the error: the position of the null byte, or the error of the system.\<close>

fun SocketCreateError_source :: "SocketCreateError \<Rightarrow> (nat + io_error) option" where
  "SocketCreateError_source (InvalidIfName nul_err) = Some (Inl nul_err)"
| "SocketCreateError_source (OsError context io_err) = Some (Inr io_err)"

record Socket =
  sock_inner :: socket_ptr

record TxQueue =
  tq_inner :: ring
  tq_fd :: Fd
  tq_socket :: Socket

record RxQueue =
  rq_inner :: ring
  rq_fd :: Fd
  rq_socket :: Socket

text \<open>\<open>CString::new\<close>: the position of the first null byte is the error.\<close>

definition CString_new :: "string \<Rightarrow> nat + string" where
  "CString_new s =
     (let pre = takeWhile (\<lambda>c. c \<noteq> CHR 0x00) s in
      if length pre < length s then Inl (length pre) else Inr s)"

definition Socket_new ::
    "'k ffi \<Rightarrow> SocketConfig \<Rightarrow> Umem \<Rightarrow> string \<Rightarrow> u32 \<Rightarrow> 'k world \<Rightarrow>
     ((SocketCreateError + TxQueue \<times> RxQueue) \<times> 'k world) outcome" where
  "Socket_new F config umem if_name queue_id w =
     (let cfg = \<lparr>sc_rx_size = rx_queue_size config, sc_tx_size = tx_queue_size config,
                 sc_xdp_flags = xdp_flags config, sc_bind_flags = bind_flags config,
                 sc_libbpf_flags = libbpf_flags config\<rparr>
      in case CString_new if_name of
           Inl e \<Rightarrow> Ret (Inl (InvalidIfName e), w)
         | Inr name \<Rightarrow>
             bindO (Umem_as_mut_ptr umem) (\<lambda>umem_p.
               let ((err, xsk, rx_r, tx_r), w1) = xsk_socket__create F name queue_id umem_p cfg w in
               if err \<noteq> 0 then
                 Ret (Inl (OsError ''failed to create AF_XDP socket via xsk_socket__create()''
                        (OsErrno (libc_errno F w1))), w1)
               else
                 (let fd = xsk_socket__fd F xsk w1 in
                  if fd < 0 then
                    Ret (Inl (OsError ''could not retrieve AF_XDP socket file descriptor via xsk_socket__fd()''
                           (OsErrno err)), xsk_socket__delete F xsk w1)
                  else
                    (let fd = Fd_new (abi F) fd; socket = \<lparr>sock_inner = xsk\<rparr> in
                     Ret (Inr (\<lparr>tq_inner = tx_r, tq_fd = fd, tq_socket = socket\<rparr>,
                               \<lparr>rq_inner = rx_r, rq_fd = fd, rq_socket = socket\<rparr>), w1)))))"

definition Socket_drop :: "'k ffi \<Rightarrow> Socket \<Rightarrow> 'k world \<Rightarrow> 'k world" where
  "Socket_drop F s w = xsk_socket__delete F (sock_inner s) w"

text \<open>
  \<open>for desc in descs.iter_mut().take(cnt) { *desc = *rx_desc(idx); idx += 1; }\<close>; a descriptor is
  stored as the triple of its address, length and options.
\<close>

definition rx_entry :: "xdp_desc \<Rightarrow> usize \<times> usize \<times> u32" where
  "rx_entry d = (xd_addr d, as_usize (xd_len d), xd_options d)"

fun rx_loop ::
    "'k ffi \<Rightarrow> ring \<Rightarrow> 'k world \<Rightarrow> (usize \<times> usize \<times> u32) list \<Rightarrow> u32 \<Rightarrow>
     (usize \<times> usize \<times> u32) list outcome" where
  "rx_loop F r w [] idx = Ret []"
| "rx_loop F r w (d # ds) idx =
     (let d' = rx_entry (xsk_ring_cons__rx_desc F r idx w) in
      bindO (add32 (overflow_checks F) idx 1) (\<lambda>idx'.
        bindO (rx_loop F r w ds idx') (\<lambda>ds'. Ret (d' # ds'))))"

definition RxQueue_consume ::
    "'k ffi \<Rightarrow> RxQueue \<Rightarrow> u64 \<Rightarrow> (usize \<times> usize \<times> u32) list \<Rightarrow> 'k world \<Rightarrow>
     (usize \<times> (usize \<times> usize \<times> u32) list \<times> 'k world) outcome" where
  "RxQueue_consume F q n_recv descs w =
     (if n_recv = 0 then Ret (0, descs, w)
      else
        (let r = rq_inner q; ((cnt, idx), w1) = xsk_ring_cons__peek F r n_recv 0 w in
         if 0 < cnt then
           bindO (rx_loop F r w1 (take cnt descs) idx) (\<lambda>ds.
             Ret (cnt, ds @ drop cnt descs, xsk_ring_cons__release F r cnt w1))
         else Ret (cnt, descs, w1)))"

definition RxQueue_poll_and_consume ::
    "'k ffi \<Rightarrow> RxQueue \<Rightarrow> u64 \<Rightarrow> (usize \<times> usize \<times> u32) list \<Rightarrow> i32 \<Rightarrow> 'k world \<Rightarrow>
     ((io_error + usize) \<times> RxQueue \<times> (usize \<times> usize \<times> u32) list \<times> 'k world) outcome" where
  "RxQueue_poll_and_consume F q n_recv descs poll_timeout w =
     (case poll_read F (rq_fd q) poll_timeout w of
        (Inl e, fd, w1) \<Rightarrow> Ret (Inl e, q\<lparr>rq_fd := fd\<rparr>, descs, w1)
      | (Inr True, fd, w1) \<Rightarrow>
          bindO (RxQueue_consume F (q\<lparr>rq_fd := fd\<rparr>) n_recv descs w1) (\<lambda>(n, descs', w2).
            Ret (Inr n, q\<lparr>rq_fd := fd\<rparr>, descs', w2))
      | (Inr False, fd, w1) \<Rightarrow> Ret (Inr 0, q\<lparr>rq_fd := fd\<rparr>, descs, w1))"

definition tx_entry :: "Frame \<Rightarrow> xdp_desc" where
  "tx_entry f = \<lparr>xd_addr = frame_addr f, xd_len = as_u32 (frame_len f), xd_options = frame_options f\<rparr>"

definition TxQueue_produce ::
    "'k ffi \<Rightarrow> TxQueue \<Rightarrow> Frame list \<Rightarrow> 'k world \<Rightarrow> (usize \<times> 'k world) outcome" where
  "TxQueue_produce F q descs w =
     (let nb = length descs; r = tq_inner q in
      if nb = 0 then Ret (0, w)
      else
        (let ((cnt, idx), w1) = xsk_ring_prod__reserve F r nb 0 w in
         if 0 < cnt then
           bindO (write_slots (overflow_checks F) (xsk_ring_prod__tx_desc F r)
                    (map tx_entry (take cnt descs)) idx w1)
             (\<lambda>w2. Ret (cnt, xsk_ring_prod__submit F r cnt w2))
         else Ret (cnt, w1)))"

definition TxQueue_needs_wakeup :: "'k ffi \<Rightarrow> TxQueue \<Rightarrow> 'k world \<Rightarrow> bool" where
  "TxQueue_needs_wakeup F q w = (xsk_ring_prod__needs_wakeup F (tq_inner q) w \<noteq> 0)"

definition TxQueue_wakeup :: "'k ffi \<Rightarrow> TxQueue \<Rightarrow> 'k world \<Rightarrow> (io_error + unit) \<times> 'k world" where
  "TxQueue_wakeup F q w =
     (let (ret, w') = libc_sendto F (fd_id (tq_fd q)) w; A = abi F; e = libc_errno F w' in
      if ret < 0 then
        (if e = ENOBUFS A \<or> e = EAGAIN A \<or> e = EBUSY A \<or> e = ENETDOWN A then (Inr (), w')
         else (Inl (OsErrno e), w'))
      else (Inr (), w'))"

definition TxQueue_produce_and_wakeup ::
    "'k ffi \<Rightarrow> TxQueue \<Rightarrow> Frame list \<Rightarrow> 'k world \<Rightarrow> ((io_error + usize) \<times> 'k world) outcome" where
  "TxQueue_produce_and_wakeup F q descs w =
     bindO (TxQueue_produce F q descs w) (\<lambda>(cnt, w1).
       if TxQueue_needs_wakeup F q w1 then
         (case TxQueue_wakeup F q w1 of
            (Inl e, w2) \<Rightarrow> Ret (Inl e, w2)
          | (Inr _, w2) \<Rightarrow> Ret (Inr cnt, w2))
       else Ret (Inr cnt, w1))"

text \<open>The contracts of the two rings, and the calls the queues make on them.\<close>

definition tx_contract :: "'k ffi \<Rightarrow> TxQueue \<Rightarrow> ('k, xdp_desc) prod_view \<Rightarrow> bool" where
  "tx_contract F q V \<longleftrightarrow> prod_ring F (tq_inner q) (xsk_ring_prod__tx_desc F (tq_inner q)) V"

definition tx_ops :: "'k ffi \<Rightarrow> TxQueue \<Rightarrow> ('k world \<Rightarrow> 'k world) set" where
  "tx_ops F q = prod_ops F (tq_inner q) (xsk_ring_prod__tx_desc F (tq_inner q))"

definition rx_contract :: "'k ffi \<Rightarrow> RxQueue \<Rightarrow> ('k, xdp_desc) cons_view \<Rightarrow> bool" where
  "rx_contract F q V \<longleftrightarrow> cons_ring F (rq_inner q) (xsk_ring_cons__rx_desc F (rq_inner q)) V"

definition rx_ops :: "'k ffi \<Rightarrow> RxQueue \<Rightarrow> ('k world \<Rightarrow> 'k world) set" where
  "rx_ops F q = cons_ops F (rq_inner q)"

section \<open>The transmit queue submits all of a batch or none of it\<close>

lemma TxQueue_produce_fits:
  assumes con: "tx_contract F q V" and ok: "pv_ok V w" "pv_resv V w = 0"
    and room: "idx_room F (length (pv_subm V w) + length ds)" and fits: "length ds \<le> pv_free V w"
    and keep: "keeps (pv_ok V) I (tx_ops F q)" "I w"
  shows "\<exists>w'. TxQueue_produce F q ds w = Ret (length ds, w') \<and> pv_ok V w' \<and> pv_resv V w' = 0 \<and>
    pv_subm V w' = pv_subm V w @ map tx_entry ds \<and> I w'"
proof (cases "ds = []")
  case True
  with ok keep show ?thesis by (simp add: TxQueue_produce_def)
next
  case False
  obtain cnt i w1 where res: "xsk_ring_prod__reserve F (tq_inner q) (length ds) 0 w = ((cnt, i), w1)"
    by (metis surj_pair)
  obtain w2 where "cnt = length ds"
      "write_slots (overflow_checks F) (xsk_ring_prod__tx_desc F (tq_inner q)) (map tx_entry ds) i w1
       = Ret w2"
      "let w' = xsk_ring_prod__submit F (tq_inner q) cnt w2 in
       pv_ok V w' \<and> pv_resv V w' = 0 \<and> pv_subm V w' = pv_subm V w @ map tx_entry ds \<and> I w'"
    using produce_fits_core [where es = "map tx_entry ds"] con ok keep room fits False res
    unfolding tx_contract_def tx_ops_def by (metis length_map map_is_Nil_conv)
  with False res show ?thesis by (auto simp: TxQueue_produce_def Let_def)
qed

lemma TxQueue_produce_full:
  assumes con: "tx_contract F q V" and ok: "pv_ok V w" "pv_resv V w = 0"
    and full: "pv_free V w < length ds" and keep: "keeps (pv_ok V) I (tx_ops F q)" "I w"
  shows "\<exists>w'. TxQueue_produce F q ds w = Ret (0, w') \<and> pv_ok V w' \<and> pv_resv V w' = 0 \<and>
    pv_subm V w' = pv_subm V w \<and> I w'"
proof -
  obtain cnt i w1 where res: "xsk_ring_prod__reserve F (tq_inner q) (length ds) 0 w = ((cnt, i), w1)"
    by (metis surj_pair)
  note core = reserve_full_core [OF con [unfolded tx_contract_def] ok keep(2) full
      keep(1) [unfolded tx_ops_def] res]
  from full have "ds \<noteq> []" by auto
  with core res show ?thesis by (auto simp: TxQueue_produce_def Let_def)
qed

interpretation txq: batch_producer TxQueue_produce tx_entry tx_contract tx_ops
  by unfold_locales (rule TxQueue_produce_fits TxQueue_produce_full; assumption)+

section \<open>The receive queue hands out received descriptors\<close>

lemma rx_loop_ok:
  assumes "\<And>j. j < length ds \<Longrightarrow>
      xsk_ring_cons__rx_desc F r (word_of_nat (t + k + j)) w = e j"
  shows "idx_room F (t + k + length ds) \<Longrightarrow>
    rx_loop F r w ds (word_of_nat (t + k)) = Ret (map (\<lambda>j. rx_entry (e j)) [0..<length ds])"
  using assms
proof (induction ds arbitrary: k e)
  case Nil
  then show ?case by simp
next
  case (Cons d ds)
  have "idx_room F (t + k + 1)" using Cons.prems(1) by (rule idx_room_mono) simp
  then have add: "add32 (overflow_checks F) (word_of_nat (t + k)) 1 = Ret (word_of_nat (t + Suc k))"
    using add32_index [of F "t + k" 1] by simp
  have "xsk_ring_cons__rx_desc F r (word_of_nat (t + Suc k + j)) w = e (Suc j)"
    if "j < length ds" for j
    using Cons.prems(2) [of "Suc j"] that by (simp del: of_nat_add of_nat_Suc)
  then have "rx_loop F r w ds (word_of_nat (t + Suc k)) =
      Ret (map (\<lambda>j. rx_entry (e (Suc j))) [0..<length ds])"
    using Cons.prems(1) by (intro Cons.IH) (simp_all del: of_nat_add of_nat_Suc)
  moreover have "xsk_ring_cons__rx_desc F r (word_of_nat (t + k)) w = e 0"
    using Cons.prems(2) [of 0] by simp
  moreover have "map (\<lambda>j. rx_entry (e j)) [0..<length (d # ds)] =
      rx_entry (e 0) # map (\<lambda>j. rx_entry (e (Suc j))) [0..<length ds]"
    by (simp add: upt_conv_Cons map_Suc_upt [symmetric] del: upt_Suc)
  ultimately show ?case using add by (simp del: upt_Suc)
qed

lemma RxQueue_consume_gen:
  assumes con: "rx_contract F q V" and ok: "cv_ok V w" "cv_peek V w = 0"
    and m: "m = min n (length (cv_pend V w))"
    and room: "idx_room F (length (cv_taken V w) + m)"
    and keep: "keeps (cv_ok V) I (rx_ops F q)" "I w"
  shows "\<exists>w'. RxQueue_consume F q n buf w =
      Ret (m, map rx_entry (take (min m (length buf)) (cv_pend V w)) @ drop m buf, w') \<and>
    cv_ok V w' \<and> cv_peek V w' = 0 \<and> cv_taken V w' = cv_taken V w @ take m (cv_pend V w) \<and> I w'"
proof (cases "n = 0")
  case True
  with m ok keep show ?thesis by (simp add: RxQueue_consume_def)
next
  case False
  let ?r = "rq_inner q" and ?l = "min m (length buf)"
  obtain cnt i w1 where res: "xsk_ring_cons__peek F ?r n 0 w = ((cnt, i), w1)" by (metis surj_pair)
  note ring = con [unfolded rx_contract_def] and keep' = keep(1) [unfolded rx_ops_def]
  note pk = peek_core [OF ring ok keep(2) keep' res]
  note rl = release_core [OF ring ok keep(2) keep' res refl]
  have "cnt = m" using pk(1) m by simp
  show ?thesis
  proof (cases "0 < cnt")
    case True
    have room': "idx_room F (length (cv_taken V w) + 0 + length (take cnt buf))"
      using room by (rule idx_room_mono) (use \<open>cnt = m\<close> in simp)
    have "rx_loop F ?r w1 (take cnt buf) (word_of_nat (length (cv_taken V w) + 0)) =
        Ret (map (\<lambda>j. rx_entry (cv_pend V w ! j)) [0..<length (take cnt buf)])"
      using room' by (intro rx_loop_ok) (use pk(5) in \<open>auto simp: cv_index_def\<close>)
    moreover have "map (\<lambda>j. rx_entry (cv_pend V w ! j)) [0..<length (take cnt buf)] =
        map rx_entry (take ?l (cv_pend V w))"
      using m \<open>cnt = m\<close> by (auto intro!: nth_equalityI)
    ultimately have "rx_loop F ?r w1 (take cnt buf) i = Ret (map rx_entry (take ?l (cv_pend V w)))"
      using pk(2) True by (simp add: cv_index_def)
    with False True res rl \<open>cnt = m\<close> show ?thesis
      by (auto simp: RxQueue_consume_def Let_def)
  next
    case empty: False
    with False res pk(3,4,6,7) \<open>cnt = m\<close> show ?thesis
      by (auto simp: RxQueue_consume_def Let_def)
  qed
qed

lemma RxQueue_consume_ok:
  assumes "rx_contract F q V" "cv_ok V w" "cv_peek V w = 0"
    and "m = min n (length (cv_pend V w))" "m \<le> length buf"
    and "idx_room F (length (cv_taken V w) + m)" "keeps (cv_ok V) I (rx_ops F q)" "I w"
  shows "\<exists>w'. RxQueue_consume F q n buf w = Ret (m, map rx_entry (take m (cv_pend V w)) @ drop m buf, w') \<and>
    cv_ok V w' \<and> cv_peek V w' = 0 \<and> cv_taken V w' = cv_taken V w @ take m (cv_pend V w) \<and> I w'"
  using RxQueue_consume_gen [OF assms(1-4,6-8), of buf] assms(5) by (simp add: min_absorb1)

interpretation rxq: batch_consumer RxQueue_consume rx_entry rx_contract rx_ops
  by unfold_locales (rule RxQueue_consume_ok; assumption)

end
