(* ===== verification/Xsk_Tx.thy ===== *)
theory Xsk_Tx
  imports Socket_Queues
begin

text \<open>
  \<^verbatim>\<open>src/src/xsk/tx.rs\<close>: the transmit end. The state is the record \<open>XskTx\<close>; every method
  takes the state and the world and returns both updated. The two loops without a bound in the
  source (handing a batch to the transmit ring, draining) take a fuel argument and end in \<open>Spin\<close>
  when it runs out. Log output is left out.
\<close>

section \<open>Data\<close>

record TxStats =
  pkts_tx :: u64
  pkts_tx_completed :: u64
  tx_start_time :: nat
  tx_end_time :: nat

definition TxStats_new :: "'k ffi \<Rightarrow> 'k world \<Rightarrow> TxStats" where
  "TxStats_new F w =
     \<lparr>pkts_tx = 0, pkts_tx_completed = 0, tx_start_time = instant_now F w,
      tx_end_time = instant_now F w\<rparr>"

definition TxStats_duration :: "TxStats \<Rightarrow> nat" where
  "TxStats_duration st = tx_end_time st - tx_start_time st"

datatype XskSendError = NoFreeTxFrames

fun XskSendError_fmt :: "XskSendError \<Rightarrow> string" where
  "XskSendError_fmt NoFreeTxFrames = ''there are no free tx frames, try again later''"

record XskTx =
  tx_q :: TxQueue
  comp_q :: CompQueue
  tx_frames :: "Frame list"
  free_frames :: "u64 list"
  outstanding_tx_frames :: u64
  tx_poll_ms_timeout :: i32
  tx_cursor :: usize
  tx_frame_size :: u32
  tx_stats :: TxStats
  batch_size :: usize
  cur_batch_size :: usize

section \<open>Operations\<close>

definition XskTx_new ::
    "'k ffi \<Rightarrow> TxQueue \<Rightarrow> CompQueue \<Rightarrow> Frame list \<Rightarrow> u32 \<Rightarrow> usize \<Rightarrow> 'k world \<Rightarrow> XskTx" where
  "XskTx_new F txq cq frames frame_sz batch w =
     \<lparr>tx_q = txq, comp_q = cq, tx_frames = frames, free_frames = replicate (length frames) 0,
      outstanding_tx_frames = 0, tx_poll_ms_timeout = -1, tx_cursor = 0, tx_frame_size = frame_sz,
      tx_stats = TxStats_new F w, batch_size = batch, cur_batch_size = 0\<rparr>"

fun prefill_loop :: "u8 list \<Rightarrow> Frame list \<Rightarrow> 'k world \<Rightarrow> (Frame list \<times> 'k world) outcome" where
  "prefill_loop data [] w = Ret ([], w)"
| "prefill_loop data (f # fs) w =
     bindO (write_to_umem_checked f data w) (\<lambda>(r, f', w1).
       bindO (expectR ''failed to write to umem'' r) (\<lambda>_.
         bindO (prefill_loop data fs w1) (\<lambda>(fs', w2). Ret (f' # fs', w2))))"

definition prefill :: "XskTx \<Rightarrow> u8 list \<Rightarrow> 'k world \<Rightarrow> (XskTx \<times> 'k world) outcome" where
  "prefill s data w =
     bindO (prefill_loop data (tx_frames s) w) (\<lambda>(fs, w'). Ret (s\<lparr>tx_frames := fs\<rparr>, w'))"

text \<open>\<open>update_tx_frames\<close>: the completed addresses, truncated to \<open>u32\<close>, give frame indices.\<close>

fun free_loop :: "u32 \<Rightarrow> u64 list \<Rightarrow> Frame list \<Rightarrow> Frame list outcome" where
  "free_loop frame_sz [] frames = Ret frames"
| "free_loop frame_sz (a # as) frames =
     bindO (div32 (as_u32 a) frame_sz) (\<lambda>i.
       bindO (nthO frames (as_usize i)) (\<lambda>f.
         free_loop frame_sz as (frames[as_usize i := f\<lparr>frame_status := Free\<rparr>])))"

definition update_tx_frames :: "XskTx \<Rightarrow> usize \<Rightarrow> XskTx outcome" where
  "update_tx_frames s n_free_frames =
     bindO (sliceO (free_frames s) 0 n_free_frames) (\<lambda>as.
       bindO (free_loop (tx_frame_size s) as (tx_frames s)) (\<lambda>frames.
         Ret (s\<lparr>tx_frames := frames\<rparr>)))"

definition complete_frames :: "'k ffi \<Rightarrow> XskTx \<Rightarrow> 'k world \<Rightarrow> (u64 \<times> XskTx \<times> 'k world) outcome" where
  "complete_frames F s w =
     bindO (CompQueue_consume F (comp_q s) (outstanding_tx_frames s) (free_frames s) w)
       (\<lambda>(n, ff, w1).
         bindO (sub64 (overflow_checks F) (outstanding_tx_frames s) n) (\<lambda>left.
           bindO (add64 (overflow_checks F) (pkts_tx_completed (tx_stats s)) n) (\<lambda>compl.
             bindO (update_tx_frames
                      (s\<lparr>free_frames := ff, outstanding_tx_frames := left,
                         tx_stats := (tx_stats s)\<lparr>pkts_tx_completed := compl\<rparr>\<rparr>) n)
               (\<lambda>s'. Ret (n, s', w1)))))"

text \<open>\<open>while tx_q.produce_and_wakeup(batch) != cur_batch_size {}\<close>\<close>

fun tx_submit_loop ::
    "'k ffi \<Rightarrow> nat \<Rightarrow> TxQueue \<Rightarrow> Frame list \<Rightarrow> usize \<Rightarrow> 'k world \<Rightarrow> 'k world outcome" where
  "tx_submit_loop F 0 q batch n w = Spin"
| "tx_submit_loop F (Suc fuel) q batch n w =
     bindO (TxQueue_produce_and_wakeup F q batch w) (\<lambda>(r, w1).
       bindO (expectR ''failed to add frames to tx queue'' r) (\<lambda>cnt.
         if cnt = n then Ret w1 else tx_submit_loop F fuel q batch n w1))"

definition batch_range :: "bool \<Rightarrow> XskTx \<Rightarrow> (usize \<times> usize) outcome" where
  "batch_range chk s =
     (if tx_cursor s = 0 then
        bindO (sub64 chk (length (tx_frames s)) (cur_batch_size s))
          (\<lambda>start. Ret (start, length (tx_frames s)))
      else
        bindO (sub64 chk (tx_cursor s) (cur_batch_size s)) (\<lambda>start. Ret (start, tx_cursor s)))"

definition put_batch_on_tx_queue ::
    "'k ffi \<Rightarrow> nat \<Rightarrow> XskTx \<Rightarrow> 'k world \<Rightarrow> (XskTx \<times> 'k world) outcome" where
  "put_batch_on_tx_queue F fuel s w =
     (let chk = overflow_checks F; cur = cur_batch_size s in
      if cur = 0 then Ret (s, w)
      else
        bindO (batch_range chk s) (\<lambda>(start, stop).
          bindO (sliceO (tx_frames s) start stop) (\<lambda>_.
            let frames = map_range (frame_status_update (\<lambda>_. OnTxQueue)) start stop (tx_frames s) in
            bindO (sliceO frames start stop) (\<lambda>batch.
              bindO (tx_submit_loop F fuel (tx_q s) batch cur w) (\<lambda>w1.
                bindO (add64 chk (pkts_tx (tx_stats s)) cur) (\<lambda>sent.
                  bindO (add64 chk (outstanding_tx_frames s) cur) (\<lambda>outst.
                    Ret (s\<lparr>tx_frames := frames, outstanding_tx_frames := outst,
                           tx_stats := (tx_stats s)\<lparr>pkts_tx := sent\<rparr>, cur_batch_size := 0\<rparr>, w1))))))))"

text \<open>What \<open>send\<close> and \<open>send_apply\<close> do once the frame is written.\<close>

definition advance ::
    "'k ffi \<Rightarrow> nat \<Rightarrow> XskTx \<Rightarrow> 'k world \<Rightarrow> ((XskSendError + unit) \<times> XskTx \<times> 'k world) outcome" where
  "advance F fuel s w =
     (let chk = overflow_checks F in
      bindO (add64 chk (tx_cursor s) 1) (\<lambda>c.
        bindO (rem64 c (length (tx_frames s))) (\<lambda>cursor.
          bindO (add64 chk (cur_batch_size s) 1) (\<lambda>cur.
            let s1 = s\<lparr>tx_cursor := cursor, cur_batch_size := cur\<rparr> in
            if cur = batch_size s1 then
              bindO (put_batch_on_tx_queue F fuel s1 w) (\<lambda>(s2, w2). Ret (Inr (), s2, w2))
            else Ret (Inr (), s1, w)))))"

definition send ::
    "'k ffi \<Rightarrow> nat \<Rightarrow> XskTx \<Rightarrow> u8 list \<Rightarrow> 'k world \<Rightarrow>
     ((XskSendError + unit) \<times> XskTx \<times> 'k world) outcome" where
  "send F fuel s data w =
     bindO (complete_frames F s w) (\<lambda>(_, s1, w1).
       bindO (nthO (tx_frames s1) (tx_cursor s1)) (\<lambda>f.
         if \<not> is_free (frame_status f) then Ret (Inl NoFreeTxFrames, s1, w1)
         else
           bindO (write_to_umem_checked f data w1) (\<lambda>(r, f', w2).
             bindO (expectR ''failed to write to umem'' r) (\<lambda>_.
               advance F fuel (s1\<lparr>tx_frames := (tx_frames s1)[tx_cursor s1 := f']\<rparr>) w2))))"

text \<open>
  The closure of \<open>send_apply\<close> is lent the frame's bytes; it returns a length and the new bytes by
  position, and threads its captured state \<open>'c\<close>.
\<close>

definition send_apply ::
    "'k ffi \<Rightarrow> nat \<Rightarrow> XskTx \<Rightarrow> ('c \<Rightarrow> u8 list \<Rightarrow> (usize \<times> (nat \<Rightarrow> u8) \<times> 'c) outcome) \<Rightarrow> 'c \<Rightarrow> 'k world \<Rightarrow>
     ((XskSendError + unit) \<times> XskTx \<times> 'c \<times> 'k world) outcome" where
  "send_apply F fuel s f c w =
     bindO (complete_frames F s w) (\<lambda>(_, s1, w1).
       bindO (nthO (tx_frames s1) (tx_cursor s1)) (\<lambda>fr.
         if \<not> is_free (frame_status fr) then Ret (Inl NoFreeTxFrames, s1, c, w1)
         else
           bindO (umem_region_mut fr (as_usize (tx_frame_size s1)) w1) (\<lambda>region.
             bindO (f c region) (\<lambda>(len, bytes, c').
               let w2 = region_store (frame_mmap fr) (frame_addr fr) (map bytes [0..<length region]) w1
               in bindO (advance F fuel
                           (s1\<lparr>tx_frames := (tx_frames s1)[tx_cursor s1 := set_len len fr]\<rparr>) w2)
                    (\<lambda>(r, s2, w3). Ret (r, s2, c', w3))))))"

text \<open>\<open>drain\<close> and the body of its loop.\<close>

definition drain_body :: "'k ffi \<Rightarrow> nat \<Rightarrow> XskTx \<Rightarrow> 'k world \<Rightarrow> (XskTx \<times> 'k world) outcome" where
  "drain_body F fuel s w =
     bindO (complete_frames F s w) (\<lambda>(_, s1, w1). put_batch_on_tx_queue F fuel s1 w1)"

fun drain :: "'k ffi \<Rightarrow> nat \<Rightarrow> XskTx \<Rightarrow> 'k world \<Rightarrow> (XskTx \<times> 'k world) outcome" where
  "drain F 0 s w = Spin"
| "drain F (Suc fuel) s w =
     bindO (drain_body F (Suc fuel) s w) (\<lambda>(s1, w1).
       if outstanding_tx_frames s1 = 0 then Ret (s1, w1) else drain F fuel s1 w1)"

definition XskTx_stats :: "'k ffi \<Rightarrow> XskTx \<Rightarrow> 'k world \<Rightarrow> TxStats" where
  "XskTx_stats F s w = (tx_stats s)\<lparr>tx_end_time := instant_now F w\<rparr>"

end
