(* ===== verification/Xsk_Tx_Inv.thy ===== *)
theory Xsk_Tx_Inv
  imports Xsk_Tx
begin

text \<open>
  The transmit end is correct: what the platform promises for its two rings, the invariant of
  \<open>XskTx\<close> with the kernel, and that every operation keeps it. The invariant says that a frame
  is marked \<open>OnTxQueue\<close> exactly while the kernel holds its address.
\<close>

section \<open>Definitions\<close>

definition same_on :: "nat set \<Rightarrow> 'k world \<Rightarrow> 'k world \<Rightarrow> bool" where
  "same_on K w w' \<longleftrightarrow> (\<forall>a \<in> K. mem w' a = mem w a)"

definition tx_same ::
    "('k, xdp_desc) prod_view \<Rightarrow> nat set \<Rightarrow> 'k world \<Rightarrow> 'k world \<Rightarrow> bool" where
  "tx_same T K w w' \<longleftrightarrow>
     pv_subm T w' = pv_subm T w \<and> pv_resv T w' = pv_resv T w \<and> same_on K w w'"

definition comp_same ::
    "('k, u64) cons_view \<Rightarrow> nat set \<Rightarrow> 'k world \<Rightarrow> 'k world \<Rightarrow> bool" where
  "comp_same C K w w' \<longleftrightarrow>
     cv_taken C w' = cv_taken C w \<and> cv_peek C w' = cv_peek C w \<and> same_on K w w'"

text \<open>
  The documented behaviour of the transmit pair: each ring obeys its contract and neither disturbs
  the other; the kernel never writes to the memory \<open>K\<close> of the frames used for sending; the
  completion ring only returns addresses that were submitted, each as often as it was submitted;
  a wake-up submits and takes nothing and fails only in the ways the kernel documents as
  transient; the rings are not part of the UMEM.
\<close>

definition wakeup_law ::
    "'k ffi \<Rightarrow> TxQueue \<Rightarrow> ('k, xdp_desc) prod_view \<Rightarrow> ('k, u64) cons_view \<Rightarrow> nat set \<Rightarrow> bool" where
  "wakeup_law F tq T C K \<longleftrightarrow>
     (\<forall>w r w'. pv_ok T w \<longrightarrow> libc_sendto F (fd_id (tq_fd tq)) w = (r, w') \<longrightarrow>
        pv_ok T w' \<and> tx_same T K w w' \<and> comp_same C K w w' \<and>
        (0 \<le> r \<or> libc_errno F w' \<in>
           {ENOBUFS (abi F), EAGAIN (abi F), EBUSY (abi F), ENETDOWN (abi F)}))"

definition completion_law :: "('k, xdp_desc) prod_view \<Rightarrow> ('k, u64) cons_view \<Rightarrow> bool" where
  "completion_law T C \<longleftrightarrow>
     (\<forall>w. pv_ok T w \<longrightarrow>
        mset (cv_taken C w) + mset (cv_pend C w) \<subseteq># image_mset xd_addr (mset (pv_subm T w)))"

definition outside_umem :: "('k, xdp_desc) prod_view \<Rightarrow> ('k, u64) cons_view \<Rightarrow> bool" where
  "outside_umem T C \<longleftrightarrow>
     (\<forall>w w'. kern w = kern w' \<longrightarrow>
        pv_ok T w = pv_ok T w' \<and> pv_subm T w = pv_subm T w' \<and> pv_resv T w = pv_resv T w' \<and>
        pv_free T w = pv_free T w' \<and> cv_taken C w = cv_taken C w' \<and> cv_peek C w = cv_peek C w')"

definition tx_platform ::
    "'k ffi \<Rightarrow> TxQueue \<Rightarrow> CompQueue \<Rightarrow> ('k, xdp_desc) prod_view \<Rightarrow> ('k, u64) cons_view \<Rightarrow> nat set \<Rightarrow> bool" where
  "tx_platform F tq cq T C K \<longleftrightarrow>
     tx_contract F tq T \<and> comp_contract F cq C \<and> cv_ok C = pv_ok T \<and>
     (\<forall>w. keeps (pv_ok T) (comp_same C K w) (tx_ops F tq)) \<and>
     (\<forall>w. keeps (pv_ok T) (tx_same T K w) (comp_ops F cq)) \<and>
     wakeup_law F tq T C K \<and> completion_law T C \<and> outside_umem T C"

text \<open>The frames the kernel holds for sending, and those written but not yet submitted.\<close>

definition onq :: "Frame list \<Rightarrow> nat set" where
  "onq frames = {i. i < length frames \<and> frame_status (frames ! i) = OnTxQueue}"

definition tx_frame_ok :: "MmapArea \<Rightarrow> nat \<Rightarrow> nat \<Rightarrow> Frame \<Rightarrow> bool" where
  "tx_frame_ok m sz i f \<longleftrightarrow>
     placed f (i * sz) sz \<and> frame_mmap f = m \<and> frame_len f \<le> sz \<and>
     frame_status f \<in> {Free, OnTxQueue}"

definition tx_frames_inv :: "MmapArea \<Rightarrow> nat \<Rightarrow> Frame list \<Rightarrow> bool" where
  "tx_frames_inv m sz frames \<longleftrightarrow>
     0 < sz \<and> length frames * sz \<le> 2 ^ 32 \<and>
     (\<forall>i < length frames. tx_frame_ok m sz i (frames ! i))"

text \<open>
  \<open>tx_core\<close> holds even in the middle of an operation; \<open>tx_inv\<close> is the invariant between
  operations: the written frames of the current batch end at the cursor, and the batch does not
  wrap around the end of the frame list.
\<close>

definition tx_core :: "MmapArea \<Rightarrow> XskTx \<Rightarrow> bool" where
  "tx_core m s \<longleftrightarrow>
     tx_frames_inv m (unat (tx_frame_size s)) (tx_frames s) \<and>
     length (free_frames s) = length (tx_frames s) \<and>
     outstanding_tx_frames s = card (onq (tx_frames s))"

definition tx_inv :: "MmapArea \<Rightarrow> XskTx \<Rightarrow> bool" where
  "tx_inv m s \<longleftrightarrow>
     tx_core m s \<and> tx_cursor s < length (tx_frames s) \<and>
     0 < batch_size s \<and> batch_size s dvd length (tx_frames s) \<and>
     cur_batch_size s = tx_cursor s mod batch_size s \<and>
     {tx_cursor s - cur_batch_size s..<tx_cursor s} \<inter> onq (tx_frames s) = {}"

definition tx_linked ::
    "('k, xdp_desc) prod_view \<Rightarrow> ('k, u64) cons_view \<Rightarrow> XskTx \<Rightarrow> 'k world \<Rightarrow> bool" where
  "tx_linked T C s w \<longleftrightarrow>
     pv_ok T w \<and> pv_resv T w = 0 \<and> cv_peek C w = 0 \<and>
     pkts_tx (tx_stats s) = length (pv_subm T w) \<and>
     pkts_tx_completed (tx_stats s) = length (cv_taken C w) \<and>
     image_mset xd_addr (mset (pv_subm T w)) =
       mset (cv_taken C w) +
       image_mset (\<lambda>i. i * unat (tx_frame_size s)) (mset_set (onq (tx_frames s)))"

definition tx_bytes :: "MmapArea \<Rightarrow> XskTx \<Rightarrow> nat set" where
  "tx_bytes m s =
     {mem_ptr m..<mem_ptr m + length (tx_frames s) * unat (tx_frame_size s)}"

text \<open>The packets waiting in the current batch.\<close>

definition batch_data :: "XskTx \<Rightarrow> 'k world \<Rightarrow> u8 list list" where
  "batch_data s w =
     map (\<lambda>i. frame_data w (tx_frames s ! i)) [tx_cursor s - cur_batch_size s..<tx_cursor s]"

text \<open>The frame list after completions, and the whole effect of \<open>complete_frames\<close>.\<close>

definition mark_free :: "nat list \<Rightarrow> Frame list \<Rightarrow> Frame list" where
  "mark_free ixs frames =
     map (\<lambda>i. if i \<in> set ixs then (frames ! i)\<lparr>frame_status := Free\<rparr> else frames ! i)
       [0..<length frames]"

definition completed :: "nat list \<Rightarrow> u64 list \<Rightarrow> XskTx \<Rightarrow> XskTx" where
  "completed ixs ff s =
     s\<lparr>tx_frames := mark_free ixs (tx_frames s), free_frames := ff,
       outstanding_tx_frames := outstanding_tx_frames s - length ixs,
       tx_stats := (tx_stats s)\<lparr>pkts_tx_completed := pkts_tx_completed (tx_stats s) + length ixs\<rparr>\<rparr>"

definition completes ::
    "('k, xdp_desc) prod_view \<Rightarrow> ('k, u64) cons_view \<Rightarrow> nat set \<Rightarrow> nat list \<Rightarrow> XskTx \<Rightarrow>
     'k world \<Rightarrow> 'k world \<Rightarrow> bool" where
  "completes T C K ixs s w w' \<longleftrightarrow>
     distinct ixs \<and> set ixs \<subseteq> onq (tx_frames s) \<and>
     cv_pend C w = map (\<lambda>i. i * unat (tx_frame_size s)) ixs \<and>
     tx_same T K w w' \<and> cv_taken C w' = cv_taken C w @ cv_pend C w \<and> cv_peek C w' = 0 \<and> pv_ok T w'"

section \<open>Multisets of addresses\<close>

lemma addrs_of_indices:
  fixes sz :: nat
  assumes sub: "mset as \<subseteq># image_mset (\<lambda>i. i * sz) (mset_set S)" and fin: "finite S" and sz: "0 < sz"
  obtains "ixs" where "as = map (\<lambda>i. i * sz) ixs" "distinct ixs" "set ixs \<subseteq> S"
proof -
  let ?f = "\<lambda>i. i * sz"
  have inj: "inj_on ?f S" using sz by (auto simp: inj_on_def)
  then have "mset as \<subseteq># mset_set (?f ` S)" using sub by (simp add: image_mset_mset_set)
  note A = mset_subset_mset_set [OF this finite_imageI [OF fin]]
  define "ixs" where "ixs = map (\<lambda>a. a div sz) as"
  have as: "as = map ?f ixs"
  proof -
    have "a = a div sz * sz" if "a \<in> set as" for a
      using that A(2) sz by auto
    then show ?thesis by (simp add: ixs_def map_idI)
  qed
  moreover have "distinct ixs" using A(1) as by (simp add: distinct_map)
  moreover have "set ixs \<subseteq> S"
  proof
    fix i assume "i \<in> set ixs"
    then obtain a where "a \<in> set as" "i = a div sz" by (auto simp: ixs_def)
    with A(2) sz show "i \<in> S" by auto
  qed
  ultimately show ?thesis using that by blast
qed

section \<open>Marking frames\<close>

lemma finite_onq [simp]: "finite (onq frames)"
  by (simp add: onq_def)

lemma onq_less: "i \<in> onq frames \<Longrightarrow> i < length frames"
  by (simp add: onq_def)

lemma length_mark_free [simp]: "length (mark_free ixs frames) = length frames"
  by (simp add: mark_free_def)

lemma nth_mark_free:
  "i < length frames \<Longrightarrow>
   mark_free ixs frames ! i = (if i \<in> set ixs then (frames ! i)\<lparr>frame_status := Free\<rparr> else frames ! i)"
  by (simp add: mark_free_def)

lemma mark_free_Nil [simp]: "mark_free [] frames = frames"
  by (simp add: mark_free_def map_nth)

lemma mark_free_Cons:
  "i < length frames \<Longrightarrow>
   mark_free ixs (frames[i := (frames ! i)\<lparr>frame_status := Free\<rparr>]) = mark_free (i # ixs) frames"
  by (rule nth_equalityI) (auto simp: nth_mark_free nth_list_update)

lemma onq_mark_free: "onq (mark_free ixs frames) = onq frames - set ixs"
  by (auto simp: onq_def nth_mark_free split: if_splits)

lemma tx_frame_ok_update [simp]:
  "tx_frame_ok m sz i f \<Longrightarrow> tx_frame_ok m sz i (f\<lparr>frame_status := Free\<rparr>)"
  "tx_frame_ok m sz i f \<Longrightarrow> tx_frame_ok m sz i (f\<lparr>frame_status := OnTxQueue\<rparr>)"
  "tx_frame_ok m sz i f \<Longrightarrow> n \<le> sz \<Longrightarrow> tx_frame_ok m sz i (set_len n f)"
  by (auto simp: tx_frame_ok_def placed_def set_len_def)

lemma tx_frames_inv_mark_free:
  "tx_frames_inv m sz frames \<Longrightarrow> tx_frames_inv m sz (mark_free ixs frames)"
  by (auto simp: tx_frames_inv_def nth_mark_free)

lemma onq_map_range:
  assumes "a \<le> b" "b \<le> length frames"
  shows "onq (map_range (frame_status_update (\<lambda>_. OnTxQueue)) a b frames) = onq frames \<union> {a..<b}"
  using assms by (auto simp: onq_def nth_map_range split: if_splits)

lemma tx_frames_inv_map_range:
  assumes "tx_frames_inv m sz frames" "a \<le> b" "b \<le> length frames"
  shows "tx_frames_inv m sz (map_range (frame_status_update (\<lambda>_. OnTxQueue)) a b frames)"
  using assms by (simp add: tx_frames_inv_def nth_map_range)

lemma tx_frames_inv_update:
  assumes "tx_frames_inv m sz frames" "i < length frames" "n \<le> sz"
  shows "tx_frames_inv m sz (frames[i := set_len n (frames ! i)])"
  using assms by (simp add: tx_frames_inv_def nth_list_update)

lemma onq_update_len: "onq (frames[i := set_len n (frames ! i)]) = onq frames"
  by (cases "i < length frames") (auto simp: onq_def nth_list_update set_len_def list_update_beyond)

section \<open>Completed addresses free their frames\<close>

lemma frame_index:
  assumes "i < n" "n * sz \<le> 2 ^ 32" "sz = unat (fs :: u32)" "0 < sz"
  shows "div32 (as_u32 (i * sz)) fs = Ret (as_u32 i)" "as_usize (as_u32 i) = i"
proof -
  have i: "i < 2 ^ 32" "i * sz < 2 ^ 32"
  proof -
    have "i * sz < n * sz" using assms(1,4) by simp
    then show *: "i * sz < 2 ^ 32" using assms(2) by linarith
    have "i \<le> i * sz" using assms(4) by simp
    then show "i < 2 ^ 32" using * by linarith
  qed
  then have "unat (as_u32 (i * sz) div fs) = i"
    using assms(3,4) by (simp add: unat_div)
  then have "as_u32 (i * sz) div fs = as_u32 i"
    using i(1) by (metis as_u32_small word_unat_eq_iff)
  then show "div32 (as_u32 (i * sz)) fs = Ret (as_u32 i)"
    using assms(3,4) by (auto simp: div32_def)
  show "as_usize (as_u32 i) = i" using i(1) by (simp add: as_usize_def)
qed

lemma free_loop_ok:
  assumes "length frames * sz \<le> 2 ^ 32" "sz = unat fs" "0 < sz"
  shows "set ixs \<subseteq> {..<length frames} \<Longrightarrow>
    free_loop fs (map (\<lambda>i. i * sz) ixs) frames = Ret (mark_free ixs frames)"
  using assms(1)
proof (induction "ixs" arbitrary: frames)
  case Nil
  then show ?case by simp
next
  case (Cons i "ixs")
  then have i: "i < length frames" by simp
  let ?frames = "frames[i := (frames ! i)\<lparr>frame_status := Free\<rparr>]"
  have "free_loop fs (map (\<lambda>i. i * sz) ixs) ?frames = Ret (mark_free ixs ?frames)"
    using Cons by (intro Cons.IH) auto
  then show ?case
    using frame_index [OF i Cons.prems(2) assms(2,3)] i mark_free_Cons [OF i, of "ixs"] by simp
qed

end
