(* ===== verification/Xsk_Tx_Ops.thy ===== *)
theory Xsk_Tx_Ops
  imports Xsk_Tx_Inv
begin

text \<open>
  The steps the public operations of \<open>XskTx\<close> are made of: collecting completions and handing a
  batch to the transmit ring.
\<close>

section \<open>Definitions\<close>

text \<open>
  One more turn of the loop of \<open>put_batch_on_tx_queue\<close>, and the documented progress of the
  kernel: within \<open>fuel\<close> attempts to submit at most \<open>n\<close> frames the ring has room for them.
\<close>

definition tx_retry :: "'k ffi \<Rightarrow> TxQueue \<Rightarrow> Frame list \<Rightarrow> 'k world \<Rightarrow> 'k world" where
  "tx_retry F q batch w =
     (case TxQueue_produce_and_wakeup F q batch w of Ret (_, w') \<Rightarrow> w' | _ \<Rightarrow> w)"

definition tx_progress ::
    "'k ffi \<Rightarrow> TxQueue \<Rightarrow> ('k, xdp_desc) prod_view \<Rightarrow> nat \<Rightarrow> nat \<Rightarrow> bool" where
  "tx_progress F q T n fuel \<longleftrightarrow>
     (\<forall>w batch. pv_ok T w \<longrightarrow> pv_resv T w = 0 \<longrightarrow> length batch \<le> n \<longrightarrow>
        (\<exists>j < fuel. length batch \<le> pv_free T ((tx_retry F q batch ^^ j) w)))"

text \<open>The frames of the current batch, and the state once they are handed over.\<close>

definition batch_end :: "XskTx \<Rightarrow> nat" where
  "batch_end s = (if tx_cursor s = 0 then length (tx_frames s) else tx_cursor s)"

definition handed_over :: "XskTx \<Rightarrow> XskTx" where
  "handed_over s =
     s\<lparr>tx_frames := map_range (frame_status_update (\<lambda>_. OnTxQueue))
                     (batch_end s - cur_batch_size s) (batch_end s) (tx_frames s),
       outstanding_tx_frames := outstanding_tx_frames s + cur_batch_size s,
       tx_stats := (tx_stats s)\<lparr>pkts_tx := pkts_tx (tx_stats s) + cur_batch_size s\<rparr>,
       cur_batch_size := 0\<rparr>"

definition batch_ready :: "XskTx \<Rightarrow> bool" where
  "batch_ready s \<longleftrightarrow>
     0 < cur_batch_size s \<and> cur_batch_size s \<le> batch_end s \<and> batch_end s \<le> length (tx_frames s) \<and>
     {batch_end s - cur_batch_size s..<batch_end s} \<inter> onq (tx_frames s) = {}"

section \<open>Collecting completions\<close>

lemma tx_core_bounds:
  assumes "tx_core m s"
  shows "outstanding_tx_frames s \<le> length (tx_frames s)" "length (tx_frames s) \<le> 2 ^ 32"
proof -
  have "card (onq (tx_frames s)) \<le> card {..<length (tx_frames s)}"
    by (rule card_mono) (auto dest: onq_less)
  then show "outstanding_tx_frames s \<le> length (tx_frames s)"
    using assms by (simp add: tx_core_def)
  have "length (tx_frames s) * 1 \<le> length (tx_frames s) * unat (tx_frame_size s)"
    using assms unfolding tx_core_def tx_frames_inv_def by (intro mult_le_mono2) simp
  also have "\<dots> \<le> 2 ^ 32" using assms by (simp add: tx_core_def tx_frames_inv_def)
  finally show "length (tx_frames s) \<le> 2 ^ 32" by simp
qed

lemma tx_platformD:
  assumes "tx_platform F tq cq T C K"
  shows "tx_contract F tq T" "comp_contract F cq C" "cv_ok C = pv_ok T"
    "keeps (pv_ok T) (comp_same C K w) (tx_ops F tq)"
    "keeps (pv_ok T) (tx_same T K w) (comp_ops F cq)"
    "wakeup_law F tq T C K" "completion_law T C" "outside_umem T C"
  using assms by (simp_all add: tx_platform_def)

lemma same_refl [simp]: "same_on K w w" "tx_same T K w w" "comp_same C K w w \<longleftrightarrow> True"
  by (simp_all add: same_on_def tx_same_def comp_same_def)

lemma pending_completions:
  assumes law: "completion_law T C" and link: "tx_linked T C s w" and size: "0 < unat (tx_frame_size s)"
  obtains "ixs" where "cv_pend C w = map (\<lambda>i. i * unat (tx_frame_size s)) ixs" "distinct ixs"
    "set ixs \<subseteq> onq (tx_frames s)"
proof -
  have "mset (cv_taken C w) + mset (cv_pend C w) \<subseteq># image_mset xd_addr (mset (pv_subm T w))"
    using law link unfolding completion_law_def tx_linked_def by blast
  then have "mset (cv_pend C w) \<subseteq># image_mset (\<lambda>i. i * unat (tx_frame_size s)) (mset_set (onq (tx_frames s)))"
    using link by (simp add: tx_linked_def)
  then show ?thesis using addrs_of_indices size that by (metis finite_onq)
qed

lemma complete_frames_ok:
  assumes plat: "tx_platform F (tx_q s) (comp_q s) T C K" and core: "tx_core m s"
    and link: "tx_linked T C s w"
    and room: "idx_room F (length (cv_taken C w) + outstanding_tx_frames s)"
    and stat: "pkts_tx_completed (tx_stats s) + outstanding_tx_frames s < 2 ^ 64"
  shows "\<exists>ixs ff w'. complete_frames F s w = Ret (length ixs, completed ixs ff s, w') \<and>
    length ff = length (free_frames s) \<and> completes T C K ixs s w w'"
proof -
  note P = tx_platformD [OF plat]
  let ?sz = "unat (tx_frame_size s)" and ?n = "outstanding_tx_frames s"
  have fr: "0 < ?sz" "length (tx_frames s) * ?sz \<le> 2 ^ 32"
    using core by (auto simp: tx_core_def tx_frames_inv_def)
  obtain "ixs" where ixs: "cv_pend C w = map (\<lambda>i. i * ?sz) ixs" "distinct ixs" "set ixs \<subseteq> onq (tx_frames s)"
    using pending_completions [OF P(7) link fr(1)] .
  have len: "length ixs \<le> ?n" "?n \<le> length (free_frames s)"
  proof -
    show "length ixs \<le> ?n"
      using card_mono [OF finite_onq ixs(3)] core ixs(2) by (simp add: tx_core_def distinct_card)
    show "?n \<le> length (free_frames s)"
      using tx_core_bounds(1) [OF core] core by (simp add: tx_core_def)
  qed
  then have m: "length ixs = min ?n (length (cv_pend C w))" using ixs(1) by simp
  have room': "idx_room F (length (cv_taken C w) + length ixs)"
    using room by (rule idx_room_mono) (use len in simp)
  have ok: "cv_ok C w" "cv_peek C w = 0" using link P(3) by (simp_all add: tx_linked_def)
  obtain w' where w': "CompQueue_consume F (comp_q s) ?n (free_frames s) w =
      Ret (length ixs, map (\<lambda>i. i * ?sz) ixs @ drop (length ixs) (free_frames s), w')"
    "cv_ok C w'" "cv_peek C w' = 0" "cv_taken C w' = cv_taken C w @ cv_pend C w" "tx_same T K w w'"
    using compq.consume_ok [OF P(2) ok m _ room', of "free_frames s" "tx_same T K w"] P(3,5) len ixs(1)
    by auto
  have "set ixs \<subseteq> {..<length (tx_frames s)}" using ixs(3) by (auto dest: onq_less)
  then have free: "free_loop (tx_frame_size s) (map (\<lambda>i. i * ?sz) ixs) (tx_frames s) =
      Ret (mark_free ixs (tx_frames s))"
    using free_loop_ok [OF fr(2) refl fr(1)] by simp
  let ?ff = "map (\<lambda>i. i * ?sz) ixs @ drop (length ixs) (free_frames s)"
  have "complete_frames F s w = Ret (length ixs, completed ixs ?ff s, w')"
    using w'(1) len stat free by (simp add: complete_frames_def update_tx_frames_def completed_def)
  moreover have "completes T C K ixs s w w'" "length ?ff = length (free_frames s)"
    using ixs w'(2-5) len P(3) by (simp_all add: completes_def)
  ultimately show ?thesis by blast
qed

lemma completes_length:
  assumes "completes T C K ixs s w w'" "tx_core m s"
  shows "length ixs \<le> outstanding_tx_frames s"
proof -
  have "length ixs = card (set ixs)" using assms(1) by (simp add: completes_def distinct_card)
  also have "\<dots> \<le> outstanding_tx_frames s"
    using assms by (auto simp: completes_def tx_core_def intro: card_mono)
  finally show ?thesis .
qed

lemma completed_core:
  assumes "completes T C K ixs s w w'" "tx_core m s" "length ff = length (free_frames s)"
  shows "tx_core m (completed ixs ff s)"
proof -
  have "card (onq (tx_frames s) - set ixs) = card (onq (tx_frames s)) - length ixs"
    using assms(1) by (simp add: completes_def card_Diff_subset distinct_card)
  then show ?thesis
    using assms by (simp add: tx_core_def completed_def onq_mark_free tx_frames_inv_mark_free)
qed

lemma completed_linked:
  assumes comp: "completes T C K ixs s w w'" and link: "tx_linked T C s w"
  shows "tx_linked T C (completed ixs ff s) w'"
proof -
  have "mset_set (onq (tx_frames s)) = mset ixs + mset_set (onq (tx_frames s) - set ixs)"
    using comp by (intro mset_set_remove_list) (simp_all add: completes_def)
  then show ?thesis
    using comp link by (simp add: completes_def tx_linked_def tx_same_def completed_def onq_mark_free)
qed

lemma completed_inv:
  assumes "completes T C K ixs s w w'" "tx_inv m s" "length ff = length (free_frames s)"
  shows "tx_inv m (completed ixs ff s)"
  using completed_core [OF assms(1) _ assms(3), of m] assms(2)
  by (auto simp: tx_inv_def completed_def onq_mark_free)

section \<open>Handing over a batch\<close>

lemma same_trans [trans]:
  "same_on K w w1 \<Longrightarrow> same_on K w1 w2 \<Longrightarrow> same_on K w w2"
  "tx_same T K w w1 \<Longrightarrow> tx_same T K w1 w2 \<Longrightarrow> tx_same T K w w2"
  "comp_same C K w w1 \<Longrightarrow> comp_same C K w1 w2 \<Longrightarrow> comp_same C K w w2"
  by (simp_all add: same_on_def tx_same_def comp_same_def)

lemma wakeup_ok:
  assumes law: "wakeup_law F q T C K" and ok: "pv_ok T w"
  shows "\<exists>w'. TxQueue_wakeup F q w = (Inr (), w') \<and> pv_ok T w' \<and> tx_same T K w w' \<and> comp_same C K w w'"
proof -
  obtain r w' where send: "libc_sendto F (fd_id (tq_fd q)) w = (r, w')" by (metis surj_pair)
  have "pv_ok T w' \<and> tx_same T K w w' \<and> comp_same C K w w' \<and>
      (0 \<le> r \<or> libc_errno F w' \<in> {ENOBUFS (abi F), EAGAIN (abi F), EBUSY (abi F), ENETDOWN (abi F)})"
    using law ok send unfolding wakeup_law_def by blast
  then show ?thesis using send by (auto simp: TxQueue_wakeup_def Let_def)
qed

lemma produce_and_wakeup_ok:
  assumes con: "tx_contract F q T" and keep: "keeps (pv_ok T) (comp_same C K w) (tx_ops F q)"
    and law: "wakeup_law F q T C K" and ok: "pv_ok T w" "pv_resv T w = 0"
    and room: "idx_room F (length (pv_subm T w) + length batch)"
    and fits: "fits \<longleftrightarrow> length batch \<le> pv_free T w"
  shows "\<exists>w'. TxQueue_produce_and_wakeup F q batch w = Ret (Inr (if fits then length batch else 0), w') \<and>
    pv_ok T w' \<and> pv_resv T w' = 0 \<and> comp_same C K w w' \<and>
    pv_subm T w' = pv_subm T w @ (if fits then map tx_entry batch else [])"
proof -
  obtain w1 where w1: "TxQueue_produce F q batch w = Ret (if fits then length batch else 0, w1)"
    "pv_ok T w1" "pv_resv T w1 = 0" "comp_same C K w w1"
    "pv_subm T w1 = pv_subm T w @ (if fits then map tx_entry batch else [])"
    using txq.produce_total [OF con ok room keep] fits by auto
  show ?thesis
  proof (cases "TxQueue_needs_wakeup F q w1")
    case True
    obtain w2 where "TxQueue_wakeup F q w1 = (Inr (), w2)" "pv_ok T w2" "tx_same T K w1 w2"
        "comp_same C K w1 w2"
      using wakeup_ok [OF law w1(2)] by blast
    with True w1 show ?thesis
      by (auto simp: TxQueue_produce_and_wakeup_def tx_same_def intro: same_trans)
  next
    case False
    with w1 show ?thesis by (simp add: TxQueue_produce_and_wakeup_def)
  qed
qed

lemma tx_submit_loop_ok:
  assumes plat: "tx_platform F q cq T C K" and batch: "n = length batch" "batch \<noteq> []"
  shows "pv_ok T w \<Longrightarrow> pv_resv T w = 0 \<Longrightarrow> idx_room F (length (pv_subm T w) + n) \<Longrightarrow>
    j < fuel \<Longrightarrow> n \<le> pv_free T ((tx_retry F q batch ^^ j) w) \<Longrightarrow>
    \<exists>w'. tx_submit_loop F fuel q batch n w = Ret w' \<and> pv_ok T w' \<and> pv_resv T w' = 0 \<and>
      comp_same C K w w' \<and> pv_subm T w' = pv_subm T w @ map tx_entry batch"
proof (induction fuel arbitrary: j w)
  case 0
  then show ?case by simp
next
  case (Suc fuel)
  note P = tx_platformD [OF plat]
  let ?fits = "length batch \<le> pv_free T w"
  obtain w1 where w1: "TxQueue_produce_and_wakeup F q batch w = Ret (Inr (if ?fits then length batch else 0), w1)"
    "pv_ok T w1" "pv_resv T w1 = 0" "comp_same C K w w1"
    "pv_subm T w1 = pv_subm T w @ (if ?fits then map tx_entry batch else [])"
    using produce_and_wakeup_ok [OF P(1,4,6) Suc.prems(1,2) _ refl] Suc.prems(3) batch(1) by blast
  show ?case
  proof (cases ?fits)
    case True
    with w1 batch show ?thesis by simp
  next
    case False
    then obtain j' where j: "j = Suc j'" using Suc.prems(5) batch by (cases j) auto
    have "tx_retry F q batch w = w1" using w1(1) by (simp add: tx_retry_def)
    then have "n \<le> pv_free T ((tx_retry F q batch ^^ j') w1)"
      using Suc.prems(5) by (simp add: j funpow_swap1)
    then obtain w' where "tx_submit_loop F fuel q batch n w1 = Ret w'" "pv_ok T w'" "pv_resv T w' = 0"
        "comp_same C K w1 w'" "pv_subm T w' = pv_subm T w1 @ map tx_entry batch"
      using Suc.IH [of w1 j'] w1 False Suc.prems(3,4) j by auto
    with w1 False batch show ?thesis by (auto intro: same_trans)
  qed
qed

text \<open>A ring that never has room for the batch keeps the loop running for ever.\<close>

lemma tx_submit_loop_stuck:
  assumes plat: "tx_platform F q cq T C K" and batch: "n = length batch"
    and small: "\<And>w. pv_ok T w \<Longrightarrow> pv_free T w < n"
  shows "pv_ok T w \<Longrightarrow> pv_resv T w = 0 \<Longrightarrow> idx_room F (length (pv_subm T w) + n) \<Longrightarrow>
    tx_submit_loop F fuel q batch n w = Spin"
proof (induction fuel arbitrary: w)
  case 0
  then show ?case by simp
next
  case (Suc fuel)
  note P = tx_platformD [OF plat]
  have full: "pv_free T w < length batch" using small [OF Suc.prems(1)] batch by simp
  then obtain w1 where w1: "TxQueue_produce_and_wakeup F q batch w = Ret (Inr 0, w1)"
    "pv_ok T w1" "pv_resv T w1 = 0" "pv_subm T w1 = pv_subm T w"
    using produce_and_wakeup_ok [OF P(1,4,6) Suc.prems(1,2), of batch False] Suc.prems(3) batch by auto
  from full batch have "n \<noteq> 0" by linarith
  then show ?case using Suc.IH [OF w1(2,3)] w1 Suc.prems(3) by simp
qed

lemma batch_range_ok:
  "cur_batch_size s \<le> batch_end s \<Longrightarrow>
   batch_range chk s = Ret (batch_end s - cur_batch_size s, batch_end s)"
  by (auto simp: batch_range_def batch_end_def)

lemma take_drop_map_nth:
  assumes "a \<le> b" "b \<le> length xs"
  shows "take (b - a) (drop a xs) = map ((!) xs) [a..<b]"
  using assms by (auto intro!: nth_equalityI)

lemma handed_over_simps [simp]:
  "tx_cursor (handed_over s) = tx_cursor s" "batch_size (handed_over s) = batch_size s"
  "cur_batch_size (handed_over s) = 0" "tx_frame_size (handed_over s) = tx_frame_size s"
  "tx_q (handed_over s) = tx_q s" "comp_q (handed_over s) = comp_q s"
  "free_frames (handed_over s) = free_frames s"
  "outstanding_tx_frames (handed_over s) = outstanding_tx_frames s + cur_batch_size s"
  by (simp_all add: handed_over_def)

lemma handed_over_frames:
  assumes "batch_ready s"
  shows "length (tx_frames (handed_over s)) = length (tx_frames s)"
    "onq (tx_frames (handed_over s)) =
       onq (tx_frames s) \<union> {batch_end s - cur_batch_size s..<batch_end s}"
  using assms by (simp_all add: handed_over_def batch_ready_def onq_map_range)

lemma handed_over_core:
  assumes "batch_ready s" "tx_core m s"
  shows "tx_core m (handed_over s)"
proof -
  let ?R = "{batch_end s - cur_batch_size s..<batch_end s}"
  have "card (onq (tx_frames s) \<union> ?R) = card (onq (tx_frames s)) + cur_batch_size s"
    using assms(1) by (subst card_Un_disjoint) (auto simp: batch_ready_def)
  then show ?thesis
    using assms
    by (simp add: tx_core_def handed_over_def batch_ready_def onq_map_range tx_frames_inv_map_range)
qed

lemma handed_over_linked:
  assumes ready: "batch_ready s" and core: "tx_core m s" and link: "tx_linked T C s w"
    and w': "pv_ok T w'" "pv_resv T w' = 0" "comp_same C K w w'"
      "pv_subm T w' = pv_subm T w @
        map (\<lambda>i. tx_entry (tx_frames s ! i)) [batch_end s - cur_batch_size s..<batch_end s]"
  shows "tx_linked T C (handed_over s) w'"
proof -
  let ?R = "[batch_end s - cur_batch_size s..<batch_end s]" and ?sz = "unat (tx_frame_size s)"
  have "map (\<lambda>i. xd_addr (tx_entry (tx_frames s ! i))) ?R = map (\<lambda>i. i * ?sz) ?R"
    using core ready
    by (auto simp: tx_core_def tx_frames_inv_def tx_frame_ok_def placed_def tx_entry_def batch_ready_def)
  then have addrs: "image_mset xd_addr (mset (map (\<lambda>i. tx_entry (tx_frames s ! i)) ?R)) =
      image_mset (\<lambda>i. i * ?sz) (mset ?R)"
    by (simp only: mset_map [symmetric] map_map o_def)
  have "mset_set (onq (tx_frames s) \<union> set ?R) = mset_set (onq (tx_frames s)) + mset ?R"
    using ready by (subst mset_set_Union) (auto simp: batch_ready_def mset_set_set)
  then have "onq (tx_frames (handed_over s)) = onq (tx_frames s) \<union> set ?R" and
    "mset_set (onq (tx_frames s) \<union> set ?R) = mset_set (onq (tx_frames s)) + mset ?R"
    using ready by (simp_all add: handed_over_def batch_ready_def onq_map_range)
  moreover have "cur_batch_size s \<le> batch_end s" using ready by (simp add: batch_ready_def)
  ultimately show ?thesis
    using link w' addrs
    by (simp add: tx_linked_def comp_same_def handed_over_def del: mset_map mset_upt set_upt)
qed

lemma put_batch_ok:
  assumes plat: "tx_platform F (tx_q s) cq T C K" and core: "tx_core m s" and link: "tx_linked T C s w"
    and ready: "batch_ready s" and room: "idx_room F (length (pv_subm T w) + cur_batch_size s)"
    and stat: "pkts_tx (tx_stats s) + cur_batch_size s < 2 ^ 64"
    and prog: "tx_progress F (tx_q s) T n fuel" "cur_batch_size s \<le> n"
  shows "\<exists>w'. put_batch_on_tx_queue F fuel s w = Ret (handed_over s, w') \<and>
    tx_linked T C (handed_over s) w' \<and> comp_same C K w w' \<and>
    pv_subm T w' = pv_subm T w @
      map (\<lambda>i. tx_entry (tx_frames s ! i)) [batch_end s - cur_batch_size s..<batch_end s]"
proof -
  let ?a = "batch_end s - cur_batch_size s" and ?b = "batch_end s" and ?n = "cur_batch_size s"
  define frames where "frames = map_range (frame_status_update (\<lambda>_. OnTxQueue)) ?a ?b (tx_frames s)"
  define batch where "batch = take ?n (drop ?a frames)"
  have r: "0 < ?n" "?n \<le> ?b" "?b \<le> length (tx_frames s)" "?b - ?a = ?n" "length frames = length (tx_frames s)"
    using ready by (auto simp: batch_ready_def frames_def)
  then have len: "length batch = ?n" "batch \<noteq> []" by (auto simp: batch_def)
  have entries: "map tx_entry batch = map (\<lambda>i. tx_entry (tx_frames s ! i)) [?a..<?b]"
    using r take_drop_map_range [of ?a ?b "tx_frames s"] take_drop_map_nth [of ?a ?b "tx_frames s"]
    by (simp add: tx_entry_def batch_def frames_def)
  have slices: "sliceO (tx_frames s) ?a ?b = Ret (take ?n (drop ?a (tx_frames s)))"
      "sliceO frames ?a ?b = Ret batch"
    using r by (simp_all add: batch_def)
  have ok: "pv_ok T w" "pv_resv T w = 0" using link by (simp_all add: tx_linked_def)
  then obtain j where "j < fuel" "?n \<le> pv_free T ((tx_retry F (tx_q s) batch ^^ j) w)"
    using prog len(1) unfolding tx_progress_def by (metis (no_types, lifting))
  then obtain w' where w': "tx_submit_loop F fuel (tx_q s) batch ?n w = Ret w'"
    "pv_ok T w'" "pv_resv T w' = 0" "comp_same C K w w'"
    "pv_subm T w' = pv_subm T w @ map (\<lambda>i. tx_entry (tx_frames s ! i)) [?a..<?b]"
    using tx_submit_loop_ok [OF plat _ len(2) ok room] len(1) entries by metis
  have "outstanding_tx_frames s + ?n < 2 ^ 64"
  proof -
    have "outstanding_tx_frames (handed_over s) \<le> length (tx_frames (handed_over s))"
      by (rule tx_core_bounds(1)) (rule handed_over_core [OF ready core])
    moreover have "length (tx_frames (handed_over s)) = length (tx_frames s)"
      "outstanding_tx_frames (handed_over s) = outstanding_tx_frames s + ?n"
      using r by (simp_all add: handed_over_def)
    moreover have "(2 ^ 32 :: nat) < 2 ^ 64" by simp
    ultimately show ?thesis using tx_core_bounds(2) [OF core] by linarith
  qed
  then have "put_batch_on_tx_queue F fuel s w = Ret (handed_over s, w')"
    unfolding put_batch_on_tx_queue_def handed_over_def Let_def
    using r(1) stat
    by (simp add: frames_def [symmetric] batch_range_ok [OF r(2)] slices w'(1) del: sliceO_in)
  then show ?thesis
    using w' handed_over_linked [OF ready core link w'(2-5)] by blast
qed

end
