(* ===== verification/Xsk_Tx_Send.thy ===== *)
theory Xsk_Tx_Send
  imports Xsk_Tx_Ops
begin

text \<open>
  The public operations of \<open>XskTx\<close>: \<open>send\<close>, \<open>send_apply\<close> and \<open>drain\<close> keep the
  invariant, and together they are a queue of packets handed to the kernel in batches.
\<close>

section \<open>Definitions\<close>

text \<open>The counters and ring indices have room for one more batch.\<close>

definition tx_counts ::
    "'k ffi \<Rightarrow> ('k, xdp_desc) prod_view \<Rightarrow> ('k, u64) cons_view \<Rightarrow> XskTx \<Rightarrow> 'k world \<Rightarrow> bool" where
  "tx_counts F T C s w \<longleftrightarrow>
     idx_room F (length (cv_taken C w) + outstanding_tx_frames s) \<and>
     idx_room F (length (pv_subm T w) + batch_size s) \<and>
     pkts_tx (tx_stats s) + batch_size s < 2 ^ 64 \<and>
     pkts_tx_completed (tx_stats s) + outstanding_tx_frames s < 2 ^ 64"

text \<open>
  The specification of the transmit end: packets collect in a batch, a full batch is handed over in
  order. \<open>new_packets\<close> are the packets named by the descriptors submitted between two worlds.
\<close>

fun tx_spec_send :: "nat \<Rightarrow> u8 list \<Rightarrow> u8 list list \<times> u8 list list \<Rightarrow> u8 list list \<times> u8 list list" where
  "tx_spec_send b data (sent, pend) =
     (if Suc (length pend) = b then (sent @ pend @ [data], []) else (sent, pend @ [data]))"

definition new_packets ::
    "MmapArea \<Rightarrow> ('k, xdp_desc) prod_view \<Rightarrow> 'k world \<Rightarrow> 'k world \<Rightarrow> u8 list list" where
  "new_packets m T w w' = map (desc_data m w') (drop (length (pv_subm T w)) (pv_subm T w'))"

text \<open>The memory of a frame.\<close>

definition chunk :: "MmapArea \<Rightarrow> XskTx \<Rightarrow> nat \<Rightarrow> nat set" where
  "chunk m s i =
     {mem_ptr m + i * unat (tx_frame_size s)..<mem_ptr m + Suc i * unat (tx_frame_size s)}"

text \<open>The packets accepted so far, handed over or not.\<close>

definition tx_accepted :: "XskTx \<Rightarrow> nat" where
  "tx_accepted s = pkts_tx (tx_stats s) + cur_batch_size s"

text \<open>Only the frame at the cursor is written.\<close>

definition other_frames_kept :: "MmapArea \<Rightarrow> XskTx \<Rightarrow> 'k world \<Rightarrow> 'k world \<Rightarrow> bool" where
  "other_frames_kept m s w w' \<longleftrightarrow>
     (\<forall>i < length (tx_frames s). i \<noteq> tx_cursor s \<longrightarrow> (\<forall>a \<in> chunk m s i. mem w' a = mem w a))"

text \<open>One step of the cursor.\<close>

definition stepped :: "XskTx \<Rightarrow> XskTx" where
  "stepped s = s\<lparr>tx_cursor := Suc (tx_cursor s) mod length (tx_frames s),
                 cur_batch_size := Suc (cur_batch_size s)\<rparr>"

text \<open>The frame at the cursor got the length \<open>n\<close>.\<close>

definition written :: "nat \<Rightarrow> XskTx \<Rightarrow> XskTx" where
  "written n s = s\<lparr>tx_frames := (tx_frames s)[tx_cursor s := set_len n (tx_frames s ! tx_cursor s)]\<rparr>"

text \<open>What no operation of the transmit end changes.\<close>

definition tx_fixed :: "XskTx \<Rightarrow> XskTx \<Rightarrow> bool" where
  "tx_fixed s s' \<longleftrightarrow>
     tx_q s' = tx_q s \<and> comp_q s' = comp_q s \<and> batch_size s' = batch_size s \<and>
     tx_frame_size s' = tx_frame_size s \<and> length (tx_frames s') = length (tx_frames s)"

section \<open>The cursor\<close>

lemma batch_arith:
  fixes b c n :: nat
  assumes "0 < b" "b dvd n" "c < n"
  shows "Suc (c mod b) = b \<Longrightarrow> Suc c mod n mod b = 0"
    and "Suc (c mod b) \<noteq> b \<Longrightarrow> Suc c < n \<and> Suc c mod b = Suc (c mod b)"
proof -
  show "Suc c mod n mod b = 0" if "Suc (c mod b) = b"
    using assms(2) that by (simp add: mod_mod_cancel mod_Suc)
  show "Suc c < n \<and> Suc c mod b = Suc (c mod b)" if ne: "Suc (c mod b) \<noteq> b"
  proof
    show step: "Suc c mod b = Suc (c mod b)" using ne by (simp add: mod_Suc)
    show "Suc c < n"
    proof (rule ccontr)
      assume "\<not> Suc c < n"
      then have "Suc c = n" using assms(3) by simp
      then show False using assms(2) step by auto
    qed
  qed
qed

lemma batch_end_stepped:
  assumes "tx_cursor s < length (tx_frames s)"
  shows "batch_end (stepped s) = Suc (tx_cursor s)"
proof (cases "Suc (tx_cursor s) = length (tx_frames s)")
  case True
  then show ?thesis by (simp add: batch_end_def stepped_def)
next
  case False
  with assms show ?thesis by (simp add: batch_end_def stepped_def)
qed

lemma stepped_simps [simp]:
  "tx_frames (stepped s) = tx_frames s" "tx_q (stepped s) = tx_q s" "comp_q (stepped s) = comp_q s"
  "cur_batch_size (stepped s) = Suc (cur_batch_size s)" "batch_size (stepped s) = batch_size s"
  "tx_stats (stepped s) = tx_stats s" "tx_frame_size (stepped s) = tx_frame_size s"
  "tx_cursor (stepped s) = Suc (tx_cursor s) mod length (tx_frames s)"
  by (simp_all add: stepped_def)

lemma stepped_core [simp]: "tx_core m (stepped s) = tx_core m s"
  by (simp add: tx_core_def stepped_def)

lemma stepped_linked [simp]: "tx_linked T C (stepped s) w = tx_linked T C s w"
  by (simp add: tx_linked_def)

lemma inv_range:
  assumes "tx_inv m s" "tx_cursor s \<notin> onq (tx_frames s)"
  shows "cur_batch_size s \<le> tx_cursor s" "cur_batch_size s < batch_size s"
    "{tx_cursor s - cur_batch_size s..<Suc (tx_cursor s)} \<inter> onq (tx_frames s) = {}"
  using assms by (auto simp: tx_inv_def atLeastLessThanSuc)

lemma stepped_ready:
  assumes "tx_inv m s" "tx_cursor s \<notin> onq (tx_frames s)"
  shows "batch_ready (stepped s)"
  using inv_range [OF assms] assms(1) batch_end_stepped [of s]
  by (simp add: batch_ready_def tx_inv_def)

lemma advance_ok:
  assumes plat: "tx_platform F (tx_q s) cq T C K" and inv: "tx_inv m s" and link: "tx_linked T C s w"
    and free: "tx_cursor s \<notin> onq (tx_frames s)"
    and room: "idx_room F (length (pv_subm T w) + batch_size s)"
      "pkts_tx (tx_stats s) + batch_size s < 2 ^ 64"
    and prog: "tx_progress F (tx_q s) T (batch_size s) fuel"
    and full: "full \<longleftrightarrow> Suc (cur_batch_size s) = batch_size s"
    and s': "s' = (if full then handed_over (stepped s) else stepped s)"
  shows "\<exists>w'. advance F fuel s w = Ret (Inr (), s', w') \<and> tx_inv m s' \<and> tx_linked T C s' w' \<and>
    comp_same C K w w' \<and> (\<not> full \<longrightarrow> w' = w) \<and>
    pv_subm T w' = pv_subm T w @
      (if full then map (\<lambda>i. tx_entry (tx_frames s ! i)) [tx_cursor s - cur_batch_size s..<Suc (tx_cursor s)]
       else [])"
proof -
  have I: "tx_cursor s < length (tx_frames s)" "0 < batch_size s" "batch_size s dvd length (tx_frames s)"
    "cur_batch_size s = tx_cursor s mod batch_size s" "tx_core m s"
    using inv by (simp_all add: tx_inv_def)
  note ready = stepped_ready [OF inv free] and bend = batch_end_stepped [OF I(1)]
  have "length (tx_frames s) < 2 ^ 64"
    using tx_core_bounds(2) [OF I(5)] by (rule order.strict_trans1) simp
  then have small: "Suc (tx_cursor s) < 2 ^ 64" "Suc (cur_batch_size s) < 2 ^ 64" "0 < length (tx_frames s)"
    using I(1) inv_range(1) [OF inv free] by linarith+
  have run: "advance F fuel s w =
      (if full then bindO (put_batch_on_tx_queue F fuel (stepped s) w) (\<lambda>(s2, w2). Ret (Inr (), s2, w2))
       else Ret (Inr (), stepped s, w))"
    using small full by (simp add: advance_def Let_def stepped_def)
  show ?thesis
  proof (cases full)
    case True
    then have cur: "cur_batch_size (stepped s) = batch_size s" using full by simp
    then have start: "Suc (tx_cursor s) - batch_size s = tx_cursor s - cur_batch_size s" by simp
    obtain w' where w': "put_batch_on_tx_queue F fuel (stepped s) w = Ret (handed_over (stepped s), w')"
      "tx_linked T C (handed_over (stepped s)) w'" "comp_same C K w w'"
      "pv_subm T w' = pv_subm T w @ map (\<lambda>i. tx_entry (tx_frames s ! i))
          [tx_cursor s - cur_batch_size s..<Suc (tx_cursor s)]"
      using put_batch_ok [OF _ _ _ ready, of F cq T C K m w "batch_size s" fuel, unfolded cur] plat I(5) link
        room prog bend by (auto simp: start simp del: upt_Suc)
    have "tx_inv m (handed_over (stepped s))"
      using handed_over_core [OF ready] handed_over_frames [OF ready] I batch_arith(1) [OF I(2,3,1)] full True small(3)
      by (simp add: tx_inv_def)
    then show ?thesis using run w' s' True by simp
  next
    case False
    have "tx_inv m (stepped s)"
      using I batch_arith(2) [OF I(2,3,1)] full False inv_range [OF inv free]
      by (simp add: tx_inv_def)
    then show ?thesis using run s' False link by simp
  qed
qed

section \<open>Writing the frame at the cursor\<close>

lemma written_simps [simp]:
  "length (tx_frames (written n s)) = length (tx_frames s)" "onq (tx_frames (written n s)) = onq (tx_frames s)"
  "tx_cursor (written n s) = tx_cursor s" "cur_batch_size (written n s) = cur_batch_size s"
  "batch_size (written n s) = batch_size s" "tx_frame_size (written n s) = tx_frame_size s"
  "tx_q (written n s) = tx_q s" "comp_q (written n s) = comp_q s" "tx_stats (written n s) = tx_stats s"
  by (simp_all add: written_def onq_update_len)

lemma inv_frame:
  assumes "tx_inv m s" "i < length (tx_frames s)"
  shows "tx_frame_ok m (unat (tx_frame_size s)) i (tx_frames s ! i)"
  using assms by (simp add: tx_inv_def tx_core_def tx_frames_inv_def)

lemma written_inv:
  assumes "tx_inv m s" "n \<le> unat (tx_frame_size s)"
  shows "tx_inv m (written n s)"
  using assms tx_frames_inv_update [of m "unat (tx_frame_size s)" "tx_frames s" "tx_cursor s" n]
  by (clarsimp simp: tx_inv_def tx_core_def written_def onq_update_len)

lemma outside_umemD:
  assumes "outside_umem T C" "kern w' = kern w"
  shows "pv_ok T w' = pv_ok T w" "pv_subm T w' = pv_subm T w" "pv_resv T w' = pv_resv T w"
    "cv_taken C w' = cv_taken C w" "cv_peek C w' = cv_peek C w"
  using assms unfolding outside_umem_def by metis+

lemma written_linked:
  assumes "outside_umem T C" "kern w' = kern w" "tx_linked T C s w"
  shows "tx_linked T C (written n s) w'"
  using assms(3) outside_umemD [OF assms(1,2)] by (simp add: tx_linked_def)

lemma chunk_alt: "chunk m s i = {mem_ptr m + i * unat (tx_frame_size s)..<mem_ptr m + i * unat (tx_frame_size s) + unat (tx_frame_size s)}"
  by (simp add: chunk_def algebra_simps)

lemma chunk_in_bytes:
  assumes "i < length (tx_frames s)"
  shows "chunk m s i \<subseteq> tx_bytes m s"
proof -
  have "Suc i * unat (tx_frame_size s) \<le> length (tx_frames s) * unat (tx_frame_size s)"
    using assms by (intro mult_le_mono1) simp
  then show ?thesis
    unfolding chunk_def tx_bytes_def by (intro ivl_subset [THEN iffD2] disjI2 conjI) linarith+
qed

lemma store_other_chunk:
  assumes "i \<noteq> j" "length bs \<le> unat (tx_frame_size s)" "a \<in> chunk m s i"
  shows "mem (region_store m (j * unat (tx_frame_size s)) bs w) a = mem w a"
proof (rule mem_region_store_outside)
  consider "i < j" | "j < i" using assms(1) by linarith
  then show "a < mem_ptr m + j * unat (tx_frame_size s) \<or>
      mem_ptr m + j * unat (tx_frame_size s) + length bs \<le> a"
    by cases (use assms(2,3) chunk_disjoint [of _ _ "unat (tx_frame_size s)"] in \<open>fastforce simp: chunk_alt\<close>)+
qed

lemma frame_data_cong:
  assumes "tx_frame_ok m (unat (tx_frame_size s)) i f" "\<forall>a \<in> chunk m s i. mem w' a = mem w a"
  shows "frame_data w' f = frame_data w f"
  using assms unfolding frame_data_def
  by (intro bytes_at_cong) (auto simp: tx_frame_ok_def placed_def chunk_alt)

lemma desc_data_entry:
  assumes "tx_frame_ok m (unat (tx_frame_size s)) i f"
  shows "desc_data m w (tx_entry f) = frame_data w f"
proof -
  have "frame_len f < 2 ^ 32"
    using assms as_usize_less [of "tx_frame_size s"] unfolding tx_frame_ok_def as_usize_def by linarith
  then show ?thesis
    using assms by (simp add: desc_data_def frame_data_def tx_entry_def tx_frame_ok_def)
qed

lemma batch_extend:
  assumes inv: "tx_inv m s" and n: "n \<le> unat (tx_frame_size s)"
    and other: "\<And>i a. i < tx_cursor s \<Longrightarrow> a \<in> chunk m s i \<Longrightarrow> mem w' a = mem w a"
  shows "map (\<lambda>i. frame_data w' (tx_frames (written n s) ! i)) [tx_cursor s - cur_batch_size s..<Suc (tx_cursor s)]
    = batch_data s w @ [bytes_at w' (mem_ptr m + tx_cursor s * unat (tx_frame_size s)) n]"
proof -
  have c: "tx_cursor s < length (tx_frames s)" using inv by (simp add: tx_inv_def)
  have "frame_data w' (tx_frames (written n s) ! i) = frame_data w (tx_frames s ! i)"
    if "i < tx_cursor s" for i
    using frame_data_cong [OF inv_frame [OF inv], of i w' w] other that c by (simp add: written_def)
  then have "map (\<lambda>i. frame_data w' (tx_frames (written n s) ! i)) [tx_cursor s - cur_batch_size s..<tx_cursor s]
      = batch_data s w"
    by (simp add: batch_data_def)
  moreover have "frame_data w' (tx_frames (written n s) ! tx_cursor s) =
      bytes_at w' (mem_ptr m + tx_cursor s * unat (tx_frame_size s)) n"
    using inv_frame [OF inv c] c
    by (simp add: written_def frame_data_def set_len_def tx_frame_ok_def placed_def)
  ultimately show ?thesis by simp
qed

text \<open>What the batch and the ring hold once the frame at the cursor is written and passed.\<close>

lemma advance_spec:
  assumes inv: "tx_inv m s" and inv': "tx_inv m (written n s)" and cur: "cur_batch_size s \<le> tx_cursor s"
    and full: "full \<longleftrightarrow> Suc (cur_batch_size s) = batch_size s"
    and ext: "map (\<lambda>i. frame_data w' (tx_frames (written n s) ! i)) [tx_cursor s - cur_batch_size s..<Suc (tx_cursor s)] =
      batch_data s w @ [data]"
    and subm: "pv_subm T w' = pv_subm T w @
      (if full then map (\<lambda>i. tx_entry (tx_frames (written n s) ! i)) [tx_cursor s - cur_batch_size s..<Suc (tx_cursor s)] else [])"
  shows "(new_packets m T w w', batch_data (if full then handed_over (stepped (written n s)) else stepped (written n s)) w') =
    tx_spec_send (batch_size s) data ([], batch_data s w)"
proof (cases full)
  case True
  have c: "tx_cursor s < length (tx_frames s)" using inv by (simp add: tx_inv_def)
  have "desc_data m w' (tx_entry (tx_frames (written n s) ! i)) = frame_data w' (tx_frames (written n s) ! i)"
    if "i < Suc (tx_cursor s)" for i
    using desc_data_entry [OF inv_frame [OF inv', of i]] c that by simp
  then have "new_packets m T w w' =
      map (\<lambda>i. frame_data w' (tx_frames (written n s) ! i)) [tx_cursor s - cur_batch_size s..<Suc (tx_cursor s)]"
    using True subm by (simp add: new_packets_def del: upt_Suc)
  then show ?thesis using True ext cur full by (simp add: batch_data_def)
next
  case False
  have "Suc (tx_cursor s) mod length (tx_frames s) = Suc (tx_cursor s)"
    using batch_arith(2) [of "batch_size s" "length (tx_frames s)" "tx_cursor s"] inv False full by (simp add: tx_inv_def)
  then have "batch_data (stepped (written n s)) w' = batch_data s w @ [data]"
    using ext by (simp add: batch_data_def del: upt_Suc)
  then show ?thesis using False subm cur full by (simp add: new_packets_def batch_data_def)
qed

lemma write_advance:
  assumes plat: "tx_platform F (tx_q s) cq T C (tx_bytes m s)" and inv: "tx_inv m s"
    and link: "tx_linked T C s w" and free: "tx_cursor s \<notin> onq (tx_frames s)"
    and counts: "tx_counts F T C s w" and prog: "tx_progress F (tx_q s) T (batch_size s) fuel"
    and n: "n \<le> unat (tx_frame_size s)" "length bs \<le> unat (tx_frame_size s)"
    and w2: "w2 = region_store m (tx_cursor s * unat (tx_frame_size s)) bs w"
    and data: "data = bytes_at w2 (mem_ptr m + tx_cursor s * unat (tx_frame_size s)) n"
  shows "\<exists>s' w'. advance F fuel (written n s) w2 = Ret (Inr (), s', w') \<and> tx_inv m s' \<and>
    tx_linked T C s' w' \<and> tx_fixed s s' \<and> onq (tx_frames s) \<subseteq> onq (tx_frames s') \<and>
    other_frames_kept m s w w' \<and> (\<forall>a \<in> chunk m s (tx_cursor s). mem w' a = mem w2 a) \<and>
    tx_accepted s' = Suc (tx_accepted s) \<and>
    (new_packets m T w w', batch_data s' w') = tx_spec_send (batch_size s) data ([], batch_data s w)"
proof -
  let ?s = "written n s" and ?c = "tx_cursor s"
  let ?full = "Suc (cur_batch_size s) = batch_size s"
  let ?s' = "if ?full then handed_over (stepped ?s) else stepped ?s"
  have out: "outside_umem T C" using tx_platformD(8) [OF plat] .
  have kern: "kern w2 = kern w" by (simp add: w2)
  have subm: "pv_subm T w2 = pv_subm T w" using outside_umemD(2) [OF out kern] .
  have c: "?c < length (tx_frames s)" using inv by (simp add: tx_inv_def)
  have inv': "tx_inv m ?s" and free': "tx_cursor ?s \<notin> onq (tx_frames ?s)"
    using written_inv [OF inv n(1)] free by simp_all
  have P: "idx_room F (length (pv_subm T w) + batch_size s)" "pkts_tx (tx_stats s) + batch_size s < 2 ^ 64"
    using counts by (simp_all add: tx_counts_def)
  obtain w' where w': "advance F fuel ?s w2 = Ret (Inr (), ?s', w')" "tx_inv m ?s'" "tx_linked T C ?s' w'"
    "comp_same C (tx_bytes m s) w2 w'" "\<not> ?full \<longrightarrow> w' = w2"
    "pv_subm T w' = pv_subm T w @ (if ?full then map (\<lambda>i. tx_entry (tx_frames ?s ! i))
        [?c - cur_batch_size s..<Suc ?c] else [])"
    using advance_ok [OF _ inv' written_linked [OF out kern link] free', of F cq "tx_bytes m s" fuel ?full ?s',
        unfolded written_simps subm, OF plat P prog refl refl] by blast
  have same: "mem w' a = mem w2 a" if "i < length (tx_frames s)" "a \<in> chunk m s i" for i a
    using w'(4) chunk_in_bytes [OF that(1)] that(2) by (auto simp: comp_same_def same_on_def)
  have other: "mem w' a = mem w a" if "i < length (tx_frames s)" "i \<noteq> ?c" "a \<in> chunk m s i" for i a
    using same [OF that(1,3)] store_other_chunk [OF that(2) n(2) that(3)] by (simp add: w2)
  have below: "mem w' a = mem w a" if "i < ?c" "a \<in> chunk m s i" for i a
    using other [OF _ _ that(2)] that(1) c by simp
  have "data = bytes_at w' (mem_ptr m + ?c * unat (tx_frame_size s)) n"
    unfolding data by (rule bytes_at_cong) (use same [OF c] n(1) in \<open>auto simp: chunk_alt\<close>)
  then have ext: "map (\<lambda>i. frame_data w' (tx_frames ?s ! i)) [?c - cur_batch_size s..<Suc ?c] = batch_data s w @ [data]"
    using batch_extend [OF inv n(1) below] by (simp only:)
  have "(new_packets m T w w', batch_data ?s' w') = tx_spec_send (batch_size s) data ([], batch_data s w)"
    by (rule advance_spec [OF inv inv' inv_range(1) [OF inv free] refl ext w'(6)])
  moreover have "onq (tx_frames s) \<subseteq> onq (tx_frames ?s')" "tx_fixed s ?s'"
    using handed_over_frames [OF stepped_ready [OF inv' free']] by (auto simp: tx_fixed_def)
  moreover have "other_frames_kept m s w w'" "\<forall>a \<in> chunk m s (tx_cursor s). mem w' a = mem w2 a"
    using other same [OF c] by (simp_all add: other_frames_kept_def)
  moreover have "tx_accepted ?s' = Suc (tx_accepted s)" by (simp add: tx_accepted_def handed_over_def stepped_def)
  ultimately show ?thesis using w'(1-3) by blast
qed

section \<open>Completions before a send\<close>

lemma completed_simps [simp]:
  "tx_frames (completed ixs ff s) = mark_free ixs (tx_frames s)" "tx_cursor (completed ixs ff s) = tx_cursor s"
  "batch_size (completed ixs ff s) = batch_size s" "cur_batch_size (completed ixs ff s) = cur_batch_size s"
  "tx_frame_size (completed ixs ff s) = tx_frame_size s" "tx_q (completed ixs ff s) = tx_q s"
  "comp_q (completed ixs ff s) = comp_q s" "pkts_tx (tx_stats (completed ixs ff s)) = pkts_tx (tx_stats s)"
  "outstanding_tx_frames (completed ixs ff s) = outstanding_tx_frames s - length ixs"
  "pkts_tx_completed (tx_stats (completed ixs ff s)) = pkts_tx_completed (tx_stats s) + length ixs"
  by (simp_all add: completed_def)

lemma completed_counts:
  assumes comp: "completes T C K ixs s w w'" and core: "tx_core m s" and counts: "tx_counts F T C s w"
  shows "tx_counts F T C (completed ixs ff s) w'"
  using completes_length [OF comp core] comp counts
  by (simp add: tx_counts_def completes_def tx_same_def)

lemma completed_batch_data:
  assumes comp: "completes T C (tx_bytes m s) ixs s w w'" and inv: "tx_inv m s"
  shows "batch_data (completed ixs ff s) w' = batch_data s w"
proof -
  have c: "tx_cursor s < length (tx_frames s)" using inv by (simp add: tx_inv_def)
  have "frame_data w' (mark_free ixs (tx_frames s) ! i) = frame_data w (tx_frames s ! i)"
    if i: "tx_cursor s - cur_batch_size s \<le> i" "i < tx_cursor s" for i
  proof -
    have "i \<notin> set ixs" using comp inv i unfolding completes_def tx_inv_def
      by (meson atLeastLessThan_iff disjoint_iff subsetD)
    moreover have "mem w' a = mem w a" if "a \<in> chunk m s i" for a
      using comp chunk_in_bytes [of i s m] i c that by (auto simp: completes_def tx_same_def same_on_def)
    ultimately show ?thesis
      using frame_data_cong [OF inv_frame [OF inv], of i w' w] i c by (simp add: nth_mark_free)
  qed
  then show ?thesis by (simp add: batch_data_def)
qed

lemma tx_bytes_completed [simp]: "tx_bytes m (completed ixs ff s) = tx_bytes m s"
  by (simp add: tx_bytes_def)

lemma chunk_completed [simp]: "chunk m (completed ixs ff s) i = chunk m s i"
  by (simp add: chunk_def)

section \<open>Sending\<close>

text \<open>A frame is in flight when it is marked so and its completion is not waiting.\<close>

definition in_flight :: "('k, u64) cons_view \<Rightarrow> XskTx \<Rightarrow> 'k world \<Rightarrow> nat set" where
  "in_flight C s w = {i \<in> onq (tx_frames s). i * unat (tx_frame_size s) \<notin> set (cv_pend C w)}"

lemma in_flight_completes:
  assumes "completes T C K ixs s w w'" "0 < unat (tx_frame_size s)"
  shows "in_flight C s w = onq (tx_frames s) - set ixs"
  using assms by (auto simp: in_flight_def completes_def)

lemma send_blocked:
  assumes "complete_frames F s w = Ret (k, s1, w1)" "tx_cursor s1 \<in> onq (tx_frames s1)"
  shows "send F fuel s data w = Ret (Inl NoFreeTxFrames, s1, w1)"
  using assms by (simp add: send_def onq_def)

lemma send_writes:
  assumes run: "complete_frames F s w = Ret (k, s1, w1)" and inv: "tx_inv m s1"
    and free: "tx_cursor s1 \<notin> onq (tx_frames s1)"
    and data: "length data \<le> frame_mtu (tx_frames s1 ! tx_cursor s1)"
  shows "send F fuel s data w = advance F fuel (written (length data) s1)
     (region_store m (tx_cursor s1 * unat (tx_frame_size s1)) data w1)"
proof -
  let ?f = "tx_frames s1 ! tx_cursor s1"
  have c: "tx_cursor s1 < length (tx_frames s1)" using inv by (simp add: tx_inv_def)
  have f: "tx_frame_ok m (unat (tx_frame_size s1)) (tx_cursor s1) ?f" using inv_frame [OF inv c] .
  then have st: "frame_status ?f = Free" using free c by (auto simp: onq_def tx_frame_ok_def)
  have at: "frame_mmap ?f = m" "frame_addr ?f = tx_cursor s1 * unat (tx_frame_size s1)"
    "in_area (frame_mmap ?f) (frame_addr ?f) (length data)"
    using f data placed_in_area [of ?f _ _ "length data"] by (auto simp: tx_frame_ok_def placed_def)
  show ?thesis
    using run c st write_checked_ok [OF at(3) data, of w1] at(1,2) by (simp add: send_def written_def)
qed

text \<open>Once completions are collected and the cursor's frame is free, the packet is accepted.\<close>

lemma send_accepts:
  assumes plat: "tx_platform F (tx_q s) (comp_q s) T C (tx_bytes m s)" and inv: "tx_inv m s"
    and link: "tx_linked T C s w" and counts: "tx_counts F T C s w"
    and prog: "tx_progress F (tx_q s) T (batch_size s) fuel"
    and data: "length data \<le> frame_mtu (tx_frames s ! tx_cursor s)"
    and run: "complete_frames F s w = Ret (length ixs, completed ixs ff s, w1)"
    and ff: "length ff = length (free_frames s)" and comp: "completes T C (tx_bytes m s) ixs s w w1"
    and free: "tx_cursor s \<notin> onq (tx_frames (completed ixs ff s))"
  shows "\<exists>s' w'. send F fuel s data w = Ret (Inr (), s', w') \<and> tx_inv m s' \<and> tx_linked T C s' w' \<and> tx_fixed s s' \<and>
    onq (tx_frames (completed ixs ff s)) \<subseteq> onq (tx_frames s') \<and> other_frames_kept m (completed ixs ff s) w1 w' \<and>
    tx_accepted s' = Suc (tx_accepted s) \<and>
    (new_packets m T w w', batch_data s' w') = tx_spec_send (batch_size s) data ([], batch_data s w)"
proof -
  let ?s = "completed ixs ff s" and ?w2 = "region_store m (tx_cursor s * unat (tx_frame_size s)) data w1"
  have core: "tx_core m s" and c: "tx_cursor s < length (tx_frames s)" using inv by (simp_all add: tx_inv_def)
  have mtu: "frame_mtu (tx_frames ?s ! tx_cursor ?s) = frame_mtu (tx_frames s ! tx_cursor s)" "length data \<le> unat (tx_frame_size ?s)"
    using data c inv_frame [OF inv c] by (simp_all add: nth_mark_free tx_frame_ok_def placed_def)
  note s1 = completed_inv [OF comp inv ff] completed_linked [OF comp link, of ff]
  have free1: "tx_cursor ?s \<notin> onq (tx_frames ?s)" using free by simp
  have snd: "send F fuel s data w = advance F fuel (written (length data) ?s) ?w2"
    using send_writes [OF run s1(1) free1] data mtu(1) by simp
  have "tx_platform F (tx_q ?s) (comp_q ?s) T C (tx_bytes m ?s)" "tx_progress F (tx_q ?s) T (batch_size ?s) fuel"
    using plat prog by simp_all
  then obtain s' w' where w': "advance F fuel (written (length data) ?s) ?w2 = Ret (Inr (), s', w')"
    "tx_inv m s'" "tx_linked T C s' w'" "onq (tx_frames ?s) \<subseteq> onq (tx_frames s')" "tx_fixed ?s s'"
    "other_frames_kept m ?s w1 w'" "tx_accepted s' = Suc (tx_accepted ?s)"
    "(new_packets m T w1 w', batch_data s' w') = tx_spec_send (batch_size ?s) data ([], batch_data ?s w1)"
    using write_advance [OF _ s1 free1 completed_counts [OF comp core counts, of ff] _ mtu(2) _ refl refl,
        of "comp_q ?s" fuel data] mtu(2)
    by (auto simp: bytes_at_store_same)
  have "(new_packets m T w w', batch_data s' w') = tx_spec_send (batch_size s) data ([], batch_data s w)"
    using w'(8) completed_batch_data [OF comp inv, of ff] comp by (simp add: new_packets_def completes_def tx_same_def)
  moreover have "tx_accepted s' = Suc (tx_accepted s)" using w'(7) by (simp add: tx_accepted_def)
  moreover have "tx_fixed s s'" using w'(5) by (simp add: tx_fixed_def)
  ultimately show ?thesis using snd w'(1-4,6) by auto
qed

lemma send_core:
  assumes plat: "tx_platform F (tx_q s) (comp_q s) T C (tx_bytes m s)" and inv: "tx_inv m s"
    and link: "tx_linked T C s w" and counts: "tx_counts F T C s w"
    and prog: "tx_progress F (tx_q s) T (batch_size s) fuel"
    and data: "length data \<le> frame_mtu (tx_frames s ! tx_cursor s)"
  shows "\<exists>r s' w'. send F fuel s data w = Ret (r, s', w') \<and> tx_inv m s' \<and> tx_linked T C s' w' \<and>
    tx_fixed s s' \<and> in_flight C s w \<subseteq> onq (tx_frames s') \<and>
    (\<forall>i \<in> in_flight C s w. \<forall>a \<in> chunk m s i. mem w' a = mem w a) \<and>
    (if tx_cursor s \<in> in_flight C s w
     then r = Inl NoFreeTxFrames \<and> tx_accepted s' = tx_accepted s \<and>
       new_packets m T w w' = [] \<and> batch_data s' w' = batch_data s w
     else r = Inr () \<and> tx_accepted s' = Suc (tx_accepted s) \<and>
       (new_packets m T w w', batch_data s' w') = tx_spec_send (batch_size s) data ([], batch_data s w))"
proof -
  have core: "tx_core m s" and sz: "0 < unat (tx_frame_size s)"
    using inv by (simp_all add: tx_inv_def tx_core_def tx_frames_inv_def)
  obtain ixs ff w1 where run: "complete_frames F s w = Ret (length ixs, completed ixs ff s, w1)"
    and ff: "length ff = length (free_frames s)" and comp: "completes T C (tx_bytes m s) ixs s w w1"
    using complete_frames_ok [OF plat core link] counts by (auto simp: tx_counts_def)
  let ?s = "completed ixs ff s"
  have fl: "in_flight C s w = onq (tx_frames ?s)"
    using in_flight_completes [OF comp sz] by (simp add: onq_mark_free)
  have mem1: "mem w1 a = mem w a" if "i < length (tx_frames s)" "a \<in> chunk m s i" for i a
    using comp chunk_in_bytes [OF that(1), of m] that(2)
    by (auto simp: completes_def tx_same_def same_on_def)
  show ?thesis
  proof (cases "tx_cursor s \<in> in_flight C s w")
    case True
    then have "send F fuel s data w = Ret (Inl NoFreeTxFrames, ?s, w1)"
      using send_blocked [OF run] fl by simp
    then show ?thesis
      using True fl mem1 onq_less [of _ "tx_frames ?s"] completed_inv [OF comp inv ff] completed_linked [OF comp link, of ff]
        completed_batch_data [OF comp inv, of ff] comp
      by (auto simp: new_packets_def tx_fixed_def tx_accepted_def completes_def tx_same_def)
  next
    case False
    then obtain s' w' where w': "send F fuel s data w = Ret (Inr (), s', w')" "tx_inv m s'" "tx_linked T C s' w'" "tx_fixed s s'"
        "onq (tx_frames ?s) \<subseteq> onq (tx_frames s')" "other_frames_kept m ?s w1 w'" "tx_accepted s' = Suc (tx_accepted s)"
        "(new_packets m T w w', batch_data s' w') = tx_spec_send (batch_size s) data ([], batch_data s w)"
      using send_accepts [OF plat inv link counts prog data run ff comp] fl by blast
    have "\<forall>i \<in> in_flight C s w. \<forall>a \<in> chunk m s i. mem w' a = mem w a"
      using w'(6) fl False mem1 onq_less [of _ "tx_frames ?s"]
      by (metis other_frames_kept_def chunk_completed completed_simps(1,2) length_mark_free)
    then show ?thesis using w'(1-5,7,8) fl False by auto
  qed
qed

end
