(* ===== verification/Xsk_Tx_Drain.thy ===== *)
theory Xsk_Tx_Drain
  imports Xsk_Tx_Send
begin

text \<open>
  \<open>drain\<close>: each turn of its loop collects completions and hands a pending batch over; the loop
  returns once the kernel has completed everything.
\<close>

section \<open>Definitions\<close>

text \<open>
  One turn of the loop of \<open>drain\<close> once the batch is gone, and the kernel's progress: everything
  submitted of at most \<open>n\<close> frames comes back on the completion ring within \<open>fuel\<close> turns.
\<close>

definition drain_turn :: "'k ffi \<Rightarrow> XskTx \<times> 'k world \<Rightarrow> XskTx \<times> 'k world" where
  "drain_turn F sw =
     (case complete_frames F (fst sw) (snd sw) of Ret (_, s1, w1) \<Rightarrow> (s1, w1) | _ \<Rightarrow> sw)"

definition settled :: "('k, u64) cons_view \<Rightarrow> XskTx \<times> 'k world \<Rightarrow> bool" where
  "settled C sw \<longleftrightarrow> in_flight C (fst sw) (snd sw) = {}"

definition comp_progress ::
    "'k ffi \<Rightarrow> ('k, xdp_desc) prod_view \<Rightarrow> ('k, u64) cons_view \<Rightarrow> CompQueue \<Rightarrow> nat \<Rightarrow> nat \<Rightarrow> bool" where
  "comp_progress F T C q n fuel \<longleftrightarrow>
     (\<forall>s w. comp_q s = q \<longrightarrow> length (tx_frames s) = n \<longrightarrow> tx_linked T C s w \<longrightarrow>
        (\<exists>j < fuel. settled C ((drain_turn F ^^ j) (s, w))))"

text \<open>The counters have room for what \<open>drain\<close> hands over and collects.\<close>

definition drain_counts ::
    "'k ffi \<Rightarrow> ('k, xdp_desc) prod_view \<Rightarrow> ('k, u64) cons_view \<Rightarrow> XskTx \<Rightarrow> 'k world \<Rightarrow> bool" where
  "drain_counts F T C s w \<longleftrightarrow>
     (let n = outstanding_tx_frames s + cur_batch_size s in
      idx_room F (length (cv_taken C w) + n) \<and> idx_room F (length (pv_subm T w) + cur_batch_size s) \<and>
      pkts_tx (tx_stats s) + cur_batch_size s < 2 ^ 64 \<and> pkts_tx_completed (tx_stats s) + n < 2 ^ 64)"

lemma comp_progress_mono:
  assumes prog: "comp_progress F T C q n fuel" and le: "fuel \<le> fuel'"
  shows "comp_progress F T C q n fuel'"
  unfolding comp_progress_def
proof (intro allI impI)
  fix s w
  assume "comp_q s = q" "length (tx_frames s) = n" "tx_linked T C s w"
  then obtain j where j: "j < fuel" "settled C ((drain_turn F ^^ j) (s, w))"
    using prog unfolding comp_progress_def by metis
  then show "\<exists>j < fuel'. settled C ((drain_turn F ^^ j) (s, w))"
    using le by (intro exI [of _ j]) simp
qed

section \<open>Counters\<close>

lemma linked_lengths:
  assumes "tx_core m s" "tx_linked T C s w"
  shows "length (cv_taken C w) + outstanding_tx_frames s = pkts_tx (tx_stats s)"
    "pkts_tx_completed (tx_stats s) + outstanding_tx_frames s = pkts_tx (tx_stats s)"
proof -
  have "size (image_mset xd_addr (mset (pv_subm T w))) =
      size (mset (cv_taken C w) + image_mset (\<lambda>i. i * unat (tx_frame_size s)) (mset_set (onq (tx_frames s))))"
    using assms(2) unfolding tx_linked_def by metis
  then show "length (cv_taken C w) + outstanding_tx_frames s = pkts_tx (tx_stats s)"
      "pkts_tx_completed (tx_stats s) + outstanding_tx_frames s = pkts_tx (tx_stats s)"
    using assms by (simp_all add: tx_core_def tx_linked_def)
qed

lemma drain_counts_accepted:
  assumes "tx_core m s" "tx_linked T C s w"
  shows "drain_counts F T C s w \<longleftrightarrow> idx_room F (tx_accepted s) \<and> tx_accepted s < 2 ^ 64"
proof -
  note len = linked_lengths [OF assms]
  have "length (cv_taken C w) + (outstanding_tx_frames s + cur_batch_size s) = tx_accepted s"
      "pkts_tx_completed (tx_stats s) + (outstanding_tx_frames s + cur_batch_size s) = tx_accepted s"
      "length (pv_subm T w) + cur_batch_size s = tx_accepted s" "pkts_tx (tx_stats s) + cur_batch_size s = tx_accepted s"
    using len assms(2) by (simp_all add: tx_accepted_def tx_linked_def)
  then show ?thesis unfolding drain_counts_def Let_def by (simp only: conj_ac simp_thms)
qed

lemma tx_fixed_bytes: "tx_fixed s s' \<Longrightarrow> tx_bytes m s' = tx_bytes m s"
  by (simp add: tx_fixed_def tx_bytes_def)

section \<open>One turn\<close>

text \<open>With no batch to hand over, a turn only collects completions.\<close>

lemma drain_body_idle:
  assumes plat: "tx_platform F (tx_q s) (comp_q s) T C K" and core: "tx_core m s" and link: "tx_linked T C s w"
    and cur: "cur_batch_size s = 0" and counts: "drain_counts F T C s w"
  obtains ixs ff w1 where "complete_frames F s w = Ret (length ixs, completed ixs ff s, w1)"
    "drain_body F fuel s w = Ret (completed ixs ff s, w1)" "completes T C K ixs s w w1"
    "tx_core m (completed ixs ff s)" "tx_linked T C (completed ixs ff s) w1"
proof -
  have "idx_room F (length (cv_taken C w) + outstanding_tx_frames s)"
      "pkts_tx_completed (tx_stats s) + outstanding_tx_frames s < 2 ^ 64"
    using counts cur by (simp_all add: drain_counts_def Let_def)
  then obtain ixs ff w1 where run: "complete_frames F s w = Ret (length ixs, completed ixs ff s, w1)"
    and ff: "length ff = length (free_frames s)" and comp: "completes T C K ixs s w w1"
    using complete_frames_ok [OF plat core link] by blast
  have "drain_body F fuel s w = Ret (completed ixs ff s, w1)"
    using run cur by (simp add: drain_body_def put_batch_on_tx_queue_def)
  then show thesis
    using that [OF run] comp completed_core [OF comp core ff] completed_linked [OF comp link] by blast
qed

lemma inv_batch_ready:
  assumes "tx_inv m s" "cur_batch_size s \<noteq> 0"
  shows "batch_ready s" "batch_end s = tx_cursor s" "cur_batch_size s \<le> batch_size s"
proof -
  have cur: "cur_batch_size s \<le> tx_cursor s" "tx_cursor s \<noteq> 0"
    using assms by (auto simp: tx_inv_def)
  then show "batch_end s = tx_cursor s" by (simp add: batch_end_def)
  then show "batch_ready s" using assms cur by (clarsimp simp: batch_ready_def tx_inv_def)
  show "cur_batch_size s \<le> batch_size s" using assms(1) by (simp add: tx_inv_def less_imp_le)
qed

lemma handed_over_packets:
  assumes inv: "tx_inv m s" and w': "same_on (tx_bytes m s) w w'"
    and subm: "pv_subm T w' = pv_subm T w @
      map (\<lambda>i. tx_entry (tx_frames s ! i)) [tx_cursor s - cur_batch_size s..<tx_cursor s]"
  shows "new_packets m T w w' = batch_data s w"
proof -
  have c: "tx_cursor s < length (tx_frames s)" using inv by (simp add: tx_inv_def)
  have "desc_data m w' (tx_entry (tx_frames s ! i)) = frame_data w (tx_frames s ! i)" if "i < tx_cursor s" for i
  proof -
    have i: "i < length (tx_frames s)" using that c by simp
    have "\<forall>a \<in> chunk m s i. mem w' a = mem w a"
      using w' chunk_in_bytes [OF i, of m] by (auto simp: same_on_def)
    then show ?thesis
      using desc_data_entry [OF inv_frame [OF inv i], of w'] frame_data_cong [OF inv_frame [OF inv i], of w' w]
      by simp
  qed
  then show ?thesis using subm by (simp add: new_packets_def batch_data_def)
qed

text \<open>With a batch pending, the turn hands it over.\<close>

lemma drain_body_batch:
  assumes plat: "tx_platform F (tx_q s) (comp_q s) T C (tx_bytes m s)" and inv: "tx_inv m s"
    and link: "tx_linked T C s w" and counts: "drain_counts F T C s w" and cur: "cur_batch_size s \<noteq> 0"
    and prog: "tx_progress F (tx_q s) T (batch_size s) fuel"
  shows "\<exists>s' w'. drain_body F fuel s w = Ret (s', w') \<and> tx_core m s' \<and> tx_linked T C s' w' \<and>
    cur_batch_size s' = 0 \<and> tx_fixed s s' \<and> tx_accepted s' = tx_accepted s \<and> same_on (tx_bytes m s) w w' \<and>
    new_packets m T w w' = batch_data s w \<and>
    pv_subm T w' = pv_subm T w @
      map (\<lambda>i. tx_entry (tx_frames s ! i)) [tx_cursor s - cur_batch_size s..<tx_cursor s]"
proof -
  have core: "tx_core m s" using inv by (simp add: tx_inv_def)
  have "idx_room F (length (cv_taken C w) + outstanding_tx_frames s)"
      "pkts_tx_completed (tx_stats s) + outstanding_tx_frames s < 2 ^ 64"
    using counts by (auto simp: drain_counts_def Let_def intro: idx_room_mono)
  then obtain ixs ff w1 where run: "complete_frames F s w = Ret (length ixs, completed ixs ff s, w1)"
    and ff: "length ff = length (free_frames s)" and comp: "completes T C (tx_bytes m s) ixs s w w1"
    using complete_frames_ok [OF plat core link] by blast
  let ?s = "completed ixs ff s"
  note s1 = completed_inv [OF comp inv ff] completed_linked [OF comp link, of ff] completed_core [OF comp core ff]
  note br = inv_batch_ready [OF s1(1), unfolded completed_simps, OF cur]
  have same: "tx_same T (tx_bytes m s) w w1" using comp by (simp add: completes_def)
  obtain w2 where w2: "put_batch_on_tx_queue F fuel ?s w1 = Ret (handed_over ?s, w2)"
    "tx_linked T C (handed_over ?s) w2" "comp_same C (tx_bytes m s) w1 w2"
    "pv_subm T w2 = pv_subm T w1 @
        map (\<lambda>i. tx_entry (tx_frames ?s ! i)) [tx_cursor s - cur_batch_size s..<tx_cursor s]"
    using put_batch_ok [OF _ s1(3,2) br(1), of F "comp_q s" "tx_bytes m s" "batch_size s" fuel]
      plat prog br(2,3) counts same by (auto simp: drain_counts_def Let_def tx_same_def)
  have "map (\<lambda>i. tx_entry (tx_frames ?s ! i)) [tx_cursor s - cur_batch_size s..<tx_cursor s] =
      map (\<lambda>i. tx_entry (tx_frames s ! i)) [tx_cursor s - cur_batch_size s..<tx_cursor s]"
    using inv by (auto simp: nth_mark_free tx_entry_def tx_inv_def)
  then have subm: "pv_subm T w2 = pv_subm T w @
      map (\<lambda>i. tx_entry (tx_frames s ! i)) [tx_cursor s - cur_batch_size s..<tx_cursor s]"
    using w2(4) same by (simp add: tx_same_def)
  have mem: "same_on (tx_bytes m s) w w2"
    using same w2(3) by (auto simp: tx_same_def comp_same_def intro: same_trans)
  have "tx_fixed s (handed_over ?s)" "tx_accepted (handed_over ?s) = tx_accepted s" "cur_batch_size (handed_over ?s) = 0"
    using handed_over_frames(1) [OF br(1)] by (simp_all add: tx_fixed_def tx_accepted_def handed_over_def)
  moreover have "drain_body F fuel s w = Ret (handed_over ?s, w2)" using run w2(1) by (simp add: drain_body_def)
  ultimately show ?thesis
    using handed_over_core [OF br(1) s1(3)] w2(2) mem subm handed_over_packets [OF inv mem subm] by blast
qed

text \<open>Either way, a turn keeps what draining relies on.\<close>

lemma drain_body_ok:
  assumes plat: "tx_platform F (tx_q s) (comp_q s) T C (tx_bytes m s)" and core: "tx_core m s"
    and link: "tx_linked T C s w" and cur: "cur_batch_size s = 0 \<or> tx_inv m s" and counts: "drain_counts F T C s w"
    and prog: "tx_progress F (tx_q s) T (batch_size s) fuel"
  shows "\<exists>s' w'. drain_body F fuel s w = Ret (s', w') \<and> tx_core m s' \<and> tx_linked T C s' w' \<and>
    cur_batch_size s' = 0 \<and> tx_fixed s s' \<and> tx_accepted s' = tx_accepted s \<and> same_on (tx_bytes m s) w w' \<and>
    new_packets m T w w' = batch_data s w \<and>
    pv_subm T w' = pv_subm T w @
      map (\<lambda>i. tx_entry (tx_frames s ! i)) [tx_cursor s - cur_batch_size s..<tx_cursor s]"
proof (cases "cur_batch_size s = 0")
  case True
  obtain ixs ff w1 where turn: "complete_frames F s w = Ret (length ixs, completed ixs ff s, w1)"
      "drain_body F fuel s w = Ret (completed ixs ff s, w1)" "completes T C (tx_bytes m s) ixs s w w1"
      "tx_core m (completed ixs ff s)" "tx_linked T C (completed ixs ff s) w1"
    using drain_body_idle [OF plat core link True counts] .
  then show ?thesis
    using True by (simp add: tx_fixed_def tx_accepted_def completes_def tx_same_def new_packets_def batch_data_def)
next
  case False
  then have "tx_inv m s" using cur by simp
  then show ?thesis using drain_body_batch [OF plat _ link counts False prog] by blast
qed

section \<open>The loop\<close>

text \<open>Once the batch is gone, the loop waits until the kernel has completed everything.\<close>

lemma drain_idle:
  "tx_platform F (tx_q s) (comp_q s) T C K \<Longrightarrow> tx_core m s \<Longrightarrow> tx_linked T C s w \<Longrightarrow>
   cur_batch_size s = 0 \<Longrightarrow> drain_counts F T C s w \<Longrightarrow> j < fuel \<Longrightarrow> settled C ((drain_turn F ^^ j) (s, w)) \<Longrightarrow>
   \<exists>s' w'. drain F fuel s w = Ret (s', w') \<and> tx_core m s' \<and> tx_linked T C s' w' \<and>
     onq (tx_frames s') = {} \<and> cur_batch_size s' = 0 \<and> tx_same T K w w'"
proof (induction fuel arbitrary: s w j)
  case 0
  then show ?case by simp
next
  case (Suc fuel)
  obtain ixs ff w1 where run: "complete_frames F s w = Ret (length ixs, completed ixs ff s, w1)"
    and body: "drain_body F (Suc fuel) s w = Ret (completed ixs ff s, w1)" and comp: "completes T C K ixs s w w1"
    and core: "tx_core m (completed ixs ff s)" and link: "tx_linked T C (completed ixs ff s) w1"
    using drain_body_idle [OF Suc.prems(1-5)] .
  let ?s = "completed ixs ff s"
  have sz: "0 < unat (tx_frame_size s)" using Suc.prems(2) by (simp add: tx_core_def tx_frames_inv_def)
  have same: "tx_same T K w w1" using comp by (simp add: completes_def)
  have out: "outstanding_tx_frames ?s = card (onq (tx_frames ?s))" using core by (simp add: tx_core_def)
  have counts: "drain_counts F T C ?s w1"
    using drain_counts_accepted [OF Suc.prems(2,3), of F] Suc.prems(5) drain_counts_accepted [OF core link, of F]
    by (simp add: tx_accepted_def)
  show ?case
  proof (cases "outstanding_tx_frames ?s = 0")
    case True
    then have "onq (tx_frames ?s) = {}" using out by simp
    with True body core link same Suc.prems(4) show ?thesis by simp
  next
    case False
    obtain j' where j: "j = Suc j'"
      using False out Suc.prems(7) in_flight_completes [OF comp sz]
      by (cases j) (auto simp: settled_def onq_mark_free simp del: completed_simps(9))
    have "drain_turn F (s, w) = (?s, w1)" using run by (simp add: drain_turn_def)
    then have turn: "settled C ((drain_turn F ^^ j') (?s, w1))" using Suc.prems(7) by (simp add: j funpow_swap1)
    have "\<exists>s' w'. drain F fuel ?s w1 = Ret (s', w') \<and> tx_core m s' \<and> tx_linked T C s' w' \<and>
        onq (tx_frames s') = {} \<and> cur_batch_size s' = 0 \<and> tx_same T K w1 w'"
      using Suc.IH [OF _ core link _ counts _ turn] Suc.prems(1,4,6) j by simp
    then show ?thesis using False body same by (auto intro: same_trans)
  qed
qed

lemma drain_core:
  assumes plat: "tx_platform F (tx_q s) (comp_q s) T C (tx_bytes m s)" and inv: "tx_inv m s"
    and link: "tx_linked T C s w" and counts: "drain_counts F T C s w"
    and prog: "tx_progress F (tx_q s) T (batch_size s) (Suc fuel)" "comp_progress F T C (comp_q s) (length (tx_frames s)) fuel"
  shows "\<exists>s' w'. drain F (Suc fuel) s w = Ret (s', w') \<and> tx_core m s' \<and> tx_linked T C s' w' \<and>
    onq (tx_frames s') = {} \<and> cur_batch_size s' = 0 \<and> new_packets m T w w' = batch_data s w \<and>
    tx_accepted s' = tx_accepted s"
proof -
  have core: "tx_core m s" using inv by (simp add: tx_inv_def)
  obtain s1 w1 where one: "drain_body F (Suc fuel) s w = Ret (s1, w1)" "tx_core m s1" "tx_linked T C s1 w1"
      "cur_batch_size s1 = 0" "tx_fixed s s1" "tx_accepted s1 = tx_accepted s" "same_on (tx_bytes m s) w w1"
      "new_packets m T w w1 = batch_data s w"
      "pv_subm T w1 = pv_subm T w @ map (\<lambda>i. tx_entry (tx_frames s ! i)) [tx_cursor s - cur_batch_size s..<tx_cursor s]"
    using drain_body_ok [OF plat core link _ counts prog(1)] inv by blast
  show ?thesis
  proof (cases "outstanding_tx_frames s1 = 0")
    case True
    then have "onq (tx_frames s1) = {}" using one(2) by (simp add: tx_core_def)
    then show ?thesis using one True by simp
  next
    case False
    have fixed: "tx_q s1 = tx_q s" "comp_q s1 = comp_q s" "length (tx_frames s1) = length (tx_frames s)"
      using one(5) by (simp_all add: tx_fixed_def)
    have counts1: "drain_counts F T C s1 w1"
      using counts one(6) drain_counts_accepted [OF core link, of F] drain_counts_accepted [OF one(2,3), of F] by simp
    obtain j where "j < fuel" "settled C ((drain_turn F ^^ j) (s1, w1))"
      using prog(2) one(3) fixed unfolding comp_progress_def by metis
    then obtain s' w' where s': "drain F fuel s1 w1 = Ret (s', w')" "tx_core m s'" "tx_linked T C s' w'"
        "onq (tx_frames s') = {}" "cur_batch_size s' = 0" "tx_same T (tx_bytes m s) w1 w'"
      using drain_idle [OF _ one(2-4) counts1, of "tx_bytes m s" j fuel] plat fixed by auto
    have "new_packets m T w w' = batch_data s w"
      using one(7,9) s'(6) by (intro handed_over_packets [OF inv]) (auto simp: tx_same_def intro: same_trans)
    moreover have "tx_accepted s' = tx_accepted s1"
      using s'(3,5,6) one(3,4) by (simp add: tx_accepted_def tx_linked_def tx_same_def)
    ultimately show ?thesis using one(1,6) s' False by simp
  qed
qed

end
