(* ===== verification/Xsk_Tx_Run.thy ===== *)
theory Xsk_Tx_Run
  imports Xsk_Tx_Drain
begin

text \<open>
  \<open>send_apply\<close>, the failures of the transmit end, and whole runs: any interleaving of sends with
  steps of the kernel.
\<close>

section \<open>Definitions\<close>

text \<open>The bytes of a frame; \<open>send_apply\<close> lends those of the frame at the cursor to its closure.\<close>

definition frame_region :: "MmapArea \<Rightarrow> XskTx \<Rightarrow> nat \<Rightarrow> 'k world \<Rightarrow> u8 list" where
  "frame_region m s i w = bytes_at w (mem_ptr m + i * unat (tx_frame_size s)) (unat (tx_frame_size s))"

abbreviation cursor_region :: "MmapArea \<Rightarrow> XskTx \<Rightarrow> 'k world \<Rightarrow> u8 list" where
  "cursor_region m s w \<equiv> frame_region m s (tx_cursor s) w"

text \<open>The platform keeps its promises, the state is well-formed, and nothing is about to overflow.\<close>

definition tx_ready ::
    "'k ffi \<Rightarrow> ('k, xdp_desc) prod_view \<Rightarrow> ('k, u64) cons_view \<Rightarrow> MmapArea \<Rightarrow> nat \<Rightarrow> XskTx \<Rightarrow> 'k world \<Rightarrow> bool" where
  "tx_ready F T C m fuel s w \<longleftrightarrow>
     tx_platform F (tx_q s) (comp_q s) T C (tx_bytes m s) \<and> tx_inv m s \<and> tx_linked T C s w \<and>
     tx_counts F T C s w \<and> tx_progress F (tx_q s) T (batch_size s) fuel"

text \<open>
  A run of the transmit end: the state, the world, the packets accepted by \<open>send\<close> and
  \<open>send_apply\<close> so far and the packets handed to the kernel so far. Between calls the kernel
  moves on; it may complete frames but neither submits, takes nor changes the memory of the frames.
\<close>

inductive tx_run ::
    "'k ffi \<Rightarrow> nat \<Rightarrow> MmapArea \<Rightarrow> ('k, xdp_desc) prod_view \<Rightarrow> ('k, u64) cons_view \<Rightarrow> XskTx \<Rightarrow> 'k world \<Rightarrow>
     XskTx \<Rightarrow> 'k world \<Rightarrow> u8 list list \<Rightarrow> u8 list list \<Rightarrow> bool"
  for F fuel m T C s0 w0 where
  run_start: "tx_run F fuel m T C s0 w0 s0 w0 [] []"
| run_send:
    "tx_run F fuel m T C s0 w0 s w acc handed \<Longrightarrow> tx_counts F T C s w \<Longrightarrow>
     length data \<le> frame_mtu (tx_frames s ! tx_cursor s) \<Longrightarrow>
     send F fuel s data w = Ret (r, s', w') \<Longrightarrow>
     tx_run F fuel m T C s0 w0 s' w' (acc @ (case r of Inl _ \<Rightarrow> [] | Inr _ \<Rightarrow> [data]))
       (handed @ new_packets m T w w')"
| run_apply:
    "tx_run F fuel m T C s0 w0 s w acc handed \<Longrightarrow> tx_counts F T C s w \<Longrightarrow>
     f () (cursor_region m s w) = Ret (len, bytes, ()) \<Longrightarrow> len \<le> unat (tx_frame_size s) \<Longrightarrow>
     send_apply F fuel s f () w = Ret (r, s', (), w') \<Longrightarrow>
     tx_run F fuel m T C s0 w0 s' w' (acc @ (case r of Inl _ \<Rightarrow> [] | Inr _ \<Rightarrow> [map bytes [0..<len]]))
       (handed @ new_packets m T w w')"
| run_kernel:
    "tx_run F fuel m T C s0 w0 s w acc handed \<Longrightarrow> pv_ok T w' \<Longrightarrow> tx_same T (tx_bytes m s) w w' \<Longrightarrow>
     comp_same C (tx_bytes m s) w w' \<Longrightarrow> tx_run F fuel m T C s0 w0 s w' acc handed"

section \<open>Sending in place\<close>

lemma send_apply_writes:
  assumes run: "complete_frames F s w = Ret (k, s1, w1)" and inv: "tx_inv m s1"
    and free: "tx_cursor s1 \<notin> onq (tx_frames s1)"
    and reg: "reg = bytes_at w1 (mem_ptr m + tx_cursor s1 * unat (tx_frame_size s1)) (unat (tx_frame_size s1))"
    and f: "f c reg = Ret (len, bytes, c')"
  shows "send_apply F fuel s f c w =
     bindO (advance F fuel (written len s1)
         (region_store m (tx_cursor s1 * unat (tx_frame_size s1)) (map bytes [0..<unat (tx_frame_size s1)]) w1))
       (\<lambda>(r, s2, w3). Ret (r, s2, c', w3))"
proof -
  let ?f = "tx_frames s1 ! tx_cursor s1" and ?sz = "unat (tx_frame_size s1)"
  have c: "tx_cursor s1 < length (tx_frames s1)" using inv by (simp add: tx_inv_def)
  have fr: "tx_frame_ok m ?sz (tx_cursor s1) ?f" using inv_frame [OF inv c] .
  then have st: "frame_status ?f = Free" using free c by (auto simp: onq_def tx_frame_ok_def)
  have "umem_region_mut ?f (as_usize (tx_frame_size s1)) w1 = Ret reg"
    using fr mem_range_in [of "frame_mmap ?f" "frame_addr ?f" ?sz w1] reg
    by (auto simp: umem_region_mut_def mem_range_mut_eq tx_frame_ok_def placed_def as_usize_def)
  then show ?thesis
    using run c st f fr reg
    by (simp add: send_apply_def written_def Let_def tx_frame_ok_def placed_def)
qed

lemma send_apply_blocked:
  assumes "complete_frames F s w = Ret (k, s1, w1)" "tx_cursor s1 \<in> onq (tx_frames s1)"
  shows "send_apply F fuel s f c w = Ret (Inl NoFreeTxFrames, s1, c, w1)"
  using assms by (simp add: send_apply_def onq_def)

lemma send_ready:
  assumes "tx_ready F T C m fuel s w" "length data \<le> frame_mtu (tx_frames s ! tx_cursor s)"
  shows "\<exists>r s' w'. send F fuel s data w = Ret (r, s', w') \<and> tx_inv m s' \<and> tx_linked T C s' w' \<and>
    tx_fixed s s' \<and> in_flight C s w \<subseteq> onq (tx_frames s') \<and>
    (\<forall>i \<in> in_flight C s w. \<forall>a \<in> chunk m s i. mem w' a = mem w a) \<and>
    (if tx_cursor s \<in> in_flight C s w
     then r = Inl NoFreeTxFrames \<and> tx_accepted s' = tx_accepted s \<and>
       new_packets m T w w' = [] \<and> batch_data s' w' = batch_data s w
     else r = Inr () \<and> tx_accepted s' = Suc (tx_accepted s) \<and>
       (new_packets m T w w', batch_data s' w') = tx_spec_send (batch_size s) data ([], batch_data s w))"
  using send_core [of F s T C m w fuel data] assms by (simp add: tx_ready_def)

lemma length_frame_region [simp]: "length (frame_region m s i w) = unat (tx_frame_size s)"
  by (simp add: frame_region_def)

lemma cursor_region_same:
  assumes "tx_inv m s" "same_on (tx_bytes m s) w w'"
  shows "cursor_region m s w' = cursor_region m s w"
proof -
  have "tx_cursor s < length (tx_frames s)" using assms(1) by (simp add: tx_inv_def)
  then have "chunk m s (tx_cursor s) \<subseteq> tx_bytes m s" by (rule chunk_in_bytes)
  then have "mem w' a = mem w a" if "a \<in> chunk m s (tx_cursor s)" for a
    using that assms(2) by (auto simp: same_on_def)
  then show ?thesis unfolding frame_region_def by (intro bytes_at_cong) (simp add: chunk_def)
qed

lemma region_chunk:
  assumes "\<forall>a \<in> chunk m s i. mem w' a = mem w a"
  shows "frame_region m s i w' = frame_region m s i w"
  unfolding frame_region_def by (rule bytes_at_cong) (use assms in \<open>simp add: chunk_alt\<close>)

text \<open>The frames after the bytes \<open>bs\<close> were stored at the cursor and nothing else was written.\<close>

lemma regions_stored:
  assumes i: "i < length (tx_frames s)" and bs: "length bs = unat (tx_frame_size s)"
    and w2: "w2 = region_store m (tx_cursor s * unat (tx_frame_size s)) bs w1"
    and cur: "\<forall>a \<in> chunk m s (tx_cursor s). mem w' a = mem w2 a" and rest: "other_frames_kept m s w1 w'"
    and same: "same_on (tx_bytes m s) w w1"
  shows "frame_region m s i w' = (if i = tx_cursor s then bs else frame_region m s i w)"
proof (cases "i = tx_cursor s")
  case True
  then show ?thesis
    using region_chunk [OF cur] bytes_at_store_same [of m "tx_cursor s * unat (tx_frame_size s)" bs w1] bs
    by (simp add: frame_region_def w2)
next
  case False
  then have "\<forall>a \<in> chunk m s i. mem w' a = mem w1 a" using rest i by (simp add: other_frames_kept_def)
  moreover have "\<forall>a \<in> chunk m s i. mem w1 a = mem w a"
    using same chunk_in_bytes [OF i, of m] by (auto simp: same_on_def)
  ultimately show ?thesis using False region_chunk [of m s i w' w] by simp
qed

lemma send_apply_ready:
  assumes ready: "tx_ready F T C m fuel s w" and free: "tx_cursor s \<notin> in_flight C s w"
    and f: "f c (cursor_region m s w) = Ret (len, bytes, c')" and len: "len \<le> unat (tx_frame_size s)"
  shows "\<exists>s' w'. send_apply F fuel s f c w = Ret (Inr (), s', c', w') \<and> tx_inv m s' \<and> tx_linked T C s' w' \<and>
    tx_fixed s s' \<and> tx_accepted s' = Suc (tx_accepted s) \<and>
    (\<forall>i < length (tx_frames s). frame_region m s i w' =
       (if i = tx_cursor s then map bytes [0..<unat (tx_frame_size s)] else frame_region m s i w)) \<and>
    (new_packets m T w w', batch_data s' w') =
      tx_spec_send (batch_size s) (map bytes [0..<len]) ([], batch_data s w)"
proof -
  have R: "tx_platform F (tx_q s) (comp_q s) T C (tx_bytes m s)" "tx_inv m s" "tx_linked T C s w"
    "tx_counts F T C s w" "tx_progress F (tx_q s) T (batch_size s) fuel"
    using ready by (simp_all add: tx_ready_def)
  have core: "tx_core m s" and sz: "0 < unat (tx_frame_size s)"
    using R(2) by (simp_all add: tx_inv_def tx_core_def tx_frames_inv_def)
  obtain ixs ff w1 where run: "complete_frames F s w = Ret (length ixs, completed ixs ff s, w1)"
    and ff: "length ff = length (free_frames s)" and comp: "completes T C (tx_bytes m s) ixs s w w1"
    using complete_frames_ok [OF R(1) core R(3)] R(4) by (auto simp: tx_counts_def)
  let ?s = "completed ixs ff s" and ?sz = "unat (tx_frame_size s)" and ?bs = "map bytes [0..<unat (tx_frame_size s)]"
  have free1: "tx_cursor ?s \<notin> onq (tx_frames ?s)"
    using free in_flight_completes [OF comp sz] by (simp add: onq_mark_free)
  note s1 = completed_inv [OF comp R(2) ff] completed_linked [OF comp R(3), of ff]
  have same: "same_on (tx_bytes m s) w w1" "pv_subm T w1 = pv_subm T w"
    using comp by (simp_all add: completes_def tx_same_def)
  have reg: "cursor_region m s w = bytes_at w1 (mem_ptr m + tx_cursor ?s * unat (tx_frame_size ?s)) (unat (tx_frame_size ?s))"
    using cursor_region_same [OF R(2) same(1)] by (simp add: frame_region_def)
  define w2 where "w2 = region_store m (tx_cursor ?s * ?sz) ?bs w1"
  have snd: "send_apply F fuel s f c w =
      bindO (advance F fuel (written len ?s) w2) (\<lambda>(r, s2, w3). Ret (r, s2, c', w3))"
    using send_apply_writes [OF run s1(1) free1 reg, of f c len bytes c' fuel] f by (simp add: w2_def)
  have stored: "bytes_at w2 (mem_ptr m + tx_cursor ?s * ?sz) k = map bytes [0..<k]" if "k \<le> ?sz" for k
    using that by (intro nth_equalityI) (auto simp: w2_def region_store_def)
  then obtain s' w' where w': "advance F fuel (written len ?s) w2 = Ret (Inr (), s', w')" "tx_inv m s'" "tx_linked T C s' w'"
      "tx_fixed ?s s'" "other_frames_kept m ?s w1 w'" "\<forall>a \<in> chunk m s (tx_cursor s). mem w' a = mem w2 a"
      "tx_accepted s' = Suc (tx_accepted ?s)" "(new_packets m T w1 w', batch_data s' w') = tx_spec_send (batch_size s) (map bytes [0..<len]) ([], batch_data ?s w1)"
    using write_advance [OF _ s1 free1 completed_counts [OF comp core R(4), of ff], of "comp_q s" fuel len ?bs w2]
      R(1,5) len by (auto simp: w2_def)
  have "(new_packets m T w w', batch_data s' w') = tx_spec_send (batch_size s) (map bytes [0..<len]) ([], batch_data s w)"
    using w'(8) completed_batch_data [OF comp R(2), of ff] same(2) by (simp add: new_packets_def)
  moreover have "other_frames_kept m s w1 w'" using w'(5) by (simp add: other_frames_kept_def)
  then have "frame_region m s i w' = (if i = tx_cursor s then ?bs else frame_region m s i w)"
    if "i < length (tx_frames s)" for i
    using regions_stored [OF that _ _ w'(6) _ same(1)] by (simp add: w2_def)
  moreover have "tx_fixed s s'" "tx_accepted s' = Suc (tx_accepted s)"
    using w'(4,7) by (simp_all add: tx_fixed_def tx_accepted_def)
  ultimately show ?thesis using snd w'(1-3) by auto
qed

lemma send_apply_busy:
  assumes ready: "tx_ready F T C m fuel s w" and busy: "tx_cursor s \<in> in_flight C s w"
  shows "\<exists>s' w'. send_apply F fuel s f c w = Ret (Inl NoFreeTxFrames, s', c, w') \<and> tx_inv m s' \<and> tx_linked T C s' w' \<and>
    tx_fixed s s' \<and> tx_accepted s' = tx_accepted s \<and> new_packets m T w w' = [] \<and> batch_data s' w' = batch_data s w"
proof -
  have R: "tx_platform F (tx_q s) (comp_q s) T C (tx_bytes m s)" "tx_inv m s" "tx_linked T C s w" "tx_counts F T C s w"
    using ready by (simp_all add: tx_ready_def)
  then have core: "tx_core m s" and sz: "0 < unat (tx_frame_size s)"
    by (simp_all add: tx_inv_def tx_core_def tx_frames_inv_def)
  obtain ixs ff w1 where run: "complete_frames F s w = Ret (length ixs, completed ixs ff s, w1)"
    and ff: "length ff = length (free_frames s)" and comp: "completes T C (tx_bytes m s) ixs s w w1"
    using complete_frames_ok [OF R(1) core R(3)] R(4) by (auto simp: tx_counts_def)
  have "tx_cursor (completed ixs ff s) \<in> onq (tx_frames (completed ixs ff s))"
    using busy in_flight_completes [OF comp sz] by (simp add: onq_mark_free)
  then have "send_apply F fuel s f c w = Ret (Inl NoFreeTxFrames, completed ixs ff s, c, w1)"
    by (rule send_apply_blocked [OF run])
  then show ?thesis
    using completed_inv [OF comp R(2) ff] completed_linked [OF comp R(3)] completed_batch_data [OF comp R(2)] comp
    by (auto simp: tx_fixed_def tx_accepted_def new_packets_def completes_def tx_same_def)
qed

section \<open>Failures\<close>

lemma put_batch_misaligned:
  assumes cur: "0 < tx_cursor s" "tx_cursor s < cur_batch_size s" "cur_batch_size s < 2 ^ 64"
  shows "put_batch_on_tx_queue F fuel s w = Panic (if overflow_checks F then ArithOverflow else OutOfRange)"
proof -
  have "\<not> 2 ^ 64 + tx_cursor s - cur_batch_size s \<le> tx_cursor s" using cur by linarith
  then show ?thesis
    using cur by (simp add: put_batch_on_tx_queue_def batch_range_def sub64_def sliceO_def Let_def)
qed

section \<open>Runs\<close>

lemma tx_spec_send_append:
  assumes "(new, pend') = tx_spec_send b data ([], pend)"
  shows "new @ pend' = pend @ [data]"
  using assms by (auto split: if_splits)

lemma batch_data_kernel:
  assumes "tx_inv m s" "same_on (tx_bytes m s) w w'"
  shows "batch_data s w' = batch_data s w"
proof -
  have c: "tx_cursor s < length (tx_frames s)" using assms(1) by (simp add: tx_inv_def)
  have "frame_data w' (tx_frames s ! i) = frame_data w (tx_frames s ! i)" if "i < tx_cursor s" for i
  proof (rule frame_data_cong [OF inv_frame [OF assms(1)]])
    show i: "i < length (tx_frames s)" using that c by simp
    show "\<forall>a \<in> chunk m s i. mem w' a = mem w a"
      using assms(2) chunk_in_bytes [OF i, of m] by (auto simp: same_on_def)
  qed
  then show ?thesis by (simp add: batch_data_def)
qed

lemma tx_run_inv:
  assumes run: "tx_run F fuel m T C s0 w0 s w acc handed"
    and plat: "tx_platform F (tx_q s0) (comp_q s0) T C (tx_bytes m s0)"
    and prog: "tx_progress F (tx_q s0) T (batch_size s0) fuel"
    and start: "tx_inv m s0" "tx_linked T C s0 w0"
  shows "tx_inv m s \<and> tx_linked T C s w \<and> tx_fixed s0 s \<and>
    tx_accepted s = tx_accepted s0 + length acc \<and> batch_data s0 w0 @ acc = handed @ batch_data s w"
  using run
proof induction
  case run_start
  then show ?case using start by (simp add: tx_fixed_def)
next
  case (run_send s w acc handed data r s' w')
  then have s: "tx_inv m s" "tx_linked T C s w" "tx_fixed s0 s" "batch_data s0 w0 @ acc = handed @ batch_data s w"
      "tx_accepted s = tx_accepted s0 + length acc" by simp_all
  have plat': "tx_platform F (tx_q s) (comp_q s) T C (tx_bytes m s)"
    and prog': "tx_progress F (tx_q s) T (batch_size s) fuel"
    using plat prog s(3) tx_fixed_bytes [OF s(3), of m] by (simp_all add: tx_fixed_def)
  have res: "tx_inv m s'" "tx_linked T C s' w'" "tx_fixed s s'"
    "if tx_cursor s \<in> in_flight C s w
     then r = Inl NoFreeTxFrames \<and> tx_accepted s' = tx_accepted s \<and>
       new_packets m T w w' = [] \<and> batch_data s' w' = batch_data s w
     else r = Inr () \<and> tx_accepted s' = Suc (tx_accepted s) \<and>
       (new_packets m T w w', batch_data s' w') = tx_spec_send (batch_size s) data ([], batch_data s w)"
    using send_core [OF plat' s(1,2) run_send.hyps(2) prog' run_send.hyps(3)] run_send.hyps(4) by auto
  have "new_packets m T w w' @ batch_data s' w' = batch_data s w @ (case r of Inl _ \<Rightarrow> [] | Inr _ \<Rightarrow> [data])"
    using res(4) tx_spec_send_append [of "new_packets m T w w'" "batch_data s' w'" _ data]
    by (auto split: if_splits simp del: tx_spec_send.simps)
  moreover have "tx_accepted s' = tx_accepted s + length (case r of Inl _ \<Rightarrow> [] | Inr _ \<Rightarrow> [data])"
    using res(4) by (auto split: if_splits)
  ultimately show ?case using res(1-3) s(3-5) by (auto simp: tx_fixed_def)
next
  case (run_apply s w acc handed f len bytes r s' w')
  then have s: "tx_inv m s" "tx_linked T C s w" "tx_fixed s0 s" "batch_data s0 w0 @ acc = handed @ batch_data s w"
      "tx_accepted s = tx_accepted s0 + length acc" by simp_all
  then have ready: "tx_ready F T C m fuel s w"
    using plat prog run_apply.hyps(2) tx_fixed_bytes [OF s(3), of m] by (simp add: tx_ready_def tx_fixed_def)
  have res: "tx_inv m s'" "tx_linked T C s' w'" "tx_fixed s s'"
    "new_packets m T w w' @ batch_data s' w' = batch_data s w @ (case r of Inl _ \<Rightarrow> [] | Inr _ \<Rightarrow> [map bytes [0..<len]])"
    "tx_accepted s' = tx_accepted s + length (case r of Inl _ \<Rightarrow> [] | Inr _ \<Rightarrow> [map bytes [0..<len]])"
    using send_apply_busy [OF ready, of f "()"] send_apply_ready [OF ready, of f "()" len bytes "()"]
      run_apply.hyps(3-5) tx_spec_send_append [of "new_packets m T w w'" "batch_data s' w'"]
    by (cases "tx_cursor s \<in> in_flight C s w"; auto simp del: tx_spec_send.simps)+
  then show ?case using s(3-5) by (auto simp: tx_fixed_def)
next
  case (run_kernel s w acc handed w')
  then show ?case
    using batch_data_kernel [of m s w w'] by (auto simp: tx_linked_def tx_same_def comp_same_def)
qed


end
