(* ===== verification/Xsk_Rx.thy ===== *)
theory Xsk_Rx
  imports Socket_Queues
begin

text \<open>
  \<^verbatim>\<open>src/src/xsk/rx.rs\<close>: the receive end. The state is the record \<open>XskRx\<close>; the loops
  that give frames back to the fill ring take a fuel argument and end in \<open>Spin\<close> when it runs
  out. Log output is left out.
\<close>

section \<open>Data\<close>

record RxStats =
  pkts_rx :: u64
  pkts_rx_delivered :: u64
  rx_start_time :: nat
  rx_end_time :: nat

definition RxStats_new :: "'k ffi \<Rightarrow> 'k world \<Rightarrow> RxStats" where
  "RxStats_new F w =
     \<lparr>pkts_rx = 0, pkts_rx_delivered = 0, rx_start_time = instant_now F w,
      rx_end_time = instant_now F w\<rparr>"

definition RxStats_duration :: "RxStats \<Rightarrow> nat" where
  "RxStats_duration st = rx_end_time st - rx_start_time st"

record XskRx =
  fill_q :: FillQueue
  rx_q :: RxQueue
  rx_frames :: "Frame list"
  filled_frames :: "(usize \<times> usize \<times> u32) list"
  processed_frames :: "Frame list"
  rx_frame_offset :: usize
  n_frames_to_be_filled :: u64
  rx_frame_size :: u32
  rx_cursor :: usize
  poll_ms_timeout :: i32
  rx_stats :: RxStats

section \<open>Operations\<close>

definition XskRx_new ::
    "'k ffi \<Rightarrow> RxQueue \<Rightarrow> FillQueue \<Rightarrow> Frame list \<Rightarrow> u32 \<Rightarrow> 'k world \<Rightarrow> (XskRx \<times> 'k world) outcome" where
  "XskRx_new F rxq fq frames frame_sz w =
     bindO (nthO frames 0) (\<lambda>f0.
       bindO (FillQueue_produce F fq frames w) (\<lambda>(_, w').
         Ret (\<lparr>fill_q = fq, rx_q = rxq, rx_frames = frames,
               filled_frames = replicate (length frames) (0, 0, 0), processed_frames = [],
               rx_frame_offset = frame_addr f0, n_frames_to_be_filled = length frames,
               rx_frame_size = frame_sz, rx_cursor = 0, poll_ms_timeout = 0,
               rx_stats = RxStats_new F w'\<rparr>, w')))"

text \<open>
  The first part of \<open>recv\<close> and of \<open>recv_apply\<close>: polling, taking descriptors, counting them,
  and waking the fill queue up when there were none.
\<close>

definition recv_poll :: "'k ffi \<Rightarrow> XskRx \<Rightarrow> 'k world \<Rightarrow> (usize \<times> XskRx \<times> 'k world) outcome" where
  "recv_poll F s w =
     (let chk = overflow_checks F in
      bindO (RxQueue_poll_and_consume F (rx_q s) (n_frames_to_be_filled s) (filled_frames s)
               (poll_ms_timeout s) w) (\<lambda>(r, q, ff, w1).
        bindO (unwrapR r) (\<lambda>n.
          bindO (add64 chk (pkts_rx (rx_stats s)) n) (\<lambda>rx.
            bindO (sub64 chk (n_frames_to_be_filled s) n) (\<lambda>left.
              let s1 = s\<lparr>rx_q := q, filled_frames := ff, n_frames_to_be_filled := left,
                         rx_stats := (rx_stats s)\<lparr>pkts_rx := rx\<rparr>\<rparr> in
              if n = 0 \<and> FillQueue_needs_wakeup F (fill_q s1) w1 then
                (case FillQueue_wakeup F (fill_q s1) (rq_fd q) (poll_ms_timeout s1) w1 of
                   (r', fd, w2) \<Rightarrow>
                     bindO (unwrapR r') (\<lambda>_. Ret (n, s1\<lparr>rx_q := q\<lparr>rq_fd := fd\<rparr>\<rparr>, w2)))
              else Ret (n, s1, w1))))))"

text \<open>The frame a descriptor belongs to.\<close>

definition rx_frame_index :: "bool \<Rightarrow> XskRx \<Rightarrow> usize \<Rightarrow> usize outcome" where
  "rx_frame_index chk s a =
     bindO (sub32 chk (as_u32 a) (as_u32 (rx_frame_offset s))) (\<lambda>d.
       bindO (div32 d (rx_frame_size s)) (\<lambda>i. Ret (as_usize i)))"

definition set_desc :: "usize \<times> usize \<times> u32 \<Rightarrow> Frame \<Rightarrow> Frame" where
  "set_desc d f = (case d of (a, n, opts) \<Rightarrow> set_options opts (set_len n (set_addr a f)))"

fun fill_loop ::
    "bool \<Rightarrow> XskRx \<Rightarrow> (usize \<times> usize \<times> u32) list \<Rightarrow> Frame list \<Rightarrow> Frame list outcome" where
  "fill_loop chk s [] frames = Ret frames"
| "fill_loop chk s (d # ds) frames =
     bindO (rx_frame_index chk s (fst d)) (\<lambda>i.
       bindO (nthO frames i) (\<lambda>f.
         fill_loop chk s ds (frames[i := (set_desc d f)\<lparr>frame_status := Filled\<rparr>])))"

definition update_rx_frames :: "bool \<Rightarrow> XskRx \<Rightarrow> usize \<Rightarrow> XskRx outcome" where
  "update_rx_frames chk s n_frames_recv =
     bindO (sliceO (filled_frames s) 0 n_frames_recv) (\<lambda>ds.
       bindO (fill_loop chk s ds (rx_frames s)) (\<lambda>frames. Ret (s\<lparr>rx_frames := frames\<rparr>)))"

text \<open>
  \<open>while fill_q.produce_and_wakeup(frames, rx_q.fd(), timeout).unwrap() != frames.len() {}\<close>; the
  descriptor of the socket is polled through, so it is returned.
\<close>

fun refill_loop ::
    "'k ffi \<Rightarrow> nat \<Rightarrow> FillQueue \<Rightarrow> Frame list \<Rightarrow> Fd \<Rightarrow> i32 \<Rightarrow> 'k world \<Rightarrow> (Fd \<times> 'k world) outcome" where
  "refill_loop F 0 q frames fd timeout w = Spin"
| "refill_loop F (Suc fuel) q frames fd timeout w =
     bindO (FillQueue_produce_and_wakeup F q frames fd timeout w) (\<lambda>(r, fd1, w1).
       bindO (unwrapR r) (\<lambda>n.
         if n = length frames then Ret (fd1, w1) else refill_loop F fuel q frames fd1 timeout w1))"

text \<open>
  \<open>recv\<close> returns the length and the caller's buffer; \<open>recv_deliver\<close> is the \<open>match\<close> on the
  frame at the cursor.
\<close>

definition recv_deliver ::
    "'k ffi \<Rightarrow> nat \<Rightarrow> XskRx \<Rightarrow> u8 list \<Rightarrow> 'k world \<Rightarrow> (usize \<times> u8 list \<times> XskRx \<times> 'k world) outcome" where
  "recv_deliver F fuel s pkt w =
     (let chk = overflow_checks F in
      bindO (nthO (rx_frames s) (rx_cursor s)) (\<lambda>f.
        case frame_status f of
          Filled \<Rightarrow>
            bindO (read_from_umem_checked f (frame_len f) w) (\<lambda>r.
              bindO (expectR ''rx: failed to read from umem'' r) (\<lambda>data.
                bindO (sliceO pkt 0 (frame_len f)) (\<lambda>_.
                  bindO (add64 chk (rx_cursor s) 1) (\<lambda>c1.
                    bindO (sliceO (rx_frames s) (rx_cursor s) c1) (\<lambda>frames.
                      bindO (refill_loop F fuel (fill_q s) frames (rq_fd (rx_q s)) (poll_ms_timeout s) w)
                        (\<lambda>(fd, w1).
                          bindO (add64 chk (pkts_rx_delivered (rx_stats s)) 1) (\<lambda>del.
                            bindO (add64 chk (n_frames_to_be_filled s) 1) (\<lambda>n.
                              bindO (rem64 c1 (length (rx_frames s))) (\<lambda>cursor.
                                Ret (frame_len f, data @ drop (frame_len f) pkt,
                                     s\<lparr>rx_q := (rx_q s)\<lparr>rq_fd := fd\<rparr>,
                                       rx_frames := (rx_frames s)[rx_cursor s := f\<lparr>frame_status := Free\<rparr>],
                                       n_frames_to_be_filled := n, rx_cursor := cursor,
                                       rx_stats := (rx_stats s)\<lparr>pkts_rx_delivered := del\<rparr>\<rparr>, w1))))))))))
        | _ \<Rightarrow> Ret (0, pkt, s, w)))"

definition recv ::
    "'k ffi \<Rightarrow> nat \<Rightarrow> XskRx \<Rightarrow> u8 list \<Rightarrow> 'k world \<Rightarrow> (usize \<times> u8 list \<times> XskRx \<times> 'k world) outcome" where
  "recv F fuel s pkt_receiver w =
     bindO (recv_poll F s w) (\<lambda>(n, s1, w1).
       bindO (update_rx_frames (overflow_checks F) s1 n) (\<lambda>s2.
         recv_deliver F fuel s2 pkt_receiver w1))"

text \<open>
  The loop of \<open>apply_batch\<close>: each received frame is updated, shown to the closure \<open>f\<close>, which
  threads its captured state \<open>'c\<close>, and copied to \<open>processed_frames\<close>.
\<close>

fun apply_loop ::
    "bool \<Rightarrow> XskRx \<Rightarrow> ('c \<Rightarrow> u8 list \<Rightarrow> 'c outcome) \<Rightarrow> (usize \<times> usize \<times> u32) list \<Rightarrow> Frame list \<Rightarrow>
     Frame list \<Rightarrow> 'c \<Rightarrow> 'k world \<Rightarrow> (Frame list \<times> Frame list \<times> 'c) outcome" where
  "apply_loop chk s f [] frames processed c w = Ret (frames, processed, c)"
| "apply_loop chk s f (d # ds) frames processed c w =
     bindO (rx_frame_index chk s (fst d)) (\<lambda>i.
       bindO (nthO frames i) (\<lambda>fr.
         let fr' = set_desc d fr in
         bindO (read_from_umem fr' (frame_len fr') w) (\<lambda>data.
           bindO (f c data) (\<lambda>c'.
             apply_loop chk s f ds (frames[i := fr']) (processed @ [fr']) c' w))))"

definition apply_batch ::
    "'k ffi \<Rightarrow> nat \<Rightarrow> XskRx \<Rightarrow> usize \<Rightarrow> ('c \<Rightarrow> u8 list \<Rightarrow> 'c outcome) \<Rightarrow> 'c \<Rightarrow> 'k world \<Rightarrow>
     ('c \<times> XskRx \<times> 'k world) outcome" where
  "apply_batch F fuel s n_frames_recv f c w =
     (let chk = overflow_checks F in
      bindO (sliceO (filled_frames s) 0 n_frames_recv) (\<lambda>ds.
        bindO (apply_loop chk s f ds (rx_frames s) (processed_frames s) c w) (\<lambda>(frames, processed, c').
          bindO (refill_loop F fuel (fill_q s) processed (rq_fd (rx_q s)) (poll_ms_timeout s) w) (\<lambda>(fd, w1).
            bindO (add64 chk (pkts_rx_delivered (rx_stats s)) n_frames_recv) (\<lambda>del.
              bindO (add64 chk (n_frames_to_be_filled s) n_frames_recv) (\<lambda>n.
                Ret (c', s\<lparr>rx_q := (rx_q s)\<lparr>rq_fd := fd\<rparr>, rx_frames := frames, processed_frames := [],
                           n_frames_to_be_filled := n,
                           rx_stats := (rx_stats s)\<lparr>pkts_rx_delivered := del\<rparr>\<rparr>, w1)))))))"

definition recv_apply ::
    "'k ffi \<Rightarrow> nat \<Rightarrow> XskRx \<Rightarrow> ('c \<Rightarrow> u8 list \<Rightarrow> 'c outcome) \<Rightarrow> 'c \<Rightarrow> 'k world \<Rightarrow>
     ('c \<times> XskRx \<times> 'k world) outcome" where
  "recv_apply F fuel s f c w =
     bindO (recv_poll F s w) (\<lambda>(n, s1, w1).
       if 0 < n then apply_batch F fuel s1 n f c w1 else Ret (c, s1, w1))"

definition XskRx_stats :: "'k ffi \<Rightarrow> XskRx \<Rightarrow> 'k world \<Rightarrow> RxStats" where
  "XskRx_stats F s w = (rx_stats s)\<lparr>rx_end_time := instant_now F w\<rparr>"

end
