(* ===== verification/Xsk_Rx_Inv.thy ===== *)
theory Xsk_Rx_Inv
  imports Xsk_Rx
begin

text \<open>
  The receive end: what the platform promises for its two rings, the invariant of \<open>XskRx\<close> with
  the kernel, and the lemmas on placing received descriptors. A frame is marked \<open>Filled\<close> exactly
  while the program holds it; every other frame is on the fill ring, with the kernel, or waiting on
  the receive ring.
\<close>

section \<open>Definitions\<close>

text \<open>The kernel identifies a buffer by the chunk its address falls into.\<close>

definition fill_chunks :: "nat \<Rightarrow> ('k, u64) prod_view \<Rightarrow> 'k world \<Rightarrow> nat multiset" where
  "fill_chunks sz P w = image_mset (\<lambda>a. a div sz) (mset (pv_subm P w))"

definition desc_chunks :: "nat \<Rightarrow> xdp_desc list \<Rightarrow> nat multiset" where
  "desc_chunks sz ds = image_mset (\<lambda>d. xd_addr d div sz) (mset ds)"

definition kernel_chunks ::
    "nat \<Rightarrow> ('k, u64) prod_view \<Rightarrow> ('k, xdp_desc) cons_view \<Rightarrow> 'k world \<Rightarrow> nat set" where
  "kernel_chunks sz P R w = set_mset (fill_chunks sz P w - desc_chunks sz (cv_taken R w))"

definition chunk_bytes :: "MmapArea \<Rightarrow> nat \<Rightarrow> nat \<Rightarrow> nat set" where
  "chunk_bytes m sz j = {mem_ptr m + j * sz..<mem_ptr m + j * sz + sz}"

definition same_in :: "MmapArea \<Rightarrow> nat \<Rightarrow> nat set \<Rightarrow> 'k world \<Rightarrow> 'k world \<Rightarrow> bool" where
  "same_in m sz J w w' \<longleftrightarrow> (\<forall>j \<in> J. \<forall>a \<in> chunk_bytes m sz j. mem w' a = mem w a)"

definition fill_same :: "('k, u64) prod_view \<Rightarrow> 'k world \<Rightarrow> 'k world \<Rightarrow> bool" where
  "fill_same P w w' \<longleftrightarrow> pv_subm P w' = pv_subm P w \<and> pv_resv P w' = pv_resv P w"

definition rx_same :: "('k, xdp_desc) cons_view \<Rightarrow> 'k world \<Rightarrow> 'k world \<Rightarrow> bool" where
  "rx_same R w w' \<longleftrightarrow> cv_taken R w' = cv_taken R w \<and> cv_peek R w' = cv_peek R w"

text \<open>
  The documented behaviour of the receive pair: each ring obeys its contract and neither disturbs
  the other; polling fails only when interrupted and moves nothing; every descriptor on the receive
  ring names a buffer that was on the fill ring, and its packet stays inside that buffer's chunk;
  the kernel writes only to the chunks it holds.
\<close>

definition received_law :: "nat \<Rightarrow> ('k, u64) prod_view \<Rightarrow> ('k, xdp_desc) cons_view \<Rightarrow> bool" where
  "received_law sz P R \<longleftrightarrow>
     (\<forall>w. pv_ok P w \<longrightarrow>
        desc_chunks sz (cv_taken R w) + desc_chunks sz (cv_pend R w) \<subseteq># fill_chunks sz P w \<and>
        (\<forall>d \<in> set (cv_pend R w). xd_addr d mod sz + unat (xd_len d) \<le> sz))"

definition rx_poll_law ::
    "'k ffi \<Rightarrow> ('k, u64) prod_view \<Rightarrow> ('k, xdp_desc) cons_view \<Rightarrow> bool" where
  "rx_poll_law F P R \<longleftrightarrow>
     poll_law F \<and>
     (\<forall>c t w x w'. pv_ok P w \<longrightarrow> libc_poll F c t w = (x, w') \<longrightarrow>
        pv_ok P w' \<and> fill_same P w w' \<and> rx_same R w w')"

definition rx_platform ::
    "'k ffi \<Rightarrow> FillQueue \<Rightarrow> RxQueue \<Rightarrow> nat \<Rightarrow> ('k, u64) prod_view \<Rightarrow> ('k, xdp_desc) cons_view \<Rightarrow> bool" where
  "rx_platform F fq rq sz P R \<longleftrightarrow>
     fill_contract F fq P \<and> rx_contract F rq R \<and> cv_ok R = pv_ok P \<and>
     (\<forall>w. keeps (pv_ok P) (fill_same P w) (rx_ops F rq)) \<and>
     (\<forall>w. keeps (pv_ok P) (rx_same R w) (fill_ops F fq)) \<and>
     rx_poll_law F P R \<and> received_law sz P R"

text \<open>Ownership of memory: chunks the kernel does not hold keep their contents.\<close>

definition poll_ops :: "'k ffi \<Rightarrow> ('k world \<Rightarrow> 'k world) set" where
  "poll_ops F = {\<lambda>w. snd (libc_poll F c t w) |c t. True}"

definition rx_memory ::
    "'k ffi \<Rightarrow> FillQueue \<Rightarrow> RxQueue \<Rightarrow> MmapArea \<Rightarrow> nat \<Rightarrow> ('k, u64) prod_view \<Rightarrow>
     ('k, xdp_desc) cons_view \<Rightarrow> bool" where
  "rx_memory F fq rq m sz P R \<longleftrightarrow>
     (\<forall>f \<in> rx_ops F rq \<union> poll_ops F. \<forall>w J. pv_ok P w \<longrightarrow> J \<inter> kernel_chunks sz P R w = {} \<longrightarrow>
        J \<inter> kernel_chunks sz P R (f w) = {} \<and> same_in m sz J w (f w)) \<and>
     (\<forall>f \<in> fill_ops F fq. \<forall>w J. pv_ok P w \<longrightarrow> J \<inter> kernel_chunks sz P R (f w) = {} \<longrightarrow>
        J \<inter> kernel_chunks sz P R w = {} \<and> same_in m sz J w (f w))"

text \<open>The invariant.\<close>

definition filled :: "Frame list \<Rightarrow> nat set" where
  "filled frames = {i. i < length frames \<and> frame_status (frames ! i) = Filled}"

definition lent :: "Frame list \<Rightarrow> nat set" where
  "lent frames = {i. i < length frames \<and> frame_status (frames ! i) \<noteq> Filled}"

definition rx_frame_ok :: "MmapArea \<Rightarrow> nat \<Rightarrow> nat \<Rightarrow> Frame \<Rightarrow> bool" where
  "rx_frame_ok m sz j f \<longleftrightarrow>
     frame_addr f div sz = j \<and> frame_addr f mod sz + frame_len f \<le> sz \<and> frame_mmap f = m \<and>
     j * sz + sz \<le> area_len m \<and> frame_status f \<in> {Free, Filled}"

definition rx_frames_inv :: "MmapArea \<Rightarrow> nat \<Rightarrow> nat \<Rightarrow> Frame list \<Rightarrow> bool" where
  "rx_frames_inv m base sz frames \<longleftrightarrow>
     0 < sz \<and> (base + length frames) * sz \<le> 2 ^ 32 \<and>
     (\<forall>i < length frames. rx_frame_ok m sz (base + i) (frames ! i))"

definition rx_core :: "MmapArea \<Rightarrow> nat \<Rightarrow> XskRx \<Rightarrow> bool" where
  "rx_core m base s \<longleftrightarrow>
     rx_frames_inv m base (unat (rx_frame_size s)) (rx_frames s) \<and>
     rx_frame_offset s = base * unat (rx_frame_size s) \<and>
     length (filled_frames s) = length (rx_frames s) \<and> processed_frames s = [] \<and>
     rx_cursor s < length (rx_frames s)"

definition rx_inv :: "MmapArea \<Rightarrow> nat \<Rightarrow> XskRx \<Rightarrow> bool" where
  "rx_inv m base s \<longleftrightarrow>
     rx_core m base s \<and> n_frames_to_be_filled s = card (lent (rx_frames s)) \<and>
     pkts_rx (rx_stats s) = pkts_rx_delivered (rx_stats s) + card (filled (rx_frames s))"

definition rx_linked ::
    "('k, u64) prod_view \<Rightarrow> ('k, xdp_desc) cons_view \<Rightarrow> nat \<Rightarrow> XskRx \<Rightarrow> 'k world \<Rightarrow> bool" where
  "rx_linked P R base s w \<longleftrightarrow>
     pv_ok P w \<and> pv_resv P w = 0 \<and> cv_peek R w = 0 \<and>
     fill_chunks (unat (rx_frame_size s)) P w =
       desc_chunks (unat (rx_frame_size s)) (cv_taken R w) +
       image_mset ((+) base) (mset_set (lent (rx_frames s)))"

text \<open>Storing descriptors into their frames, with (\<open>recv\<close>) or without (\<open>recv_apply\<close>) marking them.\<close>

fun place :: "(Frame \<Rightarrow> Frame) \<Rightarrow> (nat \<times> xdp_desc) list \<Rightarrow> Frame list \<Rightarrow> Frame list" where
  "place g [] frames = frames"
| "place g ((i, d) # ps) frames = place g ps (frames[i := g (set_desc (rx_entry d) (frames ! i))])"

definition desc_fits :: "nat \<Rightarrow> nat \<Rightarrow> nat \<times> xdp_desc \<Rightarrow> bool" where
  "desc_fits base sz p \<longleftrightarrow>
     xd_addr (snd p) div sz = base + fst p \<and> xd_addr (snd p) mod sz + unat (xd_len (snd p)) \<le> sz"

section \<open>Lemmas\<close>

lemma finite_filled [simp]: "finite (filled frames)" "finite (lent frames)"
  by (simp_all add: filled_def lent_def)

lemma filled_lent: "filled frames \<union> lent frames = {..<length frames}" "filled frames \<inter> lent frames = {}"
  by (auto simp: filled_def lent_def)

lemma card_lent: "card (lent frames) + card (filled frames) = length frames"
  using card_Un_disjoint [of "filled frames" "lent frames"] filled_lent [of frames] by simp

lemma rx_frame_index_ok:
  assumes base: "rx_frame_offset s = base * sz" "sz = unat (rx_frame_size s)" "0 < sz"
    and n: "(base + n) * sz \<le> 2 ^ 32" "i < n" and a: "a div sz = base + i"
  shows "rx_frame_index chk s a = Ret i"
proof -
  have "a < Suc (a div sz) * sz" using base(3) dividend_less_div_times [of sz a] by simp
  also have "\<dots> \<le> (base + n) * sz" using a n(2) by (intro mult_le_mono1) simp
  finally have a32: "a < 2 ^ 32" using n(1) by linarith
  have ge: "base * sz \<le> a"
  proof -
    have "base * sz \<le> a div sz * sz" using a by (intro mult_le_mono1) simp
    then show ?thesis using div_times_less_eq_dividend [of a sz] by linarith
  qed
  then have u: "unat (as_u32 a) = a" "unat (as_u32 (base * sz)) = base * sz"
    using a32 by simp_all
  have "as_u32 (base * sz) \<le> as_u32 a" using ge u by (simp add: word_le_nat_alt)
  then have sub: "sub32 chk (as_u32 a) (as_u32 (base * sz)) = Ret (as_u32 a - as_u32 (base * sz))"
    "unat (as_u32 a - as_u32 (base * sz)) = a - base * sz"
    using u by (auto simp: sub32_def unat_sub)
  obtain b where b: "a = b + base * sz" using ge by (metis add.commute le_Suc_ex)
  then have "(a - base * sz) div sz = i" using a base(3) by simp
  then show ?thesis
    using sub base by (auto simp: rx_frame_index_def div32_def as_usize_def unat_div)
qed

text \<open>A placed descriptor keeps its frame well-formed, and the frames it does not name as they are.\<close>

lemma rx_frame_ok_set_desc:
  assumes "rx_frame_ok m sz (base + i) f" "desc_fits base sz (i, d)"
  shows "rx_frame_ok m sz (base + i) (set_desc (rx_entry d) f)"
    "rx_frame_ok m sz (base + i) ((set_desc (rx_entry d) f)\<lparr>frame_status := Filled\<rparr>)"
  using assms
  by (simp_all add: rx_frame_ok_def desc_fits_def set_desc_def rx_entry_def set_defs as_usize_def)

lemma length_place [simp]: "length (place g ps frames) = length frames"
  by (induction g ps frames rule: place.induct) simp_all

lemma rx_frames_inv_update:
  assumes "rx_frames_inv m base sz frames" "i < length frames \<Longrightarrow> rx_frame_ok m sz (base + i) f"
  shows "rx_frames_inv m base sz (frames[i := f])"
  using assms by (cases "i < length frames") (simp_all add: rx_frames_inv_def nth_list_update list_update_beyond)

lemma rx_frames_inv_set_desc:
  assumes "rx_frames_inv m base sz frames" "desc_fits base sz (i, d)"
    and "g = id \<or> g = frame_status_update (\<lambda>_. Filled)"
  shows "rx_frames_inv m base sz (frames[i := g (set_desc (rx_entry d) (frames ! i))])"
proof (rule rx_frames_inv_update [OF assms(1)])
  assume "i < length frames"
  then have "rx_frame_ok m sz (base + i) (frames ! i)" using assms(1) by (simp add: rx_frames_inv_def)
  then show "rx_frame_ok m sz (base + i) (g (set_desc (rx_entry d) (frames ! i)))"
    using rx_frame_ok_set_desc [OF _ assms(2)] assms(3) by auto
qed

lemma place_inv:
  assumes "g = id \<or> g = frame_status_update (\<lambda>_. Filled)"
  shows "rx_frames_inv m base sz frames \<Longrightarrow> \<forall>p \<in> set ps. desc_fits base sz p \<Longrightarrow>
    rx_frames_inv m base sz (place g ps frames)"
proof (induction ps arbitrary: frames)
  case Nil
  then show ?case by simp
next
  case (Cons p ps)
  then show ?case using rx_frames_inv_set_desc [OF _ _ assms] by (cases p) simp
qed

lemma place_other:
  "j \<notin> fst ` set ps \<Longrightarrow> place g ps frames ! j = frames ! j"
  by (induction g ps frames rule: place.induct) auto

lemma place_nth:
  "distinct (map fst ps) \<Longrightarrow> (i, d) \<in> set ps \<Longrightarrow> i < length frames \<Longrightarrow>
   place g ps frames ! i = g (set_desc (rx_entry d) (frames ! i))"
proof (induction g ps frames rule: place.induct)
  case (1 g frames)
  then show ?case by simp
next
  case (2 g j e ps frames)
  show ?case
  proof (cases "(i, d) = (j, e)")
    case True
    then have "i \<notin> fst ` set ps" using 2(2) by auto
    then show ?thesis using True 2(4) by (simp add: place_other)
  next
    case False
    then have "(i, d) \<in> set ps" "i \<noteq> j" using 2(2,3) by (auto simp: image_iff)
    then show ?thesis using 2 by simp
  qed
qed

lemma place_filled:
  assumes "distinct (map fst ps)" "fst ` set ps \<subseteq> {..<length frames}"
  shows "filled (place (frame_status_update (\<lambda>_. Filled)) ps frames) = filled frames \<union> fst ` set ps"
    "lent (place (frame_status_update (\<lambda>_. Filled)) ps frames) = lent frames - fst ` set ps"
    "lent (place id ps frames) = lent frames" "filled (place id ps frames) = filled frames"
proof -
  define D where "D = fst ` set ps"
  have st: "frame_status (place (frame_status_update (\<lambda>_. Filled)) ps frames ! i) =
      (if i \<in> D then Filled else frame_status (frames ! i))" if "i < length frames" for i
    using place_nth [OF assms(1) _ that] that by (auto simp: D_def place_other image_iff)
  have id: "frame_status (place id ps frames ! i) = frame_status (frames ! i)" if "i < length frames" for i
    using place_nth [OF assms(1) _ that, of _ id] that
    by (cases "i \<in> fst ` set ps") (auto simp: place_other set_desc_def rx_entry_def set_defs)
  show "filled (place (frame_status_update (\<lambda>_. Filled)) ps frames) = filled frames \<union> fst ` set ps"
    "lent (place (frame_status_update (\<lambda>_. Filled)) ps frames) = lent frames - fst ` set ps"
    using st assms(2) unfolding D_def [symmetric] by (auto simp: filled_def lent_def subset_iff split: if_splits)
  show "lent (place id ps frames) = lent frames" "filled (place id ps frames) = filled frames"
    using id by (auto simp: filled_def lent_def)
qed

text \<open>\<open>update_rx_frames\<close> finds the frame of every received descriptor.\<close>

lemma fill_loop_ok:
  assumes "rx_frame_offset s = base * sz" "sz = unat (rx_frame_size s)"
  shows "rx_frames_inv m base sz frames \<Longrightarrow> \<forall>p \<in> set ps. desc_fits base sz p \<and> fst p < length frames \<Longrightarrow>
    fill_loop chk s (map (\<lambda>p. rx_entry (snd p)) ps) frames =
      Ret (place (frame_status_update (\<lambda>_. Filled)) ps frames)"
proof (induction ps arbitrary: frames)
  case Nil
  then show ?case by simp
next
  case (Cons p ps)
  obtain i d where p: "p = (i, d)" by force
  have i: "i < length frames" "desc_fits base sz (i, d)" using Cons.prems(2) p by auto
  have "rx_frame_index chk s (xd_addr d) = Ret i"
    using rx_frame_index_ok [OF assms, of "length frames" i "xd_addr d"] Cons.prems(1) i
    by (simp add: rx_frames_inv_def desc_fits_def)
  moreover have "rx_frames_inv m base sz (frames[i := (set_desc (rx_entry d) (frames ! i))\<lparr>frame_status := Filled\<rparr>])"
    using rx_frames_inv_set_desc [OF Cons.prems(1) i(2)] by simp
  then have "fill_loop chk s (map (\<lambda>p. rx_entry (snd p)) ps)
      (frames[i := (set_desc (rx_entry d) (frames ! i))\<lparr>frame_status := Filled\<rparr>]) =
      Ret (place (frame_status_update (\<lambda>_. Filled)) (p # ps) frames)"
    using Cons.IH [of "frames[i := (set_desc (rx_entry d) (frames ! i))\<lparr>frame_status := Filled\<rparr>]"]
      Cons.prems(2) p by simp
  ultimately show ?case using i(1) p by (simp add: rx_entry_def)
qed

end
