(* ===== verification/Xsk_Rx_Ops.thy ===== *)
theory Xsk_Rx_Ops
  imports Xsk_Rx_Inv
begin

text \<open>
  The steps the public operations of \<open>XskRx\<close> are made of: polling and taking descriptors, and
  giving frames back to the fill ring.
\<close>

section \<open>Definitions\<close>

text \<open>Received descriptors with the frames they belong to, and the state once they are taken.\<close>

definition tagged :: "nat \<Rightarrow> nat \<Rightarrow> xdp_desc list \<Rightarrow> (nat \<times> xdp_desc) list" where
  "tagged base sz ds = map (\<lambda>d. (xd_addr d div sz - base, d)) ds"

definition rx_got :: "nat \<Rightarrow> XskRx \<Rightarrow> xdp_desc list \<Rightarrow> bool" where
  "rx_got base s ds \<longleftrightarrow>
     (let ps = tagged base (unat (rx_frame_size s)) ds in
      distinct (map fst ps) \<and> fst ` set ps \<subseteq> lent (rx_frames s) \<and>
      (\<forall>p \<in> set ps. desc_fits base (unat (rx_frame_size s)) p))"

definition polled :: "RxQueue \<Rightarrow> xdp_desc list \<Rightarrow> XskRx \<Rightarrow> XskRx" where
  "polled q ds s =
     s\<lparr>rx_q := q, filled_frames := map rx_entry ds @ drop (length ds) (filled_frames s),
       n_frames_to_be_filled := n_frames_to_be_filled s - length ds,
       rx_stats := (rx_stats s)\<lparr>pkts_rx := pkts_rx (rx_stats s) + length ds\<rparr>\<rparr>"

text \<open>The counters and ring indices have room for all frames the kernel holds.\<close>

definition rx_counts ::
    "'k ffi \<Rightarrow> ('k, u64) prod_view \<Rightarrow> ('k, xdp_desc) cons_view \<Rightarrow> XskRx \<Rightarrow> 'k world \<Rightarrow> bool" where
  "rx_counts F P R s w \<longleftrightarrow>
     idx_room F (length (cv_taken R w) + length (rx_frames s)) \<and>
     idx_room F (length (pv_subm P w) + length (rx_frames s)) \<and>
     pkts_rx (rx_stats s) + length (rx_frames s) < 2 ^ 64"

text \<open>
  One more turn of a loop that gives frames back, and the kernel's progress: within \<open>fuel\<close>
  attempts the fill ring has room for at most \<open>n\<close> frames.
\<close>

definition fill_retry :: "'k ffi \<Rightarrow> FillQueue \<Rightarrow> Frame list \<Rightarrow> 'k world \<Rightarrow> 'k world" where
  "fill_retry F q frames w = (case FillQueue_produce F q frames w of Ret (_, w') \<Rightarrow> w' | _ \<Rightarrow> w)"

definition fill_progress ::
    "'k ffi \<Rightarrow> FillQueue \<Rightarrow> ('k, u64) prod_view \<Rightarrow> nat \<Rightarrow> nat \<Rightarrow> bool" where
  "fill_progress F q P n fuel \<longleftrightarrow>
     (\<forall>w frames. pv_ok P w \<longrightarrow> pv_resv P w = 0 \<longrightarrow> length frames \<le> n \<longrightarrow>
        (\<exists>j < fuel. length frames \<le> pv_free P ((fill_retry F q frames ^^ j) w)))"

section \<open>Taking descriptors\<close>

lemma rx_platformD:
  assumes "rx_platform F fq rq sz P R"
  shows "fill_contract F fq P" "rx_contract F rq R" "cv_ok R = pv_ok P"
    "keeps (pv_ok P) (fill_same P w) (rx_ops F rq)" "keeps (pv_ok P) (rx_same R w) (fill_ops F fq)"
    "rx_poll_law F P R" "received_law sz P R" "poll_law F"
  using assms by (simp_all add: rx_platform_def rx_poll_law_def)

lemma rx_same_refl [simp]: "fill_same P w w" "rx_same R w w"
  by (simp_all add: fill_same_def rx_same_def)

lemma poll_step:
  assumes "rx_poll_law F P R" "pv_ok P w" "keeps (pv_ok P) I (poll_ops F)" "I w"
    and "w' = snd (libc_poll F c t w)"
  shows "pv_ok P w'" "fill_same P w w'" "rx_same R w w'" "I w'"
proof -
  obtain x where x: "libc_poll F c t w = (x, w')" using assms(5) by (metis prod.collapse)
  show "pv_ok P w'" "fill_same P w w'" "rx_same R w w'"
    using assms(1,2) x unfolding rx_poll_law_def by blast+
  have "(\<lambda>w. snd (libc_poll F c t w)) \<in> poll_ops F" by (auto simp: poll_ops_def)
  from bspec [OF assms(3) [unfolded keeps_def] this] show "I w'" using assms(2,4,5) by simp
qed

lemma length_tagged [simp]: "map snd (tagged base sz ds) = ds" "length (tagged base sz ds) = length ds"
  by (simp_all add: tagged_def o_def)

lemma rx_got_pending:
  assumes law: "received_law sz P R" and ok: "pv_ok P w" and sz: "sz = unat (rx_frame_size s)"
    and link: "fill_chunks sz P w = desc_chunks sz (cv_taken R w) + image_mset ((+) base) (mset_set (lent (rx_frames s)))"
  shows "rx_got base s (cv_pend R w)" "length (cv_pend R w) \<le> card (lent (rx_frames s))"
proof -
  let ?ds = "cv_pend R w"
  have law': "desc_chunks sz (cv_taken R w) + desc_chunks sz ?ds \<subseteq># fill_chunks sz P w"
      "\<forall>d \<in> set ?ds. xd_addr d mod sz + unat (xd_len d) \<le> sz"
    using law ok unfolding received_law_def by blast+
  have sub: "mset (map (\<lambda>d. xd_addr d div sz) ?ds) \<subseteq># mset_set ((+) base ` lent (rx_frames s))"
    using law'(1) link by (simp add: desc_chunks_def image_mset_mset_set)
  note A = mset_subset_mset_set [OF sub finite_imageI [OF finite_filled(2)]]
  have chunk: "xd_addr d div sz \<in> (+) base ` lent (rx_frames s)" if "d \<in> set ?ds" for d
    using A(2) that by auto
  then have resume: "base + (xd_addr d div sz - base) = xd_addr d div sz" if "d \<in> set ?ds" for d
    using that by fastforce
  have "map (\<lambda>d. xd_addr d div sz) ?ds = map ((+) base) (map fst (tagged base sz ?ds))"
    using resume by (simp add: tagged_def)
  with A(1) have "distinct (map ((+) base) (map fst (tagged base sz ?ds)))" by (simp only:)
  then have "distinct (map fst (tagged base sz ?ds))"
    by (rule distinct_map [THEN iffD1, THEN conjunct1])
  moreover have "fst ` set (tagged base sz ?ds) \<subseteq> lent (rx_frames s)"
    using chunk by (fastforce simp: tagged_def)
  moreover have "\<forall>p \<in> set (tagged base sz ?ds). desc_fits base sz p"
    using law'(2) resume by (auto simp: tagged_def desc_fits_def)
  ultimately show "rx_got base s ?ds" using sz by (simp add: rx_got_def Let_def)
  show "length ?ds \<le> card (lent (rx_frames s))"
    using size_mset_mono [OF sub] by (simp add: card_image)
qed

lemma rx_contract_fd [simp]:
  "rx_contract F (q\<lparr>rq_fd := fd\<rparr>) R = rx_contract F q R" "rx_ops F (q\<lparr>rq_fd := fd\<rparr>) = rx_ops F q"
  by (simp_all add: rx_contract_def rx_ops_def)

lemma poll_and_consume_ok:
  assumes plat: "rx_platform F (fill_q s) (rx_q s) (unat (rx_frame_size s)) P R"
    and inv: "rx_inv m base s" and link: "rx_linked P R base s w" and counts: "rx_counts F P R s w"
    and I: "keeps (pv_ok P) I (rx_ops F (rx_q s))" "keeps (pv_ok P) I (poll_ops F)" "I w"
  shows "\<exists>fd ds w'. RxQueue_poll_and_consume F (rx_q s) (n_frames_to_be_filled s) (filled_frames s) (poll_ms_timeout s) w =
      Ret (Inr (length ds), (rx_q s)\<lparr>rq_fd := fd\<rparr>, map rx_entry ds @ drop (length ds) (filled_frames s), w') \<and>
    rx_got base s ds \<and> length ds \<le> n_frames_to_be_filled s \<and> pv_ok P w' \<and> fill_same P w w' \<and>
    cv_taken R w' = cv_taken R w @ ds \<and> cv_peek R w' = 0 \<and> I w' \<and> (ds = [] \<or> (\<exists>v. I v \<and> ds = cv_pend R v))"
proof -
  note P = rx_platformD [OF plat]
  let ?n = "n_frames_to_be_filled s" and ?q = "rx_q s" and ?t = "poll_ms_timeout s"
  have n: "?n = card (lent (rx_frames s))" "?n \<le> length (filled_frames s)" "?n \<le> length (rx_frames s)"
    using inv card_lent [of "rx_frames s"] by (simp_all add: rx_inv_def rx_core_def)
  have ok: "pv_ok P w" "cv_peek R w = 0" using link by (simp_all add: rx_linked_def)
  obtain b fd c where rd: "poll_read F (rq_fd ?q) ?t w = (Inr b, fd, snd (libc_poll F c ?t w))"
    using poll_read_ok [OF P(8)] by metis
  define w1 where "w1 = snd (libc_poll F c ?t w)"
  note w1 = poll_step [OF P(6) ok(1) I(2,3) w1_def]
  have got: "rx_got base s (cv_pend R w1)" "length (cv_pend R w1) \<le> ?n"
    using rx_got_pending [OF P(7) w1(1) refl, of base] w1(2,3) link n(1)
    by (simp_all add: fill_same_def rx_same_def fill_chunks_def rx_linked_def)
  show ?thesis
  proof (cases b)
    case True
    let ?ds = "cv_pend R w1" and ?I = "\<lambda>w'. fill_same P w1 w' \<and> I w'"
    have keep: "keeps (cv_ok R) ?I (rx_ops F (?q\<lparr>rq_fd := fd\<rparr>))"
      using P(3) P(4) [of w1] I(1) by (simp add: keeps_def)
    have room: "idx_room F (length (cv_taken R w1) + length ?ds)"
      using counts w1(3) got(2) n(3) by (auto simp: rx_counts_def rx_same_def intro: idx_room_mono)
    obtain w2 where w2: "RxQueue_consume F (?q\<lparr>rq_fd := fd\<rparr>) ?n (filled_frames s) w1 =
        Ret (length ?ds, map rx_entry ?ds @ drop (length ?ds) (filled_frames s), w2)"
      "pv_ok P w2" "cv_peek R w2 = 0" "cv_taken R w2 = cv_taken R w1 @ ?ds" "fill_same P w1 w2" "I w2"
      using rxq.consume_ok [OF _ _ _ _ _ room keep, of ?n "filled_frames s"] P(2,3) w1 ok got(2) n(2)
      by (auto simp: rx_same_def min_absorb2)
    moreover have "\<exists>v. I v \<and> ?ds = cv_pend R v" using w1(4) by blast
    ultimately show ?thesis
      using True rd w1 got
      by (intro exI [of _ fd] exI [of _ ?ds] exI [of _ w2])
        (auto simp: RxQueue_poll_and_consume_def w1_def [symmetric] fill_same_def rx_same_def)
  next
    case False
    have "rx_got base s []" by (simp add: rx_got_def tagged_def)
    then show ?thesis
      using False rd w1 ok(2)
      by (intro exI [of _ fd] exI [of _ "[]"] exI [of _ w1])
        (simp add: RxQueue_poll_and_consume_def w1_def [symmetric] rx_same_def)
  qed
qed

lemma wakeup_step:
  assumes "rx_poll_law F P R" "pv_ok P w" "keeps (pv_ok P) I (poll_ops F)" "I w"
  obtains fd' w' where "FillQueue_wakeup F q fd t w = (Inr (), fd', w')"
    "pv_ok P w'" "fill_same P w w'" "rx_same R w w'" "I w'"
proof -
  have "poll_law F" using assms(1) by (simp add: rx_poll_law_def)
  then obtain b fd' c where "poll_read F fd t w = (Inr b, fd', snd (libc_poll F c t w))"
    using poll_read_ok by metis
  then have "FillQueue_wakeup F q fd t w = (Inr (), fd', snd (libc_poll F c t w))"
    by (simp add: FillQueue_wakeup_def)
  then show thesis using poll_step [OF assms refl] that by blast
qed

lemma recv_poll_from:
  assumes plat: "rx_platform F (fill_q s) (rx_q s) (unat (rx_frame_size s)) P R"
    and inv: "rx_inv m base s" and link: "rx_linked P R base s w" and counts: "rx_counts F P R s w"
    and I: "keeps (pv_ok P) I (rx_ops F (rx_q s))" "keeps (pv_ok P) I (poll_ops F)" "I w"
  shows "\<exists>q ds w'. recv_poll F s w = Ret (length ds, polled q ds s, w') \<and>
    rq_inner q = rq_inner (rx_q s) \<and> rx_got base s ds \<and> pv_ok P w' \<and> fill_same P w w' \<and>
    cv_taken R w' = cv_taken R w @ ds \<and> cv_peek R w' = 0 \<and> I w' \<and> (ds = [] \<or> (\<exists>v. I v \<and> ds = cv_pend R v))"
proof -
  let ?q = "rx_q s" and ?t = "poll_ms_timeout s"
  obtain fd ds w2 where ds: "RxQueue_poll_and_consume F ?q (n_frames_to_be_filled s) (filled_frames s) ?t w =
      Ret (Inr (length ds), ?q\<lparr>rq_fd := fd\<rparr>, map rx_entry ds @ drop (length ds) (filled_frames s), w2)"
    "rx_got base s ds" "length ds \<le> n_frames_to_be_filled s" "pv_ok P w2" "fill_same P w w2"
    "cv_taken R w2 = cv_taken R w @ ds" "cv_peek R w2 = 0" "I w2" "ds = [] \<or> (\<exists>v. I v \<and> ds = cv_pend R v)"
    using poll_and_consume_ok [OF assms] by blast
  have "n_frames_to_be_filled s \<le> length (rx_frames s)"
    using inv card_lent [of "rx_frames s"] by (simp add: rx_inv_def)
  then have small: "pkts_rx (rx_stats s) + length ds < 2 ^ 64"
    using counts ds(3) by (simp add: rx_counts_def)
  show ?thesis
  proof (cases "length ds = 0 \<and> FillQueue_needs_wakeup F (fill_q s) w2")
    case True
    obtain fd' w3 where wake: "FillQueue_wakeup F (fill_q s) fd ?t w2 = (Inr (), fd', w3)"
      and w3: "pv_ok P w3" "fill_same P w2 w3" "rx_same R w2 w3" "I w3"
      using wakeup_step [OF rx_platformD(6) [OF plat] ds(4) I(2) ds(8)] .
    have "recv_poll F s w = Ret (length ds, polled (?q\<lparr>rq_fd := fd'\<rparr>) ds s, w3)"
      using ds(1) True small wake by (simp add: recv_poll_def Let_def polled_def)
    then show ?thesis
      using w3 ds by (intro exI [of _ "?q\<lparr>rq_fd := fd'\<rparr>"] exI [of _ ds] exI [of _ w3])
        (auto simp: fill_same_def rx_same_def)
  next
    case False
    have "recv_poll F s w = Ret (length ds, polled (?q\<lparr>rq_fd := fd\<rparr>) ds s, w2)"
      using ds(1,3) False small by (auto simp: recv_poll_def Let_def polled_def)
    then show ?thesis using ds by (intro exI [of _ "?q\<lparr>rq_fd := fd\<rparr>"] exI [of _ ds] exI [of _ w2]) auto
  qed
qed

lemma recv_poll_ok:
  assumes "rx_platform F (fill_q s) (rx_q s) (unat (rx_frame_size s)) P R"
    and "rx_inv m base s" and "rx_linked P R base s w" and "rx_counts F P R s w"
    and "keeps (pv_ok P) I (rx_ops F (rx_q s))" "keeps (pv_ok P) I (poll_ops F)" "I w"
  shows "\<exists>q ds w'. recv_poll F s w = Ret (length ds, polled q ds s, w') \<and>
    rq_inner q = rq_inner (rx_q s) \<and> rx_got base s ds \<and> pv_ok P w' \<and> fill_same P w w' \<and>
    cv_taken R w' = cv_taken R w @ ds \<and> cv_peek R w' = 0 \<and> I w'"
  using recv_poll_from [OF assms] by blast

section \<open>Giving frames back\<close>

text \<open>One attempt submits all frames or, when the ring has no room, none.\<close>

lemma refill_attempt:
  assumes plat: "rx_platform F q rq sz P R"
    and I: "keeps (pv_ok P) I (fill_ops F q)" "keeps (pv_ok P) I (poll_ops F)" "I w"
    and w: "pv_ok P w" "pv_resv P w = 0" "idx_room F (length (pv_subm P w) + length frames)"
  defines "fits \<equiv> length frames \<le> pv_free P w"
  shows "\<exists>fd' w'. FillQueue_produce_and_wakeup F q frames fd t w = Ret (Inr (if fits then length frames else 0), fd', w') \<and>
    pv_ok P w' \<and> pv_resv P w' = 0 \<and> rx_same R w w' \<and> I w' \<and>
    pv_subm P w' = pv_subm P w @ (if fits then map frame_addr frames else []) \<and>
    (\<not> fits \<longrightarrow> w' = fill_retry F q frames w)"
proof -
  note P = rx_platformD [OF plat]
  let ?I = "\<lambda>w'. rx_same R w w' \<and> I w'"
  have keep: "keeps (pv_ok P) ?I (fill_ops F q)" using P(5) [of w] I(1) by (simp add: keeps_def)
  obtain w1 where w1: "FillQueue_produce F q frames w = Ret (if fits then length frames else 0, w1)"
    "pv_ok P w1" "pv_resv P w1 = 0" "rx_same R w w1" "I w1"
    "pv_subm P w1 = pv_subm P w @ (if fits then map frame_addr frames else [])"
    using fill.produce_total [OF P(1) w keep] I(3) by (auto simp: fits_def)
  show ?thesis
  proof (cases "fits \<and> 0 < length frames \<and> FillQueue_needs_wakeup F q w1")
    case True
    obtain fd' w2 where wake: "FillQueue_wakeup F q fd t w1 = (Inr (), fd', w2)"
      and w2: "pv_ok P w2" "fill_same P w1 w2" "rx_same R w1 w2" "I w2"
      using wakeup_step [OF P(6) w1(2) I(2) w1(5)] .
    then show ?thesis
      using True w1 by (auto simp: FillQueue_produce_and_wakeup_def fill_same_def rx_same_def)
  next
    case False
    then show ?thesis
      using w1 by (intro exI [of _ fd] exI [of _ w1]) (auto simp: FillQueue_produce_and_wakeup_def fill_retry_def)
  qed
qed

lemma refill_loop_ok:
  assumes plat: "rx_platform F q rq sz P R"
    and I: "keeps (pv_ok P) I (fill_ops F q)" "keeps (pv_ok P) I (poll_ops F)"
  shows "pv_ok P w \<Longrightarrow> pv_resv P w = 0 \<Longrightarrow> I w \<Longrightarrow> idx_room F (length (pv_subm P w) + length frames) \<Longrightarrow>
    j < fuel \<Longrightarrow> length frames \<le> pv_free P ((fill_retry F q frames ^^ j) w) \<Longrightarrow>
    \<exists>fd' w'. refill_loop F fuel q frames fd t w = Ret (fd', w') \<and> pv_ok P w' \<and> pv_resv P w' = 0 \<and>
      rx_same R w w' \<and> pv_subm P w' = pv_subm P w @ map frame_addr frames \<and> I w'"
proof (induction fuel arbitrary: j w fd)
  case 0
  then show ?case by simp
next
  case (Suc fuel)
  let ?fits = "length frames \<le> pv_free P w"
  obtain fd1 w1 where w1:
    "FillQueue_produce_and_wakeup F q frames fd t w = Ret (Inr (if ?fits then length frames else 0), fd1, w1)"
    "pv_ok P w1" "pv_resv P w1 = 0" "rx_same R w w1" "I w1"
    "pv_subm P w1 = pv_subm P w @ (if ?fits then map frame_addr frames else [])"
    "\<not> ?fits \<Longrightarrow> w1 = fill_retry F q frames w"
    using refill_attempt [OF plat I Suc.prems(3,1,2,4), of fd t] by blast
  show ?case
  proof (cases ?fits)
    case True
    then show ?thesis using w1 by auto
  next
    case False
    then obtain j' where j: "j = Suc j'" using Suc.prems(6) by (cases j) auto
    have "length frames \<le> pv_free P ((fill_retry F q frames ^^ j') w1)"
      using Suc.prems(6) w1(7) [OF False] by (simp add: j funpow_swap1)
    then obtain fd' w' where "refill_loop F fuel q frames fd1 t w1 = Ret (fd', w')" "pv_ok P w'"
      "pv_resv P w' = 0" "rx_same R w1 w'" "pv_subm P w' = pv_subm P w1 @ map frame_addr frames" "I w'"
      using Suc.IH [of w1 j' fd1] w1 False Suc.prems(4,5) j by auto
    then show ?thesis using w1 False by (auto simp: rx_same_def)
  qed
qed

text \<open>Memory the kernel does not hold keeps its contents through every step.\<close>

definition calm ::
    "MmapArea \<Rightarrow> nat \<Rightarrow> ('k, u64) prod_view \<Rightarrow> ('k, xdp_desc) cons_view \<Rightarrow> nat set \<Rightarrow> 'k world \<Rightarrow> 'k world \<Rightarrow> bool" where
  "calm m sz P R J w w' \<longleftrightarrow>
     (J \<inter> kernel_chunks sz P R w' = {} \<longrightarrow> J \<inter> kernel_chunks sz P R w = {} \<and> same_in m sz J w w')"

definition owned ::
    "MmapArea \<Rightarrow> nat \<Rightarrow> ('k, u64) prod_view \<Rightarrow> ('k, xdp_desc) cons_view \<Rightarrow> nat set \<Rightarrow> 'k world \<Rightarrow> 'k world \<Rightarrow> bool" where
  "owned m sz P R J w w' \<longleftrightarrow> J \<inter> kernel_chunks sz P R w' = {} \<and> same_in m sz J w w'"

lemma same_in_trans: "same_in m sz J w w1 \<Longrightarrow> same_in m sz J w1 w2 \<Longrightarrow> same_in m sz J w w2"
  by (simp add: same_in_def)

lemma same_in_refl [simp]: "same_in m sz J w w"
  by (simp add: same_in_def)

lemma rx_memory_owned:
  assumes "rx_memory F fq rq m sz P R"
  shows "keeps (pv_ok P) (owned m sz P R J w) (rx_ops F rq)" "keeps (pv_ok P) (owned m sz P R J w) (poll_ops F)"
  using assms unfolding rx_memory_def keeps_def owned_def by (meson UnI1 UnI2 same_in_trans)+

lemma rx_memory_calm:
  assumes "rx_memory F fq rq m sz P R" "rx_poll_law F P R"
  shows "keeps (pv_ok P) (calm m sz P R J w) (fill_ops F fq)" "keeps (pv_ok P) (calm m sz P R J w) (poll_ops F)"
proof -
  show "keeps (pv_ok P) (calm m sz P R J w) (fill_ops F fq)"
    using assms(1) unfolding rx_memory_def keeps_def calm_def by (meson same_in_trans)
  have "kernel_chunks sz P R (f w') = kernel_chunks sz P R w'" if "f \<in> poll_ops F" "pv_ok P w'" for f w'
  proof -
    obtain c t where "f w' = snd (libc_poll F c t w')" using \<open>f \<in> poll_ops F\<close> by (auto simp: poll_ops_def)
    then have "fill_same P w' (f w')" "rx_same R w' (f w')"
      using assms(2) that(2) unfolding rx_poll_law_def by (metis prod.collapse)+
    then show ?thesis by (simp add: kernel_chunks_def fill_chunks_def fill_same_def rx_same_def)
  qed
  then show "keeps (pv_ok P) (calm m sz P R J w) (poll_ops F)"
    using assms(1) unfolding rx_memory_def keeps_def calm_def by (metis UnI2 same_in_trans)
qed

end
