(* ===== verification/Xsk_Rx_Recv.thy ===== *)
theory Xsk_Rx_Recv
  imports Xsk_Rx_Ops
begin

text \<open>
  \<open>recv\<close> keeps the invariant, delivers exactly the packet of the frame at the cursor and gives
  the frame back to the kernel.
\<close>

section \<open>Definitions\<close>

text \<open>The state after taking descriptors, and after delivering the frame at the cursor.\<close>

definition taken_in :: "nat \<Rightarrow> RxQueue \<Rightarrow> xdp_desc list \<Rightarrow> XskRx \<Rightarrow> XskRx" where
  "taken_in base q ds s =
     (polled q ds s)\<lparr>rx_frames := place (frame_status_update (\<lambda>_. Filled))
                                  (tagged base (unat (rx_frame_size s)) ds) (rx_frames s)\<rparr>"

definition delivered :: "Fd \<Rightarrow> XskRx \<Rightarrow> XskRx" where
  "delivered fd s =
     s\<lparr>rx_q := (rx_q s)\<lparr>rq_fd := fd\<rparr>,
       rx_frames := (rx_frames s)[rx_cursor s := (rx_frames s ! rx_cursor s)\<lparr>frame_status := Free\<rparr>],
       n_frames_to_be_filled := n_frames_to_be_filled s + 1,
       rx_cursor := Suc (rx_cursor s) mod length (rx_frames s),
       rx_stats := (rx_stats s)\<lparr>pkts_rx_delivered := pkts_rx_delivered (rx_stats s) + 1\<rparr>\<rparr>"

text \<open>What taking descriptors and what giving the delivered frame back have done to the world.\<close>

definition rx_took ::
    "'k ffi \<Rightarrow> ('k, u64) prod_view \<Rightarrow> ('k, xdp_desc) cons_view \<Rightarrow> MmapArea \<Rightarrow> nat \<Rightarrow> XskRx \<Rightarrow> 'k world \<Rightarrow>
     RxQueue \<Rightarrow> xdp_desc list \<Rightarrow> 'k world \<Rightarrow> bool" where
  "rx_took F P R m base s w q ds w1 \<longleftrightarrow>
     recv_poll F s w = Ret (length ds, polled q ds s, w1) \<and>
     rq_inner q = rq_inner (rx_q s) \<and> rx_got base s ds \<and> pv_ok P w1 \<and> fill_same P w w1 \<and>
     cv_taken R w1 = cv_taken R w @ ds \<and> cv_peek R w1 = 0 \<and>
     same_in m (unat (rx_frame_size s)) ((+) base ` filled (rx_frames s)) w w1"

definition rx_gave ::
    "('k, u64) prod_view \<Rightarrow> ('k, xdp_desc) cons_view \<Rightarrow> MmapArea \<Rightarrow> nat \<Rightarrow> XskRx \<Rightarrow> 'k world \<Rightarrow>
     Fd \<Rightarrow> 'k world \<Rightarrow> bool" where
  "rx_gave P R m base s w fd w' \<longleftrightarrow>
     rx_inv m base (delivered fd s) \<and> rx_linked P R base (delivered fd s) w' \<and> rx_same R w w' \<and>
     pv_subm P w' = pv_subm P w @ [frame_addr (rx_frames s ! rx_cursor s)] \<and>
     same_in m (unat (rx_frame_size s)) ((+) base ` (filled (rx_frames s) - {rx_cursor s})) w w'"

section \<open>Lemmas\<close>

lemma taken_in_simps [simp]:
  "length (rx_frames (taken_in base q ds s)) = length (rx_frames s)" "rx_cursor (taken_in base q ds s) = rx_cursor s"
  "rx_frame_size (taken_in base q ds s) = rx_frame_size s" "fill_q (taken_in base q ds s) = fill_q s"
  "rx_q (taken_in base q ds s) = q" "poll_ms_timeout (taken_in base q ds s) = poll_ms_timeout s"
  "rx_frames (taken_in base q ds s) = place (frame_status_update (\<lambda>_. Filled))
     (tagged base (unat (rx_frame_size s)) ds) (rx_frames s)"
  "pkts_rx (rx_stats (taken_in base q ds s)) = pkts_rx (rx_stats s) + length ds"
  "pkts_rx_delivered (rx_stats (taken_in base q ds s)) = pkts_rx_delivered (rx_stats s)"
  "n_frames_to_be_filled (taken_in base q ds s) = n_frames_to_be_filled s - length ds"
  by (simp_all add: taken_in_def polled_def)

lemma rx_gotD:
  assumes "rx_got base s ds" "rx_core m base s"
  defines "ps \<equiv> tagged base (unat (rx_frame_size s)) ds"
  shows "distinct (map fst ps)" "fst ` set ps \<subseteq> lent (rx_frames s)"
    "\<forall>p \<in> set ps. desc_fits base (unat (rx_frame_size s)) p \<and> fst p < length (rx_frames s)"
    "card (fst ` set ps) = length ds" "length ds \<le> length (rx_frames s)"
    "fst ` set ps \<subseteq> {..<length (rx_frames s)}"
proof -
  show ps: "distinct (map fst ps)" "fst ` set ps \<subseteq> lent (rx_frames s)"
    using assms(1) by (simp_all add: rx_got_def Let_def ps_def)
  show lt: "fst ` set ps \<subseteq> {..<length (rx_frames s)}" using ps(2) by (auto simp: lent_def)
  then show "\<forall>p \<in> set ps. desc_fits base (unat (rx_frame_size s)) p \<and> fst p < length (rx_frames s)"
    using assms(1) by (auto simp: rx_got_def Let_def ps_def)
  show c: "card (fst ` set ps) = length ds"
    using distinct_card [OF ps(1)] by (simp add: ps_def)
  show "length ds \<le> length (rx_frames s)"
    using card_mono [OF _ lt] c by simp
qed

lemma update_rx_frames_ok:
  assumes got: "rx_got base s ds" and core: "rx_core m base s"
  shows "update_rx_frames chk (polled q ds s) (length ds) = Ret (taken_in base q ds s)"
proof -
  note G = rx_gotD [OF got core]
  let ?sz = "unat (rx_frame_size s)" and ?ps = "tagged base (unat (rx_frame_size s)) ds"
  have c: "rx_frames_inv m base ?sz (rx_frames s)" "rx_frame_offset s = base * ?sz"
    "length ds \<le> length (filled_frames s)"
    using core G(5) by (simp_all add: rx_core_def)
  have "map (\<lambda>p. rx_entry (snd p)) ?ps = map rx_entry ds" by (simp add: tagged_def)
  moreover have "fill_loop chk (polled q ds s) (map (\<lambda>p. rx_entry (snd p)) ?ps) (rx_frames s) =
      Ret (place (frame_status_update (\<lambda>_. Filled)) ?ps (rx_frames s))"
    by (rule fill_loop_ok [OF _ _ c(1) G(3)]) (simp_all add: polled_def c(2))
  ultimately have "fill_loop chk (polled q ds s) (map rx_entry ds) (rx_frames s) =
      Ret (place (frame_status_update (\<lambda>_. Filled)) ?ps (rx_frames s))"
    by (simp only:)
  then show ?thesis
    using c(3) by (simp add: update_rx_frames_def taken_in_def) (simp add: polled_def)
qed

lemma taken_in_inv:
  assumes got: "rx_got base s ds" and inv: "rx_inv m base s"
  shows "rx_inv m base (taken_in base q ds s)"
proof -
  have core: "rx_core m base s" using inv by (simp add: rx_inv_def)
  note G = rx_gotD [OF got core]
  let ?ps = "tagged base (unat (rx_frame_size s)) ds" and ?s = "taken_in base q ds s"
  note pf = place_filled [OF G(1,6)]
  have "rx_core m base ?s"
    using core G(5) place_inv [of _ m base "unat (rx_frame_size s)" "rx_frames s" ?ps] G(3)
    by (simp add: rx_core_def) (simp add: taken_in_def polled_def)
  moreover have "card (lent (rx_frames ?s)) = card (lent (rx_frames s)) - length ds"
    using pf(2) G(2,4) by (simp add: card_Diff_subset)
  moreover have "card (filled (rx_frames ?s)) = card (filled (rx_frames s)) + length ds"
  proof -
    have "filled (rx_frames s) \<inter> fst ` set ?ps = {}" using G(2) filled_lent(2) [of "rx_frames s"] by blast
    then show ?thesis using pf(1) G(4) by (simp add: card_Un_disjoint)
  qed
  ultimately show ?thesis using inv by (simp add: rx_inv_def)
qed

lemma taken_in_linked:
  assumes got: "rx_got base s ds" and core: "rx_core m base s" and link: "rx_linked P R base s w"
    and w': "pv_ok P w'" "fill_same P w w'" "cv_taken R w' = cv_taken R w @ ds" "cv_peek R w' = 0"
  shows "rx_linked P R base (taken_in base q ds s) w'"
proof -
  note G = rx_gotD [OF got core]
  let ?sz = "unat (rx_frame_size s)"
  let ?ixs = "map fst (tagged base ?sz ds)"
  have "map (\<lambda>d. xd_addr d div ?sz) ds = map ((+) base) ?ixs"
    using G(3) by (auto simp: tagged_def desc_fits_def)
  then have ch: "desc_chunks ?sz ds = image_mset ((+) base) (mset ?ixs)"
    unfolding desc_chunks_def by (simp only: mset_map [symmetric])
  have "mset_set (lent (rx_frames s)) = mset ?ixs + mset_set (lent (rx_frames s) - set ?ixs)"
    using G(1,2) by (intro mset_set_remove_list) simp_all
  then show ?thesis
    using link w' ch place_filled(2) [OF G(1,6)]
    by (simp add: rx_linked_def fill_same_def fill_chunks_def desc_chunks_def del: mset_map)
qed

text \<open>What the kernel holds is what the invariant says.\<close>

lemma kernel_chunks_linked:
  assumes "rx_linked P R base s w"
  shows "kernel_chunks (unat (rx_frame_size s)) P R w = (+) base ` lent (rx_frames s)"
  using assms by (simp add: rx_linked_def kernel_chunks_def)

section \<open>Delivering the frame at the cursor\<close>

lemma rx_core_bounds:
  assumes "rx_core m base s"
  shows "length (rx_frames s) \<le> 2 ^ 32" "0 < unat (rx_frame_size s)" "rx_cursor s < length (rx_frames s)"
    "0 < length (rx_frames s)"
proof -
  show sz: "0 < unat (rx_frame_size s)" and c: "rx_cursor s < length (rx_frames s)"
    using assms by (simp_all add: rx_core_def rx_frames_inv_def)
  then show "0 < length (rx_frames s)" by linarith
  have "length (rx_frames s) * 1 \<le> (base + length (rx_frames s)) * unat (rx_frame_size s)"
    using sz by (intro mult_le_mono) simp_all
  also have "\<dots> \<le> 2 ^ 32" using assms by (simp add: rx_core_def rx_frames_inv_def)
  finally show "length (rx_frames s) \<le> 2 ^ 32" by simp
qed

lemma rx_frame_in_area:
  assumes "rx_frames_inv m base sz frames" "i < length frames"
  shows "in_area (frame_mmap (frames ! i)) (frame_addr (frames ! i)) (frame_len (frames ! i))"
proof -
  let ?f = "frames ! i"
  have f: "rx_frame_ok m sz (base + i) ?f" and b: "(base + length frames) * sz \<le> 2 ^ 32"
    using assms by (simp_all add: rx_frames_inv_def)
  have a: "frame_addr ?f = (base + i) * sz + frame_addr ?f mod sz"
    using f by (metis div_mult_mod_eq rx_frame_ok_def)
  have end_le: "frame_addr ?f + frame_len ?f \<le> (base + i) * sz + sz"
    using f a by (simp add: rx_frame_ok_def)
  also have "\<dots> = (base + i + 1) * sz" by simp
  also have "\<dots> \<le> (base + length frames) * sz" using assms(2) by (intro mult_le_mono1) simp
  finally have "frame_addr ?f \<le> 2 ^ 32" using b by linarith
  then have "frame_addr ?f < 2 ^ 63" by (rule order.strict_trans1) simp
  then show ?thesis using end_le f by (auto simp: in_area_def rx_frame_ok_def)
qed

lemma delivered_sets:
  assumes "rx_cursor s \<in> filled (rx_frames s)"
  shows "lent (rx_frames (delivered fd s)) = insert (rx_cursor s) (lent (rx_frames s))"
    "filled (rx_frames (delivered fd s)) = filled (rx_frames s) - {rx_cursor s}"
  using assms by (auto simp: delivered_def lent_def filled_def nth_list_update)

lemma filled_not_lent: "i \<in> filled frames \<Longrightarrow> i \<notin> lent frames"
  by (simp add: filled_def lent_def)

lemma delivered_inv:
  assumes inv: "rx_inv m base s" and fil: "rx_cursor s \<in> filled (rx_frames s)"
  shows "rx_inv m base (delivered fd s)"
proof -
  have core: "rx_core m base s" using inv by (simp add: rx_inv_def)
  note b = rx_core_bounds [OF core] and D = delivered_sets [OF fil, of fd]
  have "rx_frame_ok m (unat (rx_frame_size s)) (base + rx_cursor s)
      ((rx_frames s ! rx_cursor s)\<lparr>frame_status := Free\<rparr>)"
    using core b(3) by (simp add: rx_core_def rx_frames_inv_def rx_frame_ok_def)
  then have "rx_core m base (delivered fd s)"
    using core b rx_frames_inv_update [of m base "unat (rx_frame_size s)" "rx_frames s" "rx_cursor s"]
    by (simp add: rx_core_def delivered_def)
  moreover have "card (filled (rx_frames s)) = Suc (card (filled (rx_frames (delivered fd s))))"
    using card_Suc_Diff1 [OF finite_filled(1) fil] D(2) by simp
  ultimately show ?thesis
    using inv D(1) filled_not_lent [OF fil] by (simp add: rx_inv_def) (simp add: delivered_def)
qed

lemma delivered_linked:
  assumes core: "rx_core m base s" and fil: "rx_cursor s \<in> filled (rx_frames s)"
    and link: "rx_linked P R base s w" and w': "pv_ok P w'" "pv_resv P w' = 0" "rx_same R w w'"
    and subm: "pv_subm P w' = pv_subm P w @ [frame_addr (rx_frames s ! rx_cursor s)]"
  shows "rx_linked P R base (delivered fd s) w'"
proof -
  have "frame_addr (rx_frames s ! rx_cursor s) div unat (rx_frame_size s) = base + rx_cursor s"
    using core by (simp add: rx_core_def rx_frames_inv_def rx_frame_ok_def)
  moreover have "rx_frame_size (delivered fd s) = rx_frame_size s" by (simp add: delivered_def)
  ultimately show ?thesis
    using link w' subm delivered_sets [OF fil, of fd] filled_not_lent [OF fil]
    by (simp add: rx_linked_def rx_same_def fill_chunks_def)
qed

lemma delivered_small:
  assumes inv: "rx_inv m base s" and fil: "rx_cursor s \<in> filled (rx_frames s)" and room: "pkts_rx (rx_stats s) < 2 ^ 64"
  shows "n_frames_to_be_filled s + 1 < 2 ^ 64" "Suc (rx_cursor s) < 2 ^ 64" "pkts_rx_delivered (rx_stats s) + 1 < 2 ^ 64"
proof -
  note b = rx_core_bounds [of m base s]
  have core: "rx_core m base s" using inv by (simp add: rx_inv_def)
  have "length (rx_frames s) < 2 ^ 64" using b(1) [OF core] by (rule order.strict_trans1) simp
  moreover have "0 < card (filled (rx_frames s))" using fil by (auto simp: card_gt_0_iff)
  then have "n_frames_to_be_filled s + 1 \<le> length (rx_frames s)"
      "pkts_rx_delivered (rx_stats s) + 1 \<le> pkts_rx (rx_stats s)"
    using inv card_lent [of "rx_frames s"] by (simp_all add: rx_inv_def)
  ultimately show "n_frames_to_be_filled s + 1 < 2 ^ 64" "Suc (rx_cursor s) < 2 ^ 64"
      "pkts_rx_delivered (rx_stats s) + 1 < 2 ^ 64"
    using b(3) [OF core] room by linarith+
qed

lemma recv_deliver_ok:
  assumes plat: "rx_platform F (fill_q s) rq sz P R" and inv: "rx_inv m base s"
    and link: "rx_linked P R base s w" and fil: "rx_cursor s \<in> filled (rx_frames s)"
    and f: "f = rx_frames s ! rx_cursor s" and len: "frame_len f \<le> length pkt"
    and room: "idx_room F (length (pv_subm P w) + 1)" "pkts_rx (rx_stats s) < 2 ^ 64"
    and prog: "fill_progress F (fill_q s) P 1 fuel"
    and I: "keeps (pv_ok P) I (fill_ops F (fill_q s))" "keeps (pv_ok P) I (poll_ops F)" "I w"
  shows "\<exists>fd w'. recv_deliver F fuel s pkt w =
      Ret (frame_len f, frame_data w f @ drop (frame_len f) pkt, delivered fd s, w') \<and>
    rx_inv m base (delivered fd s) \<and> rx_linked P R base (delivered fd s) w' \<and> rx_same R w w' \<and>
    pv_subm P w' = pv_subm P w @ [frame_addr f] \<and> I w'"
proof -
  have core: "rx_core m base s" using inv by (simp add: rx_inv_def)
  note b = rx_core_bounds [OF core]
  have st: "frame_status f = Filled" using fil f by (simp add: filled_def)
  have area: "in_area (frame_mmap f) (frame_addr f) (frame_len f)"
    using rx_frame_in_area core b(3) f unfolding rx_core_def by blast
  have rd: "read_from_umem_checked f (frame_len f) w = Ret (Inr (frame_data w f))"
    using read_checked_ok [OF area] by (simp add: frame_data_def)
  have ok: "pv_ok P w" "pv_resv P w = 0" using link by (simp_all add: rx_linked_def)
  obtain j where "j < fuel" "length [f] \<le> pv_free P ((fill_retry F (fill_q s) [f] ^^ j) w)"
    using prog ok unfolding fill_progress_def by (metis length_Cons list.size(3) One_nat_def order_refl)
  then obtain fd w' where w': "refill_loop F fuel (fill_q s) [f] (rq_fd (rx_q s)) (poll_ms_timeout s) w = Ret (fd, w')"
    "pv_ok P w'" "pv_resv P w' = 0" "rx_same R w w'" "pv_subm P w' = pv_subm P w @ [frame_addr f]" "I w'"
    using refill_loop_ok [OF plat I(1,2) ok I(3), of "[f]" j fuel "rq_fd (rx_q s)" "poll_ms_timeout s"] room(1) by auto
  have one: "sliceO (rx_frames s) (rx_cursor s) (Suc (rx_cursor s)) = Ret [f]"
    using b(3) f by (simp add: Cons_nth_drop_Suc [symmetric])
  have "recv_deliver F fuel s pkt w =
      Ret (frame_len f, frame_data w f @ drop (frame_len f) pkt, delivered fd s, w')"
    using st rd len delivered_small [OF inv fil room(2)] one w'(1) b(3,4) f
    by (simp add: recv_deliver_def Let_def delivered_def del: sliceO_in) (simp add: sliceO_def)
  moreover have "rx_linked P R base (delivered fd s) w'"
    using delivered_linked [OF core fil link w'(2-4)] w'(5) f by simp
  ultimately show ?thesis using delivered_inv [OF inv fil] w'(4-6) by blast
qed

section \<open>Receiving\<close>

lemma rx_counts_taken:
  assumes counts: "rx_counts F P R s w" and inv: "rx_inv m base s" and got: "rx_got base s ds"
    and same: "fill_same P w w'"
  shows "idx_room F (length (pv_subm P w') + 1)" "pkts_rx (rx_stats (taken_in base q ds s)) < 2 ^ 64"
proof -
  have core: "rx_core m base s" using inv by (simp add: rx_inv_def)
  have "idx_room F (length (pv_subm P w') + length (rx_frames s))"
    using counts same by (simp add: rx_counts_def fill_same_def)
  then show "idx_room F (length (pv_subm P w') + 1)"
    by (rule idx_room_mono) (use rx_core_bounds(4) [OF core] in linarith)
  show "pkts_rx (rx_stats (taken_in base q ds s)) < 2 ^ 64"
    using counts rx_gotD(5) [OF got core] by (simp add: rx_counts_def)
qed

lemma recv_take:
  assumes plat: "rx_platform F (fill_q s) (rx_q s) (unat (rx_frame_size s)) P R"
    and mem: "rx_memory F (fill_q s) (rx_q s) m (unat (rx_frame_size s)) P R"
    and inv: "rx_inv m base s" and link: "rx_linked P R base s w" and counts: "rx_counts F P R s w"
  obtains q ds w1 where "recv F fuel s pkt w = recv_deliver F fuel (taken_in base q ds s) pkt w1"
    "rx_took F P R m base s w q ds w1" "rx_inv m base (taken_in base q ds s)" "rx_linked P R base (taken_in base q ds s) w1"
proof -
  let ?sz = "unat (rx_frame_size s)" and ?J = "(+) base ` filled (rx_frames s)"
  have core: "rx_core m base s" using inv by (simp add: rx_inv_def)
  have "owned m ?sz P R ?J w w"
    using kernel_chunks_linked [OF link] filled_lent(2) [of "rx_frames s"] by (auto simp: owned_def)
  then obtain q ds w1 where poll: "recv_poll F s w = Ret (length ds, polled q ds s, w1)"
    and q: "rq_inner q = rq_inner (rx_q s)" and got: "rx_got base s ds" and w1: "pv_ok P w1" "fill_same P w w1"
      "cv_taken R w1 = cv_taken R w @ ds" "cv_peek R w1 = 0" "owned m ?sz P R ?J w w1"
    using recv_poll_ok [OF plat inv link counts rx_memory_owned [OF mem]] by metis
  show thesis
  proof (rule that)
    show "recv F fuel s pkt w = recv_deliver F fuel (taken_in base q ds s) pkt w1"
      using poll update_rx_frames_ok [OF got core] by (simp add: recv_def)
    show "rx_took F P R m base s w q ds w1" using poll q got w1 by (simp add: rx_took_def owned_def)
    show "rx_inv m base (taken_in base q ds s)" using taken_in_inv [OF got inv] .
    show "rx_linked P R base (taken_in base q ds s) w1" using taken_in_linked [OF got core link w1(1-4)] .
  qed
qed

lemma recv_give:
  assumes plat: "rx_platform F (fill_q s) rq (unat (rx_frame_size s)) P R"
    and mem: "rx_memory F (fill_q s) rq m (unat (rx_frame_size s)) P R"
    and inv: "rx_inv m base s" and link: "rx_linked P R base s w" and fil: "rx_cursor s \<in> filled (rx_frames s)"
    and f: "f = rx_frames s ! rx_cursor s" and pkt: "unat (rx_frame_size s) \<le> length pkt"
    and room: "idx_room F (length (pv_subm P w) + 1)" "pkts_rx (rx_stats s) < 2 ^ 64"
    and prog: "fill_progress F (fill_q s) P 1 fuel"
  obtains fd w' where "recv_deliver F fuel s pkt w =
      Ret (frame_len f, frame_data w f @ drop (frame_len f) pkt, delivered fd s, w')"
    "rx_gave P R m base s w fd w'"
proof -
  let ?sz = "unat (rx_frame_size s)" and ?K = "(+) base ` (filled (rx_frames s) - {rx_cursor s})"
  have core: "rx_core m base s" using inv by (simp add: rx_inv_def)
  have "rx_frame_ok m ?sz (base + rx_cursor s) f"
    using core f by (simp add: rx_core_def rx_frames_inv_def)
  then have len: "frame_len f \<le> length pkt" using pkt by (simp add: rx_frame_ok_def)
  have calm0: "calm m ?sz P R ?K w w" by (simp add: calm_def)
  obtain fd w' where w': "recv_deliver F fuel s pkt w =
        Ret (frame_len f, frame_data w f @ drop (frame_len f) pkt, delivered fd s, w')"
    "rx_inv m base (delivered fd s)" "rx_linked P R base (delivered fd s) w'" "rx_same R w w'"
    "pv_subm P w' = pv_subm P w @ [frame_addr f]" "calm m ?sz P R ?K w w'"
    using recv_deliver_ok [where I = "calm m ?sz P R ?K w", OF plat inv link fil f len room prog
        rx_memory_calm [OF mem rx_platformD(6) [OF plat]] calm0] by blast
  have "?K \<inter> kernel_chunks ?sz P R w' = {}"
    using kernel_chunks_linked [OF w'(3)] delivered_sets [OF fil, of fd] filled_lent(2) [of "rx_frames (delivered fd s)"]
    by (auto simp: delivered_def)
  then have "same_in m ?sz ?K w w'" using w'(6) by (simp add: calm_def)
  then have "rx_gave P R m base s w fd w'" using w'(2-5) f by (simp add: rx_gave_def)
  with w'(1) show thesis by (rule that)
qed

lemma recv_deliver_none:
  assumes "rx_cursor s < length (rx_frames s)" "frame_status (rx_frames s ! rx_cursor s) \<noteq> Filled"
  shows "recv_deliver F fuel s pkt w = Ret (0, pkt, s, w)"
  using assms by (auto simp: recv_deliver_def Let_def split: FrameStatus.split)

end
