(* ===== verification/Xsk_Rx_Apply.thy ===== *)
theory Xsk_Rx_Apply
  imports Xsk_Rx_Recv
begin

text \<open>
  \<open>recv_apply\<close> shows every packet it takes to the closure once, in ring order, and gives all
  their frames back; it panics exactly if the closure does.
\<close>

section \<open>Definitions\<close>

definition applied :: "nat \<Rightarrow> RxQueue \<Rightarrow> xdp_desc list \<Rightarrow> XskRx \<Rightarrow> XskRx" where
  "applied base q ds s =
     s\<lparr>rx_q := q, filled_frames := map rx_entry ds @ drop (length ds) (filled_frames s),
       rx_frames := place id (tagged base (unat (rx_frame_size s)) ds) (rx_frames s),
       rx_stats := (rx_stats s)\<lparr>pkts_rx := pkts_rx (rx_stats s) + length ds,
                               pkts_rx_delivered := pkts_rx_delivered (rx_stats s) + length ds\<rparr>\<rparr>"

section \<open>Lemmas\<close>

lemma apply_loop_ok:
  assumes s: "rx_frame_offset s = base * sz" "sz = unat (rx_frame_size s)"
  shows "rx_frames_inv m base sz frames \<Longrightarrow> \<forall>p \<in> set ps. desc_fits base sz p \<and> fst p < length frames \<Longrightarrow>
    \<exists>done. map frame_addr done = map (\<lambda>p. xd_addr (snd p)) ps \<and>
      (\<forall>c. apply_loop chk s f (map (\<lambda>p. rx_entry (snd p)) ps) frames processed c w =
        bindO (foldO f c (map (\<lambda>p. desc_data m w (snd p)) ps))
          (\<lambda>c'. Ret (place id ps frames, processed @ done, c')))"
proof (induction ps arbitrary: frames processed)
  case Nil
  then show ?case by simp
next
  case (Cons p ps)
  obtain i d where p: "p = (i, d)" by force
  have i: "i < length frames" "desc_fits base sz (i, d)" using Cons.prems(2) p by auto
  let ?fr = "set_desc (rx_entry d) (frames ! i)"
  have inv: "rx_frames_inv m base sz (frames[i := ?fr])"
    using rx_frames_inv_set_desc [OF Cons.prems(1) i(2), of id] by simp
  have idx: "rx_frame_index chk s (xd_addr d) = Ret i"
    using rx_frame_index_ok [OF s, of "length frames" i "xd_addr d"] Cons.prems(1) i
    by (simp add: rx_frames_inv_def desc_fits_def)
  have fr: "frame_addr ?fr = xd_addr d" "frame_len ?fr = unat (xd_len d)" "frame_mmap ?fr = m"
    using Cons.prems(1) i(1)
    by (simp_all add: set_desc_def rx_entry_def set_defs as_usize_def rx_frames_inv_def rx_frame_ok_def)
  have "in_area m (xd_addr d) (unat (xd_len d))"
    using rx_frame_in_area [OF inv, of i] i(1) fr by simp
  then have rd: "read_from_umem ?fr (frame_len ?fr) w = Ret (desc_data m w d)"
    using fr by (simp add: read_from_umem_def mem_range_in desc_data_def)
  have "\<forall>p \<in> set ps. desc_fits base sz p \<and> fst p < length (frames[i := ?fr])" using Cons.prems(2) by simp
  from Cons.IH [OF inv this, of "processed @ [?fr]"]
  obtain dn where dn: "map frame_addr dn = map (\<lambda>p. xd_addr (snd p)) ps"
    "\<forall>c. apply_loop chk s f (map (\<lambda>p. rx_entry (snd p)) ps) (frames[i := ?fr]) (processed @ [?fr]) c w =
      bindO (foldO f c (map (\<lambda>p. desc_data m w (snd p)) ps))
        (\<lambda>c'. Ret (place id ps (frames[i := ?fr]), (processed @ [?fr]) @ dn, c'))" by blast
  have "fst (rx_entry d) = xd_addr d" by (simp add: rx_entry_def)
  then have "apply_loop chk s f (map (\<lambda>p. rx_entry (snd p)) (p # ps)) frames processed c w =
      bindO (foldO f c (map (\<lambda>p. desc_data m w (snd p)) (p # ps)))
        (\<lambda>c'. Ret (place id (p # ps) frames, processed @ ?fr # dn, c'))" for c
    using idx i(1) rd dn(2) p by (simp add: Let_def bindO_assoc)
  moreover have "map frame_addr (?fr # dn) = map (\<lambda>p. xd_addr (snd p)) (p # ps)"
    using dn(1) fr(1) p by simp
  ultimately show ?case by blast
qed

lemma applied_inv:
  assumes got: "rx_got base s ds" and inv: "rx_inv m base s"
  shows "rx_inv m base (applied base q ds s)"
proof -
  have core: "rx_core m base s" using inv by (simp add: rx_inv_def)
  note G = rx_gotD [OF got core]
  have "rx_frames_inv m base (unat (rx_frame_size s))
      (place id (tagged base (unat (rx_frame_size s)) ds) (rx_frames s))"
    using core G(3) by (intro place_inv) (simp_all add: rx_core_def)
  then show ?thesis
    using inv core G(5) place_filled(3,4) [OF G(1,6)] by (simp add: rx_inv_def rx_core_def applied_def)
qed

lemma applied_linked:
  assumes got: "rx_got base s ds" and core: "rx_core m base s" and link: "rx_linked P R base s w"
    and w': "pv_ok P w'" "pv_resv P w' = 0" "pv_subm P w' = pv_subm P w @ map xd_addr ds"
      "cv_taken R w' = cv_taken R w @ ds" "cv_peek R w' = 0"
  shows "rx_linked P R base (applied base q ds s) w'"
proof -
  note G = rx_gotD [OF got core]
  show ?thesis
    using link w' place_filled(3) [OF G(1,6)]
    by (simp add: rx_linked_def applied_def fill_chunks_def desc_chunks_def multiset.map_comp o_def)
qed

lemma to_fill_bounds:
  assumes inv: "rx_inv m base s" and got: "rx_got base s ds"
  shows "length ds \<le> n_frames_to_be_filled s" "n_frames_to_be_filled s < 2 ^ 64"
proof -
  have core: "rx_core m base s" using inv by (simp add: rx_inv_def)
  note G = rx_gotD [OF got core]
  show "length ds \<le> n_frames_to_be_filled s"
    using card_mono [OF _ G(2)] G(4) inv by (simp add: rx_inv_def)
  have "n_frames_to_be_filled s \<le> length (rx_frames s)"
    using inv card_lent [of "rx_frames s"] by (simp add: rx_inv_def)
  also have "\<dots> \<le> 2 ^ 32" using rx_core_bounds(1) [OF core] .
  finally show "n_frames_to_be_filled s < 2 ^ 64" by (rule order.strict_trans1) simp
qed

lemma apply_batch_ok:
  assumes plat: "rx_platform F (fill_q s) (rx_q s) (unat (rx_frame_size s)) P R"
    and inv: "rx_inv m base s" and counts: "rx_counts F P R s w"
    and prog: "fill_progress F (fill_q s) P (length (rx_frames s)) fuel" and got: "rx_got base s ds"
    and w1: "pv_ok P w1" "pv_resv P w1 = 0" "pv_subm P w1 = pv_subm P w"
  shows "\<exists>fd w'. apply_batch F fuel (polled q ds s) (length ds) f c w1 =
      bindO (foldO f c (map (desc_data m w1) ds)) (\<lambda>c'. Ret (c', applied base (q\<lparr>rq_fd := fd\<rparr>) ds s, w')) \<and>
    pv_ok P w' \<and> pv_resv P w' = 0 \<and> rx_same R w1 w' \<and> pv_subm P w' = pv_subm P w @ map xd_addr ds"
proof -
  let ?sz = "unat (rx_frame_size s)" and ?s = "polled q ds s"
  let ?ps = "tagged base ?sz ds"
  have core: "rx_core m base s" using inv by (simp add: rx_inv_def)
  note G = rx_gotD [OF got core]
  have c: "rx_frames_inv m base ?sz (rx_frames s)" "rx_frame_offset ?s = base * ?sz" "?sz = unat (rx_frame_size ?s)"
    "length ds \<le> length (filled_frames s)" "processed_frames s = []"
    using core G(5) by (simp_all add: rx_core_def polled_def)
  have maps: "map (\<lambda>p. rx_entry (snd p)) ?ps = map rx_entry ds"
    "map (\<lambda>p. desc_data m w1 (snd p)) ?ps = map (desc_data m w1) ds"
    "map (\<lambda>p. xd_addr (snd p)) ?ps = map xd_addr ds" by (simp_all add: tagged_def)
  obtain dn where dn: "apply_loop (overflow_checks F) ?s f (map rx_entry ds) (rx_frames s) [] c w1 =
      bindO (foldO f c (map (desc_data m w1) ds)) (\<lambda>c'. Ret (place id ?ps (rx_frames s), dn, c'))"
    "map frame_addr dn = map xd_addr ds"
    using apply_loop_ok [where f = f and s = ?s and processed = "[]" and w = w1
        and chk = "overflow_checks F", OF c(2,3,1) G(3)] maps by auto
  have len: "length dn = length ds" using arg_cong [OF dn(2), of length] by simp
  obtain j where j: "j < fuel" "length dn \<le> pv_free P ((fill_retry F (fill_q s) dn ^^ j) w1)"
    using prog w1(1,2) len G(5) unfolding fill_progress_def by metis
  have "idx_room F (length (pv_subm P w1) + length (rx_frames s))"
    using counts w1(3) by (simp add: rx_counts_def)
  then have room: "idx_room F (length (pv_subm P w1) + length dn)"
    by (rule idx_room_mono) (use len G(5) in simp)
  obtain fd w' where w': "refill_loop F fuel (fill_q s) dn (rq_fd q) (poll_ms_timeout s) w1 = Ret (fd, w')"
    "pv_ok P w'" "pv_resv P w' = 0" "rx_same R w1 w'" "pv_subm P w' = pv_subm P w @ map xd_addr ds"
    using refill_loop_ok [OF plat _ _ w1(1,2) _ room j, of "\<lambda>_. True" "rq_fd q" "poll_ms_timeout s"]
      dn(2) w1(3) by (auto simp: keeps_def)
  have d: "pkts_rx_delivered (rx_stats s) + length ds < 2 ^ 64"
    using inv counts G(5) by (simp add: rx_inv_def rx_counts_def)
  have "apply_batch F fuel ?s (length ds) f c w1 =
      bindO (foldO f c (map (desc_data m w1) ds)) (\<lambda>c'. Ret (c', applied base (q\<lparr>rq_fd := fd\<rparr>) ds s, w'))"
    using dn(1) w'(1) to_fill_bounds [OF inv got] d c(4,5)
    by (cases "foldO f c (map (desc_data m w1) ds)")
      (simp_all add: apply_batch_def Let_def applied_def, simp_all add: polled_def)
  then show ?thesis using w'(2-5) by blast
qed

lemma recv_apply_core:
  assumes plat: "rx_platform F (fill_q s) (rx_q s) (unat (rx_frame_size s)) P R"
    and inv: "rx_inv m base s" and link: "rx_linked P R base s w" and counts: "rx_counts F P R s w"
    and prog: "fill_progress F (fill_q s) P (length (rx_frames s)) fuel"
  shows "\<exists>q ds w1 w'. recv_apply F fuel s f c w =
      bindO (foldO f c (map (desc_data m w1) ds)) (\<lambda>c'. Ret (c', applied base q ds s, w')) \<and>
    (\<exists>s1. recv_poll F s w = Ret (length ds, s1, w1)) \<and>
    rq_inner q = rq_inner (rx_q s) \<and> rx_got base s ds \<and>
    cv_taken R w1 = cv_taken R w @ ds \<and> cv_taken R w' = cv_taken R w @ ds \<and>
    pv_subm P w' = pv_subm P w @ map xd_addr ds \<and>
    rx_inv m base (applied base q ds s) \<and> rx_linked P R base (applied base q ds s) w'"
proof -
  have core: "rx_core m base s" using inv by (simp add: rx_inv_def)
  obtain q ds w1 where poll: "recv_poll F s w = Ret (length ds, polled q ds s, w1)"
    and q: "rq_inner q = rq_inner (rx_q s)" and got: "rx_got base s ds" and w1: "pv_ok P w1" "fill_same P w w1"
      "cv_taken R w1 = cv_taken R w @ ds" "cv_peek R w1 = 0"
    using recv_poll_ok [OF plat inv link counts, of "\<lambda>_. True"] by (auto simp: keeps_def)
  have w1': "pv_resv P w1 = 0" "pv_subm P w1 = pv_subm P w"
    using w1(2) link by (simp_all add: fill_same_def rx_linked_def)
  show ?thesis
  proof (cases "ds = []")
    case True
    then have "recv_apply F fuel s f c w = Ret (c, applied base q ds s, w1)"
      using poll by (simp add: recv_apply_def polled_def applied_def tagged_def)
    then show ?thesis
      using True poll q got w1 w1' applied_inv [OF got inv, of q] applied_linked [OF got core link w1(1) w1'(1)]
      by (intro exI [of _ q] exI [of _ ds] exI [of _ w1]) simp
  next
    case False
    obtain fd w' where run: "apply_batch F fuel (polled q ds s) (length ds) f c w1 =
        bindO (foldO f c (map (desc_data m w1) ds)) (\<lambda>c'. Ret (c', applied base (q\<lparr>rq_fd := fd\<rparr>) ds s, w'))"
      and w': "pv_ok P w'" "pv_resv P w' = 0" "rx_same R w1 w'" "pv_subm P w' = pv_subm P w @ map xd_addr ds"
      using apply_batch_ok [where f = f, OF plat inv counts prog got w1(1) w1', of q c] by blast
    let ?q = "q\<lparr>rq_fd := fd\<rparr>"
    have "recv_apply F fuel s f c w =
        bindO (foldO f c (map (desc_data m w1) ds)) (\<lambda>c'. Ret (c', applied base ?q ds s, w'))"
      using poll False run by (simp add: recv_apply_def)
    moreover have "cv_taken R w' = cv_taken R w @ ds" "cv_peek R w' = 0" "rq_inner ?q = rq_inner (rx_q s)"
      using w'(3) w1(3,4) q by (simp_all add: rx_same_def)
    ultimately show ?thesis
      using poll got w1(3) w'(4) applied_inv [OF got inv, of ?q] applied_linked [OF got core link w'(1,2,4), of ?q] by blast
  qed
qed

section \<open>The precondition of the operations\<close>

text \<open>The platform keeps its promises, the state is well-formed, and nothing is about to overflow.\<close>

definition rx_ready ::
    "'k ffi \<Rightarrow> ('k, u64) prod_view \<Rightarrow> ('k, xdp_desc) cons_view \<Rightarrow> MmapArea \<Rightarrow> nat \<Rightarrow> nat \<Rightarrow> XskRx \<Rightarrow> 'k world \<Rightarrow> bool" where
  "rx_ready F P R m base fuel s w \<longleftrightarrow>
     rx_platform F (fill_q s) (rx_q s) (unat (rx_frame_size s)) P R \<and>
     rx_memory F (fill_q s) (rx_q s) m (unat (rx_frame_size s)) P R \<and>
     rx_inv m base s \<and> rx_linked P R base s w \<and> rx_counts F P R s w \<and>
     fill_progress F (fill_q s) P (length (rx_frames s)) fuel"

lemma fill_progress_mono: "fill_progress F q P n fuel \<Longrightarrow> k \<le> n \<Longrightarrow> fill_progress F q P k fuel"
  unfolding fill_progress_def by (meson le_trans)

end
