(* ===== verification/Xsk.thy ===== *)
theory Xsk
  imports Xsk_Tx_Run Xsk_Rx_Apply
begin

text \<open>
  \<^verbatim>\<open>src/src/xsk/xsk.rs\<close>: building the whole socket, and that a successful build
  establishes the invariants of both ends.
\<close>

section \<open>Definitions\<close>

definition MAX_PACKET_SIZE :: usize where
  "MAX_PACKET_SIZE = 1500"

record Xsk =
  xs_if_name :: string
  xs_fill_q :: FillQueue
  xs_comp_q :: CompQueue
  xs_tx_q :: TxQueue
  xs_rx_q :: RxQueue
  xs_tx_frames :: "Frame list"
  xs_rx_frames :: "Frame list"
  xs_umem :: Umem
  xs_umem_config :: UmemConfig
  xs_socket_config :: SocketConfig

text \<open>What both constructors do first: the UMEM with its queues and frames, then the socket.\<close>

definition xsk_setup ::
    "'k ffi \<Rightarrow> string \<Rightarrow> u32 \<Rightarrow> UmemConfig \<Rightarrow> SocketConfig \<Rightarrow> 'k world \<Rightarrow>
     ((Umem \<times> FillQueue \<times> CompQueue \<times> Frame list) \<times> (TxQueue \<times> RxQueue) \<times> 'k world) outcome" where
  "xsk_setup F name queue_id uc sc w =
     bindO (create_mmap F (Umem_builder uc) w) (\<lambda>(r, w1).
       bindO (expectR ''failed to create mmap area'' r) (\<lambda>b.
         bindO (create_umem F b w1) (\<lambda>(r, w2).
           bindO (expectR ''failed to create umem'' r) (\<lambda>(umem, fq, cq, frames).
             bindO (Socket_new F sc umem name queue_id w2) (\<lambda>(r, w3).
               bindO (expectR ''failed to build socket'' r) (\<lambda>qs.
                 Ret ((umem, fq, cq, frames), qs, w3)))))))"

definition Xsk_new ::
    "'k ffi \<Rightarrow> string \<Rightarrow> u32 \<Rightarrow> UmemConfig \<Rightarrow> SocketConfig \<Rightarrow> usize \<Rightarrow> 'k world \<Rightarrow>
     (Xsk \<times> 'k world) outcome" where
  "Xsk_new F name queue_id uc sc n_tx_frames w =
     bindO (xsk_setup F name queue_id uc sc w) (\<lambda>((umem, fq, cq, frames), (txq, rxq), w1).
       bindO (sliceO frames 0 n_tx_frames) (\<lambda>txf.
         bindO (sliceO frames n_tx_frames (length frames)) (\<lambda>rxf.
           Ret (\<lparr>xs_if_name = name, xs_fill_q = fq, xs_comp_q = cq, xs_tx_q = txq, xs_rx_q = rxq,
                 xs_tx_frames = txf, xs_rx_frames = rxf, xs_umem = umem, xs_umem_config = uc,
                 xs_socket_config = sc\<rparr>, w1))))"

record Xsk2 =
  x2_if_name :: string
  x2_tx :: XskTx
  x2_rx :: XskRx

record Xsk2Config =
  x2c_if_name :: string
  x2c_queue_id :: u32
  x2c_n_tx_frames :: usize
  x2c_tx_batch_size :: usize
  x2c_umem_config :: UmemConfig
  x2c_socket_config :: SocketConfig

definition Xsk2_new ::
    "'k ffi \<Rightarrow> string \<Rightarrow> u32 \<Rightarrow> UmemConfig \<Rightarrow> SocketConfig \<Rightarrow> usize \<Rightarrow> usize \<Rightarrow> 'k world \<Rightarrow>
     ((string + Xsk2) \<times> 'k world) outcome" where
  "Xsk2_new F name queue_id uc sc n_tx_frames tx_batch_size w =
     (if tx_queue_size sc < as_u32 tx_batch_size then Ret (Inl ''tx batch size too large'', w)
      else
        bindO (xsk_setup F name queue_id uc sc w) (\<lambda>((umem, fq, cq, frames), (txq, rxq), w1).
          bindO (sliceO frames 0 n_tx_frames) (\<lambda>txf.
            bindO (sliceO frames n_tx_frames (length frames)) (\<lambda>rxf.
              let tx = XskTx_new F txq cq txf (frame_size uc) tx_batch_size w1 in
              bindO (XskRx_new F rxq fq rxf (frame_size uc) w1) (\<lambda>(rx, w2).
                Ret (Inr \<lparr>x2_if_name = name, x2_tx = tx, x2_rx = rx\<rparr>, w2))))))"

definition from_config :: "'k ffi \<Rightarrow> Xsk2Config \<Rightarrow> 'k world \<Rightarrow> ((string + Xsk2) \<times> 'k world) outcome" where
  "from_config F c w =
     Xsk2_new F (x2c_if_name c) (x2c_queue_id c) (x2c_umem_config c) (x2c_socket_config c)
       (x2c_n_tx_frames c) (x2c_tx_batch_size c) w"

section \<open>The transmit half starts in its invariant\<close>

lemma umem_size_bound:
  assumes "unat (frame_count c) * unat (frame_size c) \<le> 2 ^ 32" "n \<le> unat (frame_count c)"
  shows "n * unat (frame_size c) \<le> 2 ^ 32"
  using assms by (meson le_trans mult_le_mono1)

lemma XskTx_new_inv:
  assumes area: "area_len m = unat (frame_count c) * unat (frame_size c)"
      "unat (frame_count c) * unat (frame_size c) \<le> 2 ^ 32"
    and size: "0 < unat (frame_size c)" "mtu \<le> unat (frame_size c)"
    and n: "0 < n" "n \<le> unat (frame_count c)" and b: "0 < b" "b dvd n"
  shows "tx_inv m (XskTx_new F txq cq (take n (umem_frames m c mtu)) (frame_size c) b w)"
proof -
  let ?fs = "take n (umem_frames m c mtu)" and ?sz = "unat (frame_size c)"
  have nth: "?fs ! i = frame_at m ?sz mtu i" if "i < n" for i using that n(2) by simp
  have "area_len m < 2 ^ 63" using area by (simp add: order.strict_trans1)
  then have "placed (?fs ! i) (i * ?sz) ?sz" if "i < n" for i
    using umem_frames_placed [OF area(1) _ size(2), of i] that n(2) by simp
  then have "tx_frames_inv m ?sz ?fs"
    using size n umem_size_bound [OF area(2) n(2)] by (simp add: tx_frames_inv_def tx_frame_ok_def)
  moreover have "onq ?fs = {}" using n(2) by (auto simp: onq_def)
  ultimately show ?thesis
    using n b by (simp add: tx_inv_def tx_core_def XskTx_new_def)
qed

section \<open>The receive half starts in its invariant\<close>

text \<open>A new receive end: its frames are well-formed, and all of them go to the kernel in order.\<close>

definition rx_fresh :: "XskRx \<Rightarrow> bool" where
  "rx_fresh s \<longleftrightarrow> rx_cursor s = 0 \<and> pkts_rx (rx_stats s) = 0 \<and> pkts_rx_delivered (rx_stats s) = 0"

lemma fresh_rx_frames:
  assumes area: "area_len m = unat (frame_count c) * unat (frame_size c)"
      "unat (frame_count c) * unat (frame_size c) \<le> 2 ^ 32"
    and size: "0 < unat (frame_size c)" "mtu \<le> unat (frame_size c)" and n: "n < unat (frame_count c)"
    and frames: "frames = drop n (umem_frames m c mtu)"
  shows "i < length frames \<Longrightarrow> frames ! i = frame_at m (unat (frame_size c)) mtu (n + i)"
    "rx_frames_inv m n (unat (frame_size c)) frames" "lent frames = {..<length frames}" "filled frames = {}"
    "map (\<lambda>a. a div unat (frame_size c)) (map frame_addr frames) = map ((+) n) [0..<length frames]"
proof -
  let ?sz = "unat (frame_size c)" and ?n = "unat (frame_count c)"
  have len: "length frames = ?n - n" using n frames by simp
  show nth: "frames ! i = frame_at m ?sz mtu (n + i)" if "i < length frames" for i
    using that len frames by simp
  have "rx_frame_ok m ?sz (n + i) (frames ! i)" if "i < length frames" for i
  proof -
    have "Suc (n + i) * ?sz \<le> area_len m" using that len area(1) by (simp only: mult_le_mono1)
    then show ?thesis using nth [OF that] size(1) by (simp add: rx_frame_ok_def add.commute)
  qed
  then show "rx_frames_inv m n ?sz frames" using size(1) area(2) len n by (simp add: rx_frames_inv_def)
  show "lent frames = {..<length frames}" "filled frames = {}" using nth by (auto simp: lent_def filled_def)
  show "map (\<lambda>a. a div ?sz) (map frame_addr frames) = map ((+) n) [0..<length frames]"
    using nth size(1) by (intro nth_equalityI) simp_all
qed

lemma fresh_rx_linked:
  assumes frames: "lent (rx_frames s) = {..<length (rx_frames s)}"
      "map (\<lambda>a. a div unat (rx_frame_size s)) (map frame_addr (rx_frames s)) = map ((+) n) [0..<length (rx_frames s)]"
    and w: "pv_ok P w" "pv_resv P w = 0" "pv_subm P w = map frame_addr (rx_frames s)" "cv_taken R w = []" "cv_peek R w = 0"
  shows "rx_linked P R n s w"
proof -
  have "fill_chunks (unat (rx_frame_size s)) P w = image_mset ((+) n) (mset [0..<length (rx_frames s)])"
    unfolding fill_chunks_def w(3) using arg_cong [OF frames(2), of mset] by (simp only: mset_map)
  moreover have "mset_set (lent (rx_frames s)) = mset [0..<length (rx_frames s)]"
    using frames(1) by (simp add: atLeast0LessThan)
  ultimately show ?thesis using w by (simp add: rx_linked_def desc_chunks_def)
qed

lemma XskRx_new_ok:
  assumes area: "area_len m = unat (frame_count c) * unat (frame_size c)"
      "unat (frame_count c) * unat (frame_size c) \<le> 2 ^ 32"
    and size: "0 < unat (frame_size c)" "mtu \<le> unat (frame_size c)" and n: "n < unat (frame_count c)"
    and frames: "frames = drop n (umem_frames m c mtu)"
    and con: "fill_contract F fq P" "keeps (pv_ok P) (\<lambda>w'. rx_same R w w' \<and> I w') (fill_ops F fq)" "I w"
    and start: "pv_ok P w" "pv_resv P w = 0" "pv_subm P w = []" "cv_taken R w = []" "cv_peek R w = 0"
    and room: "length frames \<le> pv_free P w" "idx_room F (length frames)"
  shows "\<exists>s w'. XskRx_new F rq fq frames (frame_size c) w = Ret (s, w') \<and> rx_inv m n s \<and>
    rx_linked P R n s w' \<and> pv_subm P w' = map frame_addr frames \<and> fill_q s = fq \<and> rx_q s = rq \<and>
    rx_frames s = frames \<and> rx_frame_size s = frame_size c \<and> rx_fresh s \<and> cv_taken R w' = [] \<and> I w'"
proof -
  note fr = fresh_rx_frames [OF area size n frames]
  have len: "0 < length frames" using n frames by simp
  obtain w' where w': "FillQueue_produce F fq frames w = Ret (length frames, w')" "pv_ok P w'"
    "pv_resv P w' = 0" "pv_subm P w' = map frame_addr frames" "rx_same R w w'" "I w'"
    using fill.produce_fits [OF con(1) start(1,2) _ room(1) con(2)] con(3) start(3) room(2) by auto
  have taken: "cv_taken R w' = []" "cv_peek R w' = 0" using w'(5) start(4,5) by (simp_all add: rx_same_def)
  define s where "s = \<lparr>fill_q = fq, rx_q = rq, rx_frames = frames,
      filled_frames = replicate (length frames) (0, 0, 0), processed_frames = [],
      rx_frame_offset = frame_addr (frames ! 0), n_frames_to_be_filled = length frames,
      rx_frame_size = frame_size c, rx_cursor = 0, poll_ms_timeout = 0, rx_stats = RxStats_new F w'\<rparr>"
  have run: "XskRx_new F rq fq frames (frame_size c) w = Ret (s, w')"
    using len w'(1) by (simp add: XskRx_new_def s_def)
  have "frame_addr (frames ! 0) = n * unat (frame_size c)" using fr(1) [OF len] by simp
  then have "rx_inv m n s" "rx_fresh s"
    using fr(2-4) len by (simp_all add: s_def rx_inv_def rx_core_def RxStats_new_def rx_fresh_def)
  moreover have "rx_linked P R n s w'"
    using fresh_rx_linked [of s n P w' R] fr(3,5) w'(2-4) taken by (simp add: s_def)
  ultimately show ?thesis using run w'(4,6) taken(1) by (auto simp: s_def)
qed

section \<open>Setting up\<close>

text \<open>The C calls behind a successful setup, with the pointers they return.\<close>

definition sys_setup ::
    "'k ffi \<Rightarrow> string \<Rightarrow> u32 \<Rightarrow> UmemConfig \<Rightarrow> SocketConfig \<Rightarrow> 'k world \<Rightarrow> nat \<Rightarrow> umem_ptr \<Rightarrow> ring \<Rightarrow> ring \<Rightarrow>
     socket_ptr \<Rightarrow> ring \<Rightarrow> ring \<Rightarrow> i32 \<Rightarrow> 'k world \<Rightarrow> bool" where
  "sys_setup F name queue_id uc sc w p up fr cr sp rr tr fd w3 \<longleftrightarrow>
     (let A = abi F; len = unat (frame_count uc) * unat (frame_size uc);
          flags = or (MAP_ANONYMOUS A) (MAP_PRIVATE A);
          (p', w1) = libc_mmap F len (or (PROT_READ A) (PROT_WRITE A))
                       (if use_huge_pages uc then or flags (MAP_HUGETLB A) else flags) w;
          (u', w2) = xsk_umem__create F p len
             \<lparr>uc_fill_size = fill_queue_size uc, uc_comp_size = comp_queue_size uc,
              uc_frame_size = frame_size uc, uc_frame_headroom = frame_headroom uc, uc_flags = 0\<rparr> w1;
          (s', w3') = xsk_socket__create F name queue_id up
             \<lparr>sc_rx_size = rx_queue_size sc, sc_tx_size = tx_queue_size sc, sc_xdp_flags = xdp_flags sc,
              sc_bind_flags = bind_flags sc, sc_libbpf_flags = libbpf_flags sc\<rparr> w2
      in p' = p \<and> p \<noteq> MAP_FAILED A \<and> u' = (0, up, fr, cr) \<and> up \<noteq> 0 \<and> s' = (0, sp, rr, tr) \<and> w3' = w3 \<and>
         xsk_socket__fd F sp w3 = fd \<and> 0 \<le> fd \<and> CHR 0x00 \<notin> set name)"

definition the_mtu :: "'k ffi \<Rightarrow> UmemConfig \<Rightarrow> nat" where
  "the_mtu F uc = unat (frame_size uc) - (unat (XDP_PACKET_HEADROOM (abi F)) + unat (frame_headroom uc))"

lemma CString_new_ok:
  assumes "CHR 0x00 \<notin> set s"
  shows "CString_new s = Inr s"
proof -
  have "length (takeWhile (\<lambda>c. c \<noteq> CHR 0x00) s) = length s"
    using assms by (induction s) auto
  then show ?thesis by (simp add: CString_new_def Let_def)
qed

lemma xsk_setup_ok:
  assumes sys: "sys_setup F name queue_id uc sc w p up fr cr sp rr tr fd w3"
    and fits: "unat (XDP_PACKET_HEADROOM (abi F)) + unat (frame_headroom uc) \<le> unat (frame_size uc)"
    and m: "m = \<lparr>area_len = unat (frame_count uc) * unat (frame_size uc), mem_ptr = p\<rparr>"
  shows "xsk_setup F name queue_id uc sc w =
    Ret ((\<lparr>umem_config = uc, umem_mtu = the_mtu F uc, umem_inner = up\<rparr>,
          \<lparr>fq_size = fill_queue_size uc, fq_inner = fr\<rparr>, \<lparr>cq_size = comp_queue_size uc, cq_inner = cr\<rparr>,
          umem_frames m uc (the_mtu F uc)),
         (\<lparr>tq_inner = tr, tq_fd = Fd_new (abi F) fd, tq_socket = \<lparr>sock_inner = sp\<rparr>\<rparr>,
          \<lparr>rq_inner = rr, rq_fd = Fd_new (abi F) fd, rq_socket = \<lparr>sock_inner = sp\<rparr>\<rparr>), w3)"
proof -
  obtain w1 where mm: "create_mmap F (Umem_builder uc) w = Ret (Inr \<lparr>ubm_config = uc, ubm_mmap_area = m\<rparr>, w1)"
    and w1: "\<exists>w2. xsk_umem__create F p (area_len m)
         \<lparr>uc_fill_size = fill_queue_size uc, uc_comp_size = comp_queue_size uc,
          uc_frame_size = frame_size uc, uc_frame_headroom = frame_headroom uc, uc_flags = 0\<rparr> w1 =
         ((0, up, fr, cr), w2) \<and>
       xsk_socket__create F name queue_id up
         \<lparr>sc_rx_size = rx_queue_size sc, sc_tx_size = tx_queue_size sc, sc_xdp_flags = xdp_flags sc,
          sc_bind_flags = bind_flags sc, sc_libbpf_flags = libbpf_flags sc\<rparr> w2 = ((0, sp, rr, tr), w3)"
    using sys m
    by (auto simp: sys_setup_def create_mmap_def Umem_builder_def umem_len_total MmapArea_new_def Let_def
        split: prod.splits)
  from w1 obtain w2 where w2: "xsk_umem__create F p (area_len m)
         \<lparr>uc_fill_size = fill_queue_size uc, uc_comp_size = comp_queue_size uc,
          uc_frame_size = frame_size uc, uc_frame_headroom = frame_headroom uc, uc_flags = 0\<rparr> w1 =
         ((0, up, fr, cr), w2)"
      "xsk_socket__create F name queue_id up
         \<lparr>sc_rx_size = rx_queue_size sc, sc_tx_size = tx_queue_size sc, sc_xdp_flags = xdp_flags sc,
          sc_bind_flags = bind_flags sc, sc_libbpf_flags = libbpf_flags sc\<rparr> w2 = ((0, sp, rr, tr), w3)"
    by blast
  have um: "create_umem F \<lparr>ubm_config = uc, ubm_mmap_area = m\<rparr> w1 =
      Ret (Inr (\<lparr>umem_config = uc, umem_mtu = the_mtu F uc, umem_inner = up\<rparr>,
          \<lparr>fq_size = fill_queue_size uc, fq_inner = fr\<rparr>, \<lparr>cq_size = comp_queue_size uc, cq_inner = cr\<rparr>,
          umem_frames m uc (the_mtu F uc)), w2)"
    using create_umem_ok [of F "\<lparr>ubm_config = uc, ubm_mmap_area = m\<rparr>" w1 up fr cr w2 "the_mtu F uc"] w2(1) fits m
    by (simp add: the_mtu_def)
  have "up \<noteq> 0" "xsk_socket__fd F sp w3 = fd" "0 \<le> fd" "CHR 0x00 \<notin> set name"
    using sys by (auto simp: sys_setup_def Let_def split: prod.splits)
  then have so: "Socket_new F sc \<lparr>umem_config = uc, umem_mtu = the_mtu F uc, umem_inner = up\<rparr> name queue_id w2 =
      Ret (Inr (\<lparr>tq_inner = tr, tq_fd = Fd_new (abi F) fd, tq_socket = \<lparr>sock_inner = sp\<rparr>\<rparr>,
          \<lparr>rq_inner = rr, rq_fd = Fd_new (abi F) fd, rq_socket = \<lparr>sock_inner = sp\<rparr>\<rparr>), w3)"
    using w2(2) by (simp add: Socket_new_def CString_new_ok Umem_as_mut_ptr_def Let_def)
  show ?thesis using mm um so by (simp add: xsk_setup_def)
qed

section \<open>A successful build\<close>

text \<open>The transmit rings before anything was sent.\<close>

definition tx_idle :: "('k, xdp_desc) prod_view \<Rightarrow> ('k, u64) cons_view \<Rightarrow> 'k world \<Rightarrow> bool" where
  "tx_idle T C w \<longleftrightarrow>
     pv_ok T w \<and> pv_resv T w = 0 \<and> cv_peek C w = 0 \<and> pv_subm T w = [] \<and> cv_taken C w = []"

lemma XskTx_new_linked:
  assumes "tx_idle T C w'" "onq frames = {}"
  shows "tx_linked T C (XskTx_new F txq cq frames sz b w) w'"
  using assms by (simp add: tx_idle_def tx_linked_def XskTx_new_def TxStats_new_def)

lemma Xsk2_new_core:
  assumes init: "xsk_setup F name queue_id uc sc w =
      Ret ((umem, fq, cq, umem_frames m uc mtu), (tq, rq), w1)"
    and area: "area_len m = unat (frame_count uc) * unat (frame_size uc)"
      "unat (frame_count uc) * unat (frame_size uc) \<le> 2 ^ 32" "0 < unat (frame_size uc)" "mtu \<le> unat (frame_size uc)"
    and n: "0 < n" "n < unat (frame_count uc)"
    and b: "0 < b" "b dvd n" "b \<le> unat (tx_queue_size sc)"
    and con: "fill_contract F fq P" "keeps (pv_ok P) (\<lambda>w'. rx_same R w1 w' \<and> tx_idle T C w') (fill_ops F fq)"
      "tx_idle T C w1"
    and start: "pv_ok P w1" "pv_resv P w1 = 0" "pv_subm P w1 = []" "cv_taken R w1 = []" "cv_peek R w1 = 0"
    and room: "unat (frame_count uc) - n \<le> pv_free P w1" "idx_room F (unat (frame_count uc))"
  shows "\<exists>x w'. Xsk2_new F name queue_id uc sc n b w = Ret (Inr x, w') \<and> tx_inv m (x2_tx x) \<and>
    tx_linked T C (x2_tx x) w' \<and> rx_inv m n (x2_rx x) \<and> rx_linked P R n (x2_rx x) w' \<and>
    pv_subm P w' = map (\<lambda>i. i * unat (frame_size uc)) [n..<unat (frame_count uc)] \<and>
    length (tx_frames (x2_tx x)) = n \<and> length (rx_frames (x2_rx x)) = unat (frame_count uc) - n \<and>
    rx_frame_size (x2_rx x) = frame_size uc \<and> rx_fresh (x2_rx x) \<and> cv_taken R w' = []"
proof -
  let ?fs = "umem_frames m uc mtu" and ?N = "unat (frame_count uc)"
  have "b < 2 ^ 32" using b(3) as_usize_less [of "tx_queue_size sc"] by (simp add: as_usize_def)
  then have chk: "\<not> tx_queue_size sc < as_u32 b" using b(3) by (simp add: word_less_nat_alt)
  have room': "length (drop n ?fs) \<le> pv_free P w1" "idx_room F (length (drop n ?fs))"
    using room by (auto intro: idx_room_mono)
  obtain rx w' where rx: "XskRx_new F rq fq (drop n ?fs) (frame_size uc) w1 = Ret (rx, w')" "rx_inv m n rx"
    "rx_linked P R n rx w'" "pv_subm P w' = map frame_addr (drop n ?fs)" "rx_frames rx = drop n ?fs" "tx_idle T C w'"
    "rx_frame_size rx = frame_size uc" "rx_fresh rx" "cv_taken R w' = []"
    using XskRx_new_ok [OF area n(2) refl con start room'] by blast
  let ?tx = "XskTx_new F tq cq (take n ?fs) (frame_size uc) b w1"
  have "onq (take n ?fs) = {}" using n(2) by (auto simp: onq_def)
  then have tx: "tx_inv m ?tx" "tx_linked T C ?tx w'"
    using XskTx_new_inv [OF area n(1) _ b(1,2)] n(2) XskTx_new_linked [OF rx(6)] by simp_all
  have "Xsk2_new F name queue_id uc sc n b w = Ret (Inr \<lparr>x2_if_name = name, x2_tx = ?tx, x2_rx = rx\<rparr>, w')"
    using chk init rx(1) n(2) by (simp add: Xsk2_new_def Let_def)
  moreover have "map frame_addr (drop n ?fs) = map (\<lambda>i. i * unat (frame_size uc)) [n..<?N]"
    using n(2) by (intro nth_equalityI) simp_all
  ultimately show ?thesis using tx rx(2-5,7-9) n(2) by (simp add: XskTx_new_def)
qed

text \<open>The memory of the two ends.\<close>

lemma ends_apart:
  assumes "length (tx_frames s) \<le> base" "tx_frame_size s = rx_frame_size r" "i < length (rx_frames r)"
  shows "tx_bytes m s \<inter> chunk_bytes m (unat (rx_frame_size r)) (base + i) = {}"
proof -
  have "length (tx_frames s) * unat (rx_frame_size r) \<le> (base + i) * unat (rx_frame_size r)"
    using assms(1) by (intro mult_le_mono1) simp
  then show ?thesis using assms(2) by (auto simp: tx_bytes_def chunk_bytes_def)
qed

text \<open>The size check casts the batch size to 32 bits first.\<close>

lemma batch_check_truncates: "tx_queue_size sc < as_u32 b \<longleftrightarrow> unat (tx_queue_size sc) < b mod 2 ^ 32"
  by (simp add: word_less_nat_alt unat_as_u32)

end
