(* ===== verification/Iface.thy ===== *)
theory Iface
  imports Xdp_Platform "HOL-Library.Monad_Syntax"
begin

text \<open>
  \<^verbatim>\<open>src/src/iface.rs\<close>: the counters of a network interface, read from
  \<^verbatim>\<open>/sys/class/net\<close>, and their difference. A \<open>HashMap\<close> is a map; \<open>read_to_string\<close> is
  the platform's; \<open>trim\<close> and \<open>parse\<close> are written out for the one-byte characters of these
  files.
\<close>

section \<open>Definitions\<close>

definition is_whitespace :: "char \<Rightarrow> bool" where
  "is_whitespace c \<longleftrightarrow> (let n = (of_char c :: nat) in 9 \<le> n \<and> n \<le> 13 \<or> n = 32 \<or> n = 133 \<or> n = 160)"

definition trim :: "string \<Rightarrow> string" where
  "trim s = rev (dropWhile is_whitespace (rev (dropWhile is_whitespace s)))"

fun parse_digits :: "nat \<Rightarrow> string \<Rightarrow> nat option" where
  "parse_digits acc [] = Some acc"
| "parse_digits acc (c # cs) =
     (let n = (of_char c :: nat) in
      if 48 \<le> n \<and> n \<le> 57 \<and> acc * 10 + (n - 48) < 2 ^ 64
      then parse_digits (acc * 10 + (n - 48)) cs else None)"

text \<open>\<open>str::parse::<u64>\<close>: an optional plus sign and at least one digit.\<close>

definition parse_u64 :: "string \<Rightarrow> u64 option" where
  "parse_u64 s =
     (case s of
        [] \<Rightarrow> None
      | c # cs \<Rightarrow> if c = CHR ''+'' then (if cs = [] then None else parse_digits 0 cs) else parse_digits 0 s)"

record InterfaceStatsRx =
  st_rx_bytes :: u64
  st_rx_compressed :: u64
  st_rx_crc_errors :: u64
  st_rx_dropped :: u64
  st_rx_errors :: u64
  st_rx_fifo_errors :: u64
  st_rx_frame_errors :: u64
  st_rx_length_errors :: u64
  st_rx_missed_errors :: u64
  st_rx_nohandler :: u64
  st_rx_over_errors :: u64
  st_rx_packets :: u64

definition RX_FIELD_NAMES :: "string list" where
  "RX_FIELD_NAMES =
     [''rx_bytes'',
      ''rx_compressed'',
      ''rx_crc_errors'',
      ''rx_dropped'',
      ''rx_errors'',
      ''rx_fifo_errors'',
      ''rx_frame_errors'',
      ''rx_length_errors'',
      ''rx_missed_errors'',
      ''rx_nohandler'',
      ''rx_over_errors'',
      ''rx_packets'']"

definition InterfaceStatsRx_from_map :: "(string \<rightharpoonup> u64) \<Rightarrow> InterfaceStatsRx option" where
  "InterfaceStatsRx_from_map m = do {
     x0 \<leftarrow> m ''rx_bytes'';
     x1 \<leftarrow> m ''rx_compressed'';
     x2 \<leftarrow> m ''rx_crc_errors'';
     x3 \<leftarrow> m ''rx_dropped'';
     x4 \<leftarrow> m ''rx_errors'';
     x5 \<leftarrow> m ''rx_fifo_errors'';
     x6 \<leftarrow> m ''rx_frame_errors'';
     x7 \<leftarrow> m ''rx_length_errors'';
     x8 \<leftarrow> m ''rx_missed_errors'';
     x9 \<leftarrow> m ''rx_nohandler'';
     x10 \<leftarrow> m ''rx_over_errors'';
     x11 \<leftarrow> m ''rx_packets'';
     Some \<lparr>st_rx_bytes = x0,
           st_rx_compressed = x1,
           st_rx_crc_errors = x2,
           st_rx_dropped = x3,
           st_rx_errors = x4,
           st_rx_fifo_errors = x5,
           st_rx_frame_errors = x6,
           st_rx_length_errors = x7,
           st_rx_missed_errors = x8,
           st_rx_nohandler = x9,
           st_rx_over_errors = x10,
           st_rx_packets = x11\<rparr> }"

definition InterfaceStatsRx_sub :: "bool \<Rightarrow> InterfaceStatsRx \<Rightarrow> InterfaceStatsRx \<Rightarrow> InterfaceStatsRx outcome" where
  "InterfaceStatsRx_sub chk a b =
     bindO (sub64 chk (st_rx_bytes a) (st_rx_bytes b)) (\<lambda>x0.
     bindO (sub64 chk (st_rx_compressed a) (st_rx_compressed b)) (\<lambda>x1.
     bindO (sub64 chk (st_rx_crc_errors a) (st_rx_crc_errors b)) (\<lambda>x2.
     bindO (sub64 chk (st_rx_dropped a) (st_rx_dropped b)) (\<lambda>x3.
     bindO (sub64 chk (st_rx_errors a) (st_rx_errors b)) (\<lambda>x4.
     bindO (sub64 chk (st_rx_fifo_errors a) (st_rx_fifo_errors b)) (\<lambda>x5.
     bindO (sub64 chk (st_rx_frame_errors a) (st_rx_frame_errors b)) (\<lambda>x6.
     bindO (sub64 chk (st_rx_length_errors a) (st_rx_length_errors b)) (\<lambda>x7.
     bindO (sub64 chk (st_rx_missed_errors a) (st_rx_missed_errors b)) (\<lambda>x8.
     bindO (sub64 chk (st_rx_nohandler a) (st_rx_nohandler b)) (\<lambda>x9.
     bindO (sub64 chk (st_rx_over_errors a) (st_rx_over_errors b)) (\<lambda>x10.
     bindO (sub64 chk (st_rx_packets a) (st_rx_packets b)) (\<lambda>x11.
     Ret \<lparr>st_rx_bytes = x0,
          st_rx_compressed = x1,
          st_rx_crc_errors = x2,
          st_rx_dropped = x3,
          st_rx_errors = x4,
          st_rx_fifo_errors = x5,
          st_rx_frame_errors = x6,
          st_rx_length_errors = x7,
          st_rx_missed_errors = x8,
          st_rx_nohandler = x9,
          st_rx_over_errors = x10,
          st_rx_packets = x11\<rparr>))))))))))))"

definition InterfaceStatsRx_fields :: "InterfaceStatsRx \<Rightarrow> u64 list" where
  "InterfaceStatsRx_fields a =
     [st_rx_bytes a,
      st_rx_compressed a,
      st_rx_crc_errors a,
      st_rx_dropped a,
      st_rx_errors a,
      st_rx_fifo_errors a,
      st_rx_frame_errors a,
      st_rx_length_errors a,
      st_rx_missed_errors a,
      st_rx_nohandler a,
      st_rx_over_errors a,
      st_rx_packets a]"

record InterfaceStatsTx =
  st_tx_aborted_errors :: u64
  st_tx_bytes :: u64
  st_tx_carrier_errors :: u64
  st_tx_compressed :: u64
  st_tx_dropped :: u64
  st_tx_errors :: u64
  st_tx_fifo_errors :: u64
  st_tx_heartbeat_errors :: u64
  st_tx_packets :: u64
  st_tx_window_errors :: u64

definition TX_FIELD_NAMES :: "string list" where
  "TX_FIELD_NAMES =
     [''tx_aborted_errors'',
      ''tx_bytes'',
      ''tx_carrier_errors'',
      ''tx_compressed'',
      ''tx_dropped'',
      ''tx_errors'',
      ''tx_fifo_errors'',
      ''tx_heartbeat_errors'',
      ''tx_packets'',
      ''tx_window_errors'']"

definition InterfaceStatsTx_from_map :: "(string \<rightharpoonup> u64) \<Rightarrow> InterfaceStatsTx option" where
  "InterfaceStatsTx_from_map m = do {
     x0 \<leftarrow> m ''tx_aborted_errors'';
     x1 \<leftarrow> m ''tx_bytes'';
     x2 \<leftarrow> m ''tx_carrier_errors'';
     x3 \<leftarrow> m ''tx_compressed'';
     x4 \<leftarrow> m ''tx_dropped'';
     x5 \<leftarrow> m ''tx_errors'';
     x6 \<leftarrow> m ''tx_fifo_errors'';
     x7 \<leftarrow> m ''tx_heartbeat_errors'';
     x8 \<leftarrow> m ''tx_packets'';
     x9 \<leftarrow> m ''tx_window_errors'';
     Some \<lparr>st_tx_aborted_errors = x0,
           st_tx_bytes = x1,
           st_tx_carrier_errors = x2,
           st_tx_compressed = x3,
           st_tx_dropped = x4,
           st_tx_errors = x5,
           st_tx_fifo_errors = x6,
           st_tx_heartbeat_errors = x7,
           st_tx_packets = x8,
           st_tx_window_errors = x9\<rparr> }"

definition InterfaceStatsTx_sub :: "bool \<Rightarrow> InterfaceStatsTx \<Rightarrow> InterfaceStatsTx \<Rightarrow> InterfaceStatsTx outcome" where
  "InterfaceStatsTx_sub chk a b =
     bindO (sub64 chk (st_tx_aborted_errors a) (st_tx_aborted_errors b)) (\<lambda>x0.
     bindO (sub64 chk (st_tx_bytes a) (st_tx_bytes b)) (\<lambda>x1.
     bindO (sub64 chk (st_tx_carrier_errors a) (st_tx_carrier_errors b)) (\<lambda>x2.
     bindO (sub64 chk (st_tx_compressed a) (st_tx_compressed b)) (\<lambda>x3.
     bindO (sub64 chk (st_tx_dropped a) (st_tx_dropped b)) (\<lambda>x4.
     bindO (sub64 chk (st_tx_errors a) (st_tx_errors b)) (\<lambda>x5.
     bindO (sub64 chk (st_tx_fifo_errors a) (st_tx_fifo_errors b)) (\<lambda>x6.
     bindO (sub64 chk (st_tx_heartbeat_errors a) (st_tx_heartbeat_errors b)) (\<lambda>x7.
     bindO (sub64 chk (st_tx_packets a) (st_tx_packets b)) (\<lambda>x8.
     bindO (sub64 chk (st_tx_window_errors a) (st_tx_window_errors b)) (\<lambda>x9.
     Ret \<lparr>st_tx_aborted_errors = x0,
          st_tx_bytes = x1,
          st_tx_carrier_errors = x2,
          st_tx_compressed = x3,
          st_tx_dropped = x4,
          st_tx_errors = x5,
          st_tx_fifo_errors = x6,
          st_tx_heartbeat_errors = x7,
          st_tx_packets = x8,
          st_tx_window_errors = x9\<rparr>))))))))))"

definition InterfaceStatsTx_fields :: "InterfaceStatsTx \<Rightarrow> u64 list" where
  "InterfaceStatsTx_fields a =
     [st_tx_aborted_errors a,
      st_tx_bytes a,
      st_tx_carrier_errors a,
      st_tx_compressed a,
      st_tx_dropped a,
      st_tx_errors a,
      st_tx_fifo_errors a,
      st_tx_heartbeat_errors a,
      st_tx_packets a,
      st_tx_window_errors a]"

record InterfaceStats =
  st_tx :: InterfaceStatsTx
  st_rx :: InterfaceStatsRx

text \<open>The loop both \<open>new\<close> functions run over their field names.\<close>

definition stat_path :: "string \<Rightarrow> string \<Rightarrow> string" where
  "stat_path if_name field = ''/sys/class/net/'' @ if_name @ ''/statistics/'' @ field"

fun read_fields ::
    "'k ffi \<Rightarrow> string \<Rightarrow> 'k world \<Rightarrow> string list \<Rightarrow> (string \<rightharpoonup> u64) \<Rightarrow> (io_error + (string \<rightharpoonup> u64)) outcome" where
  "read_fields F if_name w [] m = Ret (Inr m)"
| "read_fields F if_name w (f # fs) m =
     (case read_to_string F (stat_path if_name f) w of
        Inl e \<Rightarrow> Ret (Inl e)
      | Inr contents \<Rightarrow>
          bindO (expectO ''failed to parse'' (parse_u64 (trim contents))) (\<lambda>v.
            read_fields F if_name w fs (m(f \<mapsto> v))))"

definition InterfaceStatsRx_new ::
    "'k ffi \<Rightarrow> string \<Rightarrow> 'k world \<Rightarrow> (io_error + InterfaceStatsRx) outcome" where
  "InterfaceStatsRx_new F if_name w =
     bindO (read_fields F if_name w RX_FIELD_NAMES Map.empty) (\<lambda>r.
       case r of
         Inl e \<Rightarrow> Ret (Inl e)
       | Inr m \<Rightarrow> bindO (expectO ''stats missing field'' (InterfaceStatsRx_from_map m)) (\<lambda>s. Ret (Inr s)))"

definition InterfaceStatsTx_new ::
    "'k ffi \<Rightarrow> string \<Rightarrow> 'k world \<Rightarrow> (io_error + InterfaceStatsTx) outcome" where
  "InterfaceStatsTx_new F if_name w =
     bindO (read_fields F if_name w TX_FIELD_NAMES Map.empty) (\<lambda>r.
       case r of
         Inl e \<Rightarrow> Ret (Inl e)
       | Inr m \<Rightarrow> bindO (expectO ''stats missing field'' (InterfaceStatsTx_from_map m)) (\<lambda>s. Ret (Inr s)))"

definition InterfaceStats_new :: "'k ffi \<Rightarrow> string \<Rightarrow> 'k world \<Rightarrow> InterfaceStats outcome" where
  "InterfaceStats_new F if_name w =
     bindO (InterfaceStatsRx_new F if_name w) (\<lambda>r.
       bindO (expectR ''failed to get rx stats'' r) (\<lambda>rx.
         bindO (InterfaceStatsTx_new F if_name w) (\<lambda>r.
           bindO (expectR ''failed to get tx stats'' r) (\<lambda>tx.
             Ret \<lparr>st_tx = tx, st_rx = rx\<rparr>))))"

definition InterfaceStats_sub :: "bool \<Rightarrow> InterfaceStats \<Rightarrow> InterfaceStats \<Rightarrow> InterfaceStats outcome" where
  "InterfaceStats_sub chk a b =
     bindO (InterfaceStatsTx_sub chk (st_tx a) (st_tx b)) (\<lambda>tx.
       bindO (InterfaceStatsRx_sub chk (st_rx a) (st_rx b)) (\<lambda>rx.
         Ret \<lparr>st_tx = tx, st_rx = rx\<rparr>))"

definition InterfaceStats_fields :: "InterfaceStats \<Rightarrow> u64 list" where
  "InterfaceStats_fields a = InterfaceStatsTx_fields (st_tx a) @ InterfaceStatsRx_fields (st_rx a)"

text \<open>What the files of an interface hold: a number for every counter.\<close>

definition sysfs_law :: "'k ffi \<Rightarrow> string \<Rightarrow> 'k world \<Rightarrow> string list \<Rightarrow> (string \<Rightarrow> u64) \<Rightarrow> bool" where
  "sysfs_law F if_name w names v \<longleftrightarrow>
     (\<forall>f \<in> set names. \<exists>contents. read_to_string F (stat_path if_name f) w = Inr contents \<and>
        parse_u64 (trim contents) = Some (v f))"

section \<open>Subtracting counter records\<close>

locale counter_record =
  fixes sub :: "bool \<Rightarrow> 'a \<Rightarrow> 'a \<Rightarrow> 'a outcome"
    and flds :: "'a \<Rightarrow> u64 list"
  assumes flds_inj: "flds a = flds b \<Longrightarrow> a = b"
    and flds_length: "length (flds a) = length (flds b)"
    and sub_ok: "list_all2 (\<le>) (flds b) (flds a) \<Longrightarrow>
      \<exists>d. sub chk a b = Ret d \<and> flds d = map2 (-) (flds a) (flds b)"
    and sub_underflow: "\<not> list_all2 (\<le>) (flds b) (flds a) \<Longrightarrow> sub True a b = Panic ArithOverflow"
begin

lemma sub_checked_iff: "(\<exists>d. sub True a b = Ret d) \<longleftrightarrow> list_all2 (\<le>) (flds b) (flds a)"
  using sub_ok sub_underflow by (metis outcome.distinct(1))

lemma sub_self:
  shows "\<exists>z. sub chk a a = Ret z \<and> flds z = replicate (length (flds a)) 0"
proof -
  have "list_all2 (\<le>) (flds a) (flds a)" by (simp add: list.rel_refl)
  moreover have "map2 (-) (flds a) (flds a) = replicate (length (flds a)) 0"
    by (rule nth_equalityI) simp_all
  ultimately show ?thesis using sub_ok by metis
qed

lemma sub_restores:
  assumes "sub True a b = Ret d"
  shows "map2 (+) (flds d) (flds b) = flds a"
proof -
  have le: "list_all2 (\<le>) (flds b) (flds a)" using assms sub_checked_iff by blast
  then have "flds d = map2 (-) (flds a) (flds b)" using assms sub_ok [of b a True] by auto
  then show ?thesis
    using le flds_length [of a b]
    by (intro nth_equalityI) (auto simp: list_all2_conv_all_nth)
qed

end

lemmas stat_field_defs = InterfaceStatsRx_fields_def InterfaceStatsTx_fields_def

interpretation rx_stats: counter_record InterfaceStatsRx_sub InterfaceStatsRx_fields
proof
  fix a b :: InterfaceStatsRx and chk
  show "a = b" if "InterfaceStatsRx_fields a = InterfaceStatsRx_fields b"
    using that by (cases a, cases b) (simp add: stat_field_defs)
  show "length (InterfaceStatsRx_fields a) = length (InterfaceStatsRx_fields b)"
    by (simp add: stat_field_defs)
  show "\<exists>d. InterfaceStatsRx_sub chk a b = Ret d \<and>
      InterfaceStatsRx_fields d = map2 (-) (InterfaceStatsRx_fields a) (InterfaceStatsRx_fields b)"
    if "list_all2 (\<le>) (InterfaceStatsRx_fields b) (InterfaceStatsRx_fields a)"
    using that by (simp add: stat_field_defs InterfaceStatsRx_sub_def)
  show "InterfaceStatsRx_sub True a b = Panic ArithOverflow"
    if "\<not> list_all2 (\<le>) (InterfaceStatsRx_fields b) (InterfaceStatsRx_fields a)"
    using that by (auto simp: stat_field_defs InterfaceStatsRx_sub_def sub64_def)
qed

interpretation tx_stats: counter_record InterfaceStatsTx_sub InterfaceStatsTx_fields
proof
  fix a b :: InterfaceStatsTx and chk
  show "a = b" if "InterfaceStatsTx_fields a = InterfaceStatsTx_fields b"
    using that by (cases a, cases b) (simp add: stat_field_defs)
  show "length (InterfaceStatsTx_fields a) = length (InterfaceStatsTx_fields b)"
    by (simp add: stat_field_defs)
  show "\<exists>d. InterfaceStatsTx_sub chk a b = Ret d \<and>
      InterfaceStatsTx_fields d = map2 (-) (InterfaceStatsTx_fields a) (InterfaceStatsTx_fields b)"
    if "list_all2 (\<le>) (InterfaceStatsTx_fields b) (InterfaceStatsTx_fields a)"
    using that by (simp add: stat_field_defs InterfaceStatsTx_sub_def)
  show "InterfaceStatsTx_sub True a b = Panic ArithOverflow"
    if "\<not> list_all2 (\<le>) (InterfaceStatsTx_fields b) (InterfaceStatsTx_fields a)"
    using that by (auto simp: stat_field_defs InterfaceStatsTx_sub_def sub64_def)
qed

lemma list_all2_append_len:
  "length as = length bs \<Longrightarrow> list_all2 P (as @ cs) (bs @ ds) \<longleftrightarrow> list_all2 P as bs \<and> list_all2 P cs ds"
  by (simp add: list_all2_append)

lemma map2_append_len:
  "length as = length bs \<Longrightarrow> map2 f (as @ cs) (bs @ ds) = map2 f as bs @ map2 f cs ds"
  by simp

interpretation iface: counter_record InterfaceStats_sub InterfaceStats_fields
proof
  fix a b :: InterfaceStats and chk
  note lens = tx_stats.flds_length [of "st_tx a" "st_tx b"] rx_stats.flds_length [of "st_rx a" "st_rx b"]
  show "a = b" if "InterfaceStats_fields a = InterfaceStats_fields b"
  proof -
    have "InterfaceStatsTx_fields (st_tx a) = InterfaceStatsTx_fields (st_tx b)"
        "InterfaceStatsRx_fields (st_rx a) = InterfaceStatsRx_fields (st_rx b)"
      using that lens by (simp_all add: InterfaceStats_fields_def)
    then show ?thesis using tx_stats.flds_inj rx_stats.flds_inj by (cases a, cases b) auto
  qed
  show "length (InterfaceStats_fields a) = length (InterfaceStats_fields b)"
    using lens by (simp add: InterfaceStats_fields_def)
  show "\<exists>d. InterfaceStats_sub chk a b = Ret d \<and>
      InterfaceStats_fields d = map2 (-) (InterfaceStats_fields a) (InterfaceStats_fields b)"
    if "list_all2 (\<le>) (InterfaceStats_fields b) (InterfaceStats_fields a)"
    using that lens tx_stats.sub_ok [of "st_tx b" "st_tx a" chk] rx_stats.sub_ok [of "st_rx b" "st_rx a" chk]
    by (auto simp: InterfaceStats_fields_def InterfaceStats_sub_def list_all2_append_len map2_append_len)
  show "InterfaceStats_sub True a b = Panic ArithOverflow"
    if bad: "\<not> list_all2 (\<le>) (InterfaceStats_fields b) (InterfaceStats_fields a)"
  proof (cases "list_all2 (\<le>) (InterfaceStatsTx_fields (st_tx b)) (InterfaceStatsTx_fields (st_tx a))")
    case True
    then have "\<not> list_all2 (\<le>) (InterfaceStatsRx_fields (st_rx b)) (InterfaceStatsRx_fields (st_rx a))"
      using bad lens by (simp add: InterfaceStats_fields_def list_all2_append_len)
    then show ?thesis
      using tx_stats.sub_ok [OF True, of True] rx_stats.sub_underflow by (auto simp: InterfaceStats_sub_def)
  next
    case False
    then show ?thesis using tx_stats.sub_underflow by (simp add: InterfaceStats_sub_def)
  qed
qed

section \<open>Reading the counters\<close>

lemma sysfs_law_Cons:
  assumes "sysfs_law F if_name w (f # fs) v"
  obtains contents where "read_to_string F (stat_path if_name f) w = Inr contents"
    "parse_u64 (trim contents) = Some (v f)" "sysfs_law F if_name w fs v"
  using assms unfolding sysfs_law_def by auto

lemma read_fields_ok:
  "sysfs_law F if_name w fs v \<Longrightarrow>
   \<exists>m'. read_fields F if_name w fs m = Ret (Inr m') \<and> (\<forall>f \<in> set fs. m' f = Some (v f)) \<and>
     (\<forall>f. f \<notin> set fs \<longrightarrow> m' f = m f)"
proof (induction fs arbitrary: m)
  case Nil
  then show ?case by simp
next
  case (Cons f fs)
  obtain contents where c: "read_to_string F (stat_path if_name f) w = Inr contents"
    "parse_u64 (trim contents) = Some (v f)" "sysfs_law F if_name w fs v"
    using sysfs_law_Cons [OF Cons.prems] .
  obtain m' where m': "read_fields F if_name w fs (m(f \<mapsto> v f)) = Ret (Inr m')"
    "\<forall>f \<in> set fs. m' f = Some (v f)" "\<forall>g. g \<notin> set fs \<longrightarrow> m' g = (m(f \<mapsto> v f)) g"
    using Cons.IH [OF c(3)] by blast
  have "m' f = Some (v f)" using m'(2,3) by (cases "f \<in> set fs") auto
  then show ?case using c m' by auto
qed

lemma InterfaceStatsRx_new_ok:
  assumes "sysfs_law F if_name w RX_FIELD_NAMES v"
  shows "\<exists>s. InterfaceStatsRx_new F if_name w = Ret (Inr s) \<and>
    InterfaceStatsRx_fields s = map v RX_FIELD_NAMES"
proof -
  obtain m where m: "read_fields F if_name w RX_FIELD_NAMES Map.empty = Ret (Inr m)"
    "\<forall>f \<in> set RX_FIELD_NAMES. m f = Some (v f)"
    using read_fields_ok [OF assms] by blast
  then show ?thesis
    by (simp add: InterfaceStatsRx_new_def InterfaceStatsRx_from_map_def RX_FIELD_NAMES_def stat_field_defs)
qed

lemma InterfaceStatsTx_new_ok:
  assumes "sysfs_law F if_name w TX_FIELD_NAMES v"
  shows "\<exists>s. InterfaceStatsTx_new F if_name w = Ret (Inr s) \<and>
    InterfaceStatsTx_fields s = map v TX_FIELD_NAMES"
proof -
  obtain m where m: "read_fields F if_name w TX_FIELD_NAMES Map.empty = Ret (Inr m)"
    "\<forall>f \<in> set TX_FIELD_NAMES. m f = Some (v f)"
    using read_fields_ok [OF assms] by blast
  then show ?thesis
    by (simp add: InterfaceStatsTx_new_def InterfaceStatsTx_from_map_def TX_FIELD_NAMES_def stat_field_defs)
qed

section \<open>Printing and parsing\<close>

lemma parse_digits_append:
  "parse_digits acc (cs @ ds) = Option.bind (parse_digits acc cs) (\<lambda>a. parse_digits a ds)"
  by (induction acc cs rule: parse_digits.induct) (auto simp: Let_def)

lemma of_char_digit: "d < 10 \<Longrightarrow> (of_char (char_of (48 + d) :: char) :: nat) = 48 + d"
  by (simp add: take_bit_eq_mod)

lemma parse_digits_single: "d < 10 \<Longrightarrow> acc * 10 + d < 2 ^ 64 \<Longrightarrow>
   parse_digits acc [char_of (48 + d)] = Some (acc * 10 + d)"
  by (simp add: of_char_digit Let_def del: of_char_of)

lemma parse_show_nat: "n < 2 ^ 64 \<Longrightarrow> parse_digits 0 (show_nat n) = Some n"
proof (induction n rule: show_nat.induct)
  case (1 n)
  show ?case
  proof (cases "n < 10")
    case True
    then show ?thesis using parse_digits_single [of n 0] 1(2) by (simp add: show_nat.simps [of n])
  next
    case False
    have "parse_digits 0 (show_nat (n div 10)) = Some (n div 10)" using 1 False by simp
    moreover have "parse_digits (n div 10) [char_of (48 + n mod 10)] = Some n"
      using parse_digits_single [of "n mod 10" "n div 10"] 1(2) by simp
    ultimately show ?thesis using False by (simp add: show_nat.simps [of n] parse_digits_append)
  qed
qed

lemma show_nat_chars: "c \<in> set (show_nat n) \<Longrightarrow> \<exists>d::nat. d < 10 \<and> c = char_of (48 + d)"
proof (induction n rule: show_nat.induct)
  case (1 n)
  show ?case
  proof (cases "n < 10")
    case True
    then show ?thesis using 1(2) by (auto simp: show_nat.simps [of n])
  next
    case False
    then consider "c \<in> set (show_nat (n div 10))" | "c = char_of (48 + n mod 10)"
      using 1(2) by (auto simp: show_nat.simps [of n])
    then show ?thesis
    proof cases
      case 1
      then show ?thesis using \<open>\<not> n < 10\<close> "1.IH" by blast
    next
      case 2
      then show ?thesis by (intro exI [of _ "n mod 10"]) simp
    qed
  qed
qed

lemma show_nat_not_Nil: "show_nat n \<noteq> []"
  by (simp add: show_nat.simps [of n])

lemma digit_chars:
  assumes "c \<in> set (show_nat n)"
  shows "\<not> is_whitespace c" "c \<noteq> CHR ''+''"
proof -
  obtain d :: nat where d: "d < 10" "c = char_of (48 + d)" using show_nat_chars [OF assms] by blast
  then have code: "(of_char c :: nat) = 48 + d" using of_char_digit by blast
  then show "\<not> is_whitespace c" using d(1) by (simp add: is_whitespace_def Let_def)
  show "c \<noteq> CHR ''+''" using code by auto
qed

text \<open>The kernel prints a counter in decimal and ends the file with a newline.\<close>

lemma trim_line: "trim (show_nat n @ [CHR 0x0A]) = show_nat n"
proof -
  have front: "dropWhile is_whitespace (show_nat n @ xs) = show_nat n @ xs" for xs
    using digit_chars(1) [of "hd (show_nat n)" n] show_nat_not_Nil [of n] by (cases "show_nat n") auto
  have back_ok: "dropWhile is_whitespace (rev (show_nat n)) = rev (show_nat n)"
    using digit_chars(1) [of "last (show_nat n)" n] show_nat_not_Nil [of n]
    by (cases "rev (show_nat n)") (auto simp: rev_swap [symmetric] dest: arg_cong [of _ _ rev])
  have nl: "is_whitespace (CHR 0x0A)" by (simp add: is_whitespace_def)
  show ?thesis by (simp add: trim_def front back_ok nl)
qed

lemma parse_line: "n < 2 ^ 64 \<Longrightarrow> parse_u64 (trim (show_nat n @ [CHR 0x0A])) = Some n"
  unfolding trim_line parse_u64_def
  using digit_chars(2) [of "hd (show_nat n)" n] show_nat_not_Nil [of n] parse_show_nat [of n]
  by (cases "show_nat n") (auto simp del: parse_digits.simps)

end
