(* ===== verification/Loopback.thy ===== *)
theory Loopback
  imports Xsk Iface "HOL-Library.Sublist"
begin

text \<open>
  A small executable platform that satisfies the contracts of \<open>Xdp_Platform\<close>,
  \<open>Xsk_Tx_Inv\<close> and \<open>Xsk_Rx_Inv\<close>: four rings kept as lists with free-running indices, in
  which the kernel takes descriptors off the transmit and fill rings at once. A prompt kernel
  completes every frame by the next look at the completion ring, a stalled one only the first
  \<open>tx_done\<close> frames. The packets of \<open>rx_log\<close> have arrived. It shows that the hypotheses of
  the theorems can hold, on concrete inputs.
\<close>

section \<open>Definitions\<close>

record lb =
  prompt :: bool
  tx_slots :: "u32 \<Rightarrow> xdp_desc"
  tx_resvd :: nat
  tx_sent :: "xdp_desc list"
  tx_done :: nat
  tx_peeked :: nat
  tx_back :: "u64 list"
  fill_slots :: "u32 \<Rightarrow> u64"
  fill_resvd :: nat
  fill_sent :: "u64 list"
  rx_log :: "xdp_desc list"
  rx_peeked :: nat
  rx_done :: nat
  arrived :: "nat \<Rightarrow> u8 list"

definition lb_cap :: nat where
  "lb_cap = 64"

definition on_kern :: "('k \<Rightarrow> 'k) \<Rightarrow> 'k world \<Rightarrow> 'k world" where
  "on_kern g w = w\<lparr>kern := g (kern w)\<rparr>"

definition tx_waiting :: "lb \<Rightarrow> u64 list" where
  "tx_waiting k =
     (let n = length (tx_back k); ready = (if prompt k then length (tx_sent k) else tx_done k) in
      take lb_cap (take (ready - n) (drop n (map xd_addr (tx_sent k)))))"

definition rx_waiting :: "lb \<Rightarrow> xdp_desc list" where
  "rx_waiting k = take lb_cap (drop (rx_done k) (rx_log k))"

definition lb_reserve :: "ring \<Rightarrow> u64 \<Rightarrow> u32 \<Rightarrow> lb world \<Rightarrow> (u64 \<times> u32) \<times> lb world" where
  "lb_reserve r nb idx w =
     (if lb_cap < nb then ((0, idx), w)
      else if r = 1 then ((nb, word_of_nat (length (fill_sent (kern w)))), on_kern (fill_resvd_update (\<lambda>_. nb)) w)
      else ((nb, word_of_nat (length (tx_sent (kern w)))), on_kern (tx_resvd_update (\<lambda>_. nb)) w))"

definition lb_fill_addr :: "ring \<Rightarrow> u32 \<Rightarrow> u64 \<Rightarrow> lb world \<Rightarrow> lb world" where
  "lb_fill_addr r i a w = on_kern (fill_slots_update (\<lambda>f. f(i := a))) w"

definition lb_tx_desc :: "ring \<Rightarrow> u32 \<Rightarrow> xdp_desc \<Rightarrow> lb world \<Rightarrow> lb world" where
  "lb_tx_desc r i d w = on_kern (tx_slots_update (\<lambda>f. f(i := d))) w"

definition lb_submit :: "ring \<Rightarrow> u64 \<Rightarrow> lb world \<Rightarrow> lb world" where
  "lb_submit r nb w =
     (if r = 1 then
        on_kern (\<lambda>k. k\<lparr>fill_sent := fill_sent k @
            map (\<lambda>j. fill_slots k (word_of_nat (length (fill_sent k) + j))) [0..<nb], fill_resvd := 0\<rparr>) w
      else
        on_kern (\<lambda>k. k\<lparr>tx_sent := tx_sent k @
            map (\<lambda>j. tx_slots k (word_of_nat (length (tx_sent k) + j))) [0..<nb], tx_resvd := 0\<rparr>) w)"

definition lb_peek :: "ring \<Rightarrow> u64 \<Rightarrow> u32 \<Rightarrow> lb world \<Rightarrow> (u64 \<times> u32) \<times> lb world" where
  "lb_peek r nb idx w =
     (if r = 2 then
        (let n = min nb (length (tx_waiting (kern w))) in
         ((n, word_of_nat (length (tx_back (kern w)))), on_kern (tx_peeked_update (\<lambda>_. n)) w))
      else
        (let n = min nb (length (rx_waiting (kern w))) in
         ((n, word_of_nat (rx_done (kern w))), on_kern (rx_peeked_update (\<lambda>_. n)) w)))"

definition lb_comp_addr :: "ring \<Rightarrow> u32 \<Rightarrow> lb world \<Rightarrow> u64" where
  "lb_comp_addr r i w =
     tx_waiting (kern w) ! unat (i - word_of_nat (length (tx_back (kern w))))"

definition lb_rx_desc :: "ring \<Rightarrow> u32 \<Rightarrow> lb world \<Rightarrow> xdp_desc" where
  "lb_rx_desc r i w = rx_waiting (kern w) ! unat (i - word_of_nat (rx_done (kern w)))"

definition lb_release :: "ring \<Rightarrow> u64 \<Rightarrow> lb world \<Rightarrow> lb world" where
  "lb_release r nb w =
     (if r = 2 then on_kern (\<lambda>k. k\<lparr>tx_back := tx_back k @ take nb (tx_waiting k), tx_peeked := 0\<rparr>) w
      else on_kern (\<lambda>k. k\<lparr>rx_done := rx_done k + min nb (length (rx_waiting k)), rx_peeked := 0\<rparr>) w)"

definition lb_abi :: abi_consts where
  "lb_abi = \<lparr>EINTR = 4, ENOBUFS = 105, EAGAIN = 11, EBUSY = 16, ENETDOWN = 100, POLLIN = 1, POLLOUT = 4,
     PROT_READ = 1, PROT_WRITE = 2, MAP_ANONYMOUS = 32, MAP_PRIVATE = 2, MAP_HUGETLB = 262144,
     MAP_FAILED = 18446744073709551615, XDP_PACKET_HEADROOM = 256,
     XSK_RING_CONS__DEFAULT_NUM_DESCS = 2048, XSK_RING_PROD__DEFAULT_NUM_DESCS = 2048,
     XSK_UMEM__DEFAULT_FRAME_SIZE = 4096, XSK_UMEM__DEFAULT_FRAME_HEADROOM = 0\<rparr>"

definition loopback :: "bool \<Rightarrow> lb ffi" where
  "loopback chk = \<lparr>overflow_checks = chk, abi = lb_abi,
     xsk_ring_prod__reserve = lb_reserve, xsk_ring_prod__fill_addr = lb_fill_addr,
     xsk_ring_prod__tx_desc = lb_tx_desc, xsk_ring_prod__submit = lb_submit,
     xsk_ring_prod__needs_wakeup = (\<lambda>r w. 1),
     xsk_ring_cons__peek = lb_peek, xsk_ring_cons__comp_addr = lb_comp_addr,
     xsk_ring_cons__rx_desc = lb_rx_desc, xsk_ring_cons__release = lb_release,
     libc_poll = (\<lambda>c t w. ((1, c), w)), libc_sendto = (\<lambda>fd w. (0, w)), libc_errno = (\<lambda>w. 0),
     libc_mmap = (\<lambda>len prot flags w. (4096, w)), libc_munmap = (\<lambda>p len w. (0, w)),
     xsk_umem__create = (\<lambda>p len cfg w. ((0, 1, 1, 2), w)), xsk_umem__delete = (\<lambda>u w. (0, w)),
     xsk_socket__create = (\<lambda>name q u cfg w. ((0, 1, 3, 4), w)), xsk_socket__fd = (\<lambda>s w. 5),
     xsk_socket__delete = (\<lambda>s w. w), instant_now = (\<lambda>w. 0),
     read_to_string = (\<lambda>path w. Inr (show_nat (length path) @ [CHR 0x0A]))\<rparr>"

text \<open>The queues of the socket on this platform, and the views of its rings.\<close>

definition lb_tq :: TxQueue where
  "lb_tq = \<lparr>tq_inner = 4, tq_fd = Fd_new lb_abi 5, tq_socket = \<lparr>sock_inner = 1\<rparr>\<rparr>"

definition lb_rq :: RxQueue where
  "lb_rq = \<lparr>rq_inner = 3, rq_fd = Fd_new lb_abi 5, rq_socket = \<lparr>sock_inner = 1\<rparr>\<rparr>"

definition lb_cq :: CompQueue where
  "lb_cq = \<lparr>cq_size = 64, cq_inner = 2\<rparr>"

definition lb_fq :: FillQueue where
  "lb_fq = \<lparr>fq_size = 64, fq_inner = 1\<rparr>"

definition lb_tx_ok :: "bool \<Rightarrow> lb \<Rightarrow> bool" where
  "lb_tx_ok pr k \<longleftrightarrow>
     prompt k = pr \<and> tx_resvd k \<le> lb_cap \<and> tx_done k \<le> length (tx_sent k) \<and>
     (pr \<or> length (tx_back k) \<le> tx_done k) \<and>
     prefix (tx_back k) (map xd_addr (tx_sent k))"

definition lb_T :: "bool \<Rightarrow> (lb, xdp_desc) prod_view" where
  "lb_T pr = \<lparr>pv_ok = \<lambda>w. lb_tx_ok pr (kern w), pv_free = \<lambda>w. lb_cap, pv_resv = \<lambda>w. tx_resvd (kern w),
     pv_slot = \<lambda>w. tx_slots (kern w), pv_subm = \<lambda>w. tx_sent (kern w)\<rparr>"

definition lb_C :: "bool \<Rightarrow> (lb, u64) cons_view" where
  "lb_C pr = \<lparr>cv_ok = \<lambda>w. lb_tx_ok pr (kern w), cv_pend = \<lambda>w. tx_waiting (kern w),
     cv_peek = \<lambda>w. tx_peeked (kern w), cv_taken = \<lambda>w. tx_back (kern w)\<rparr>"

definition lb_rx_ok :: "nat \<Rightarrow> lb \<Rightarrow> bool" where
  "lb_rx_ok sz k \<longleftrightarrow>
     fill_resvd k \<le> lb_cap \<and> rx_done k \<le> length (rx_log k) \<and>
     prefix (map (\<lambda>d. xd_addr d div sz) (rx_log k)) (map (\<lambda>a. a div sz) (fill_sent k)) \<and>
     (\<forall>d \<in> set (rx_log k). xd_addr d mod sz + unat (xd_len d) \<le> sz)"

definition lb_P :: "nat \<Rightarrow> (lb, u64) prod_view" where
  "lb_P sz = \<lparr>pv_ok = \<lambda>w. lb_rx_ok sz (kern w), pv_free = \<lambda>w. lb_cap, pv_resv = \<lambda>w. fill_resvd (kern w),
     pv_slot = \<lambda>w. fill_slots (kern w), pv_subm = \<lambda>w. fill_sent (kern w)\<rparr>"

definition lb_R :: "nat \<Rightarrow> (lb, xdp_desc) cons_view" where
  "lb_R sz = \<lparr>cv_ok = \<lambda>w. lb_rx_ok sz (kern w), cv_pend = \<lambda>w. rx_waiting (kern w),
     cv_peek = \<lambda>w. rx_peeked (kern w), cv_taken = \<lambda>w. take (rx_done (kern w)) (rx_log (kern w))\<rparr>"

section \<open>The rings obey their contracts\<close>

lemmas lb_sel = loopback_def lb_tq_def lb_rq_def lb_cq_def lb_fq_def lb_T_def lb_C_def lb_P_def lb_R_def
lemmas lb_ops = lb_reserve_def lb_fill_addr_def lb_tx_desc_def lb_submit_def lb_peek_def lb_release_def
  on_kern_def

lemma word_of_nat_inj32:
  assumes "word_of_nat (n + j) = (word_of_nat (n + k) :: u32)" "j < 2 ^ 32" "k < 2 ^ 32"
  shows "j = k"
proof -
  have "(word_of_nat j :: u32) = word_of_nat k" using assms(1) by simp
  then have "unat (word_of_nat j :: u32) = unat (word_of_nat k :: u32)" by simp
  then show ?thesis using assms(2,3) by (simp add: unat_of_nat take_bit_nat_eq_self)
qed

lemma unat_offset: "k < 2 ^ 32 \<Longrightarrow> unat (word_of_nat (n + k) - word_of_nat n :: u32) = k"
  by (simp add: unat_of_nat take_bit_nat_eq_self)

lemma lb_cap_less: "k < lb_cap \<Longrightarrow> k < 2 ^ 32" "k \<le> lb_cap \<Longrightarrow> k < 2 ^ 32"
  by (simp_all add: lb_cap_def)

lemma lb_tx_contract: "tx_contract (loopback chk) lb_tq (lb_T pr)"
  unfolding tx_contract_def prod_ring_def
proof (intro conjI)
  show "reserve_law (loopback chk) (tq_inner lb_tq) (lb_T pr)"
    by (auto simp: reserve_law_def lb_sel lb_ops lb_tx_ok_def pv_index_def split: if_splits)
  show "put_law (xsk_ring_prod__tx_desc (loopback chk) (tq_inner lb_tq)) (lb_T pr)"
    using word_of_nat_inj32 lb_cap_less
    by (fastforce simp: put_law_def lb_sel lb_ops lb_tx_ok_def pv_index_def simp del: of_nat_add)
  show "submit_law (loopback chk) (tq_inner lb_tq) (lb_T pr)"
    by (auto simp: submit_law_def lb_sel lb_ops lb_tx_ok_def pv_index_def intro: prefix_prefix)
qed

lemma tx_waiting_prefix:
  assumes "lb_tx_ok pr k"
  shows "prefix (tx_back k @ tx_waiting k) (map xd_addr (tx_sent k))"
proof -
  obtain rest where rest: "map xd_addr (tx_sent k) = tx_back k @ rest"
    using assms by (auto simp: lb_tx_ok_def prefix_def)
  have "prefix (tx_waiting k) rest"
    unfolding tx_waiting_def rest by (simp add: Let_def take_is_prefix)
  then show ?thesis by (simp add: rest)
qed

lemma lb_tx_ok_release:
  assumes "lb_tx_ok pr k"
  shows "lb_tx_ok pr (k\<lparr>tx_back := tx_back k @ take m (tx_waiting k), tx_peeked := j\<rparr>)"
proof -
  have "prefix (tx_back k @ take m (tx_waiting k)) (tx_back k @ tx_waiting k)"
    by (simp add: take_is_prefix)
  then have "prefix (tx_back k @ take m (tx_waiting k)) (map xd_addr (tx_sent k))"
    using tx_waiting_prefix [OF assms] prefix_order.trans by blast
  moreover have "length (tx_back k) + min (length (tx_waiting k)) m \<le> tx_done k" if "\<not> pr"
  proof -
    have "length (tx_waiting k) \<le> tx_done k - length (tx_back k)" "length (tx_back k) \<le> tx_done k"
      using that assms by (simp_all add: lb_tx_ok_def tx_waiting_def Let_def)
    then show ?thesis by linarith
  qed
  ultimately show ?thesis using assms by (auto simp: lb_tx_ok_def)
qed

lemma lb_comp_contract: "comp_contract (loopback chk) lb_cq (lb_C pr)"
  unfolding comp_contract_def cons_ring_def
proof (intro conjI)
  have len: "length (tx_waiting k) \<le> lb_cap" for k by (simp add: tx_waiting_def Let_def)
  have off: "unat (word_of_nat (n + i) - word_of_nat n :: u32) = i" if "i < length (tx_waiting k)" for n i k
    using that len [of k] lb_cap_less(1) unat_offset by (meson order.strict_trans2)
  have same: "tx_waiting (k\<lparr>tx_peeked := j\<rparr>) = tx_waiting k" for k j by (simp add: tx_waiting_def)
  show "peek_law (loopback chk) (cq_inner lb_cq) (xsk_ring_cons__comp_addr (loopback chk) (cq_inner lb_cq)) (lb_C pr)"
    using off
    by (auto simp: peek_law_def lb_sel lb_ops lb_comp_addr_def cv_index_def Let_def same lb_tx_ok_def simp del: of_nat_add)
  show "release_law (loopback chk) (cq_inner lb_cq) (lb_C pr)"
    using lb_tx_ok_release by (auto simp: release_law_def lb_sel lb_ops)
qed

lemma lb_completion: "completion_law (lb_T pr) (lb_C pr)"
  unfolding completion_law_def
proof (intro allI impI)
  fix w :: "lb world"
  let ?k = "kern w"
  assume "pv_ok (lb_T pr) w"
  then have "lb_tx_ok pr ?k" by (simp add: lb_T_def)
  then obtain rest where "map xd_addr (tx_sent ?k) = (tx_back ?k @ tx_waiting ?k) @ rest"
    using tx_waiting_prefix by (blast elim: prefixE)
  then have "mset (map xd_addr (tx_sent ?k)) = mset (tx_back ?k) + mset (tx_waiting ?k) + mset rest"
    by (metis mset_append)
  then show "mset (cv_taken (lb_C pr) w) + mset (cv_pend (lb_C pr) w) \<subseteq># image_mset xd_addr (mset (pv_subm (lb_T pr) w))"
    by (simp add: lb_T_def lb_C_def)
qed

lemma lb_tx_platform: "tx_platform (loopback chk) lb_tq lb_cq (lb_T pr) (lb_C pr) K"
  unfolding tx_platform_def
proof (intro conjI allI)
  show "cv_ok (lb_C pr) = pv_ok (lb_T pr)" by (simp add: lb_sel)
  show "keeps (pv_ok (lb_T pr)) (comp_same (lb_C pr) K w) (tx_ops (loopback chk) lb_tq)" for w
    by (auto simp: keeps_def tx_ops_def prod_ops_def comp_same_def same_on_def lb_sel lb_ops)
  show "keeps (pv_ok (lb_T pr)) (tx_same (lb_T pr) K w) (comp_ops (loopback chk) lb_cq)" for w
    by (auto simp: keeps_def comp_ops_def cons_ops_def tx_same_def same_on_def lb_sel lb_ops Let_def)
  show "wakeup_law (loopback chk) lb_tq (lb_T pr) (lb_C pr) K"
    by (auto simp: wakeup_law_def lb_sel tx_same_def comp_same_def same_on_def)
  show "outside_umem (lb_T pr) (lb_C pr)" by (simp add: outside_umem_def lb_sel)
qed (rule lb_tx_contract lb_comp_contract lb_completion)+

lemma lb_tx_progress: "n \<le> lb_cap \<Longrightarrow> 0 < fuel \<Longrightarrow> tx_progress (loopback chk) lb_tq (lb_T pr) n fuel"
  unfolding tx_progress_def by (auto simp: lb_T_def intro!: exI [of _ 0])

text \<open>A prompt kernel has completed everything by the next look.\<close>

lemma lb_comp_progress:
  assumes n: "n \<le> lb_cap" and fuel: "0 < fuel"
  shows "comp_progress (loopback chk) (lb_T True) (lb_C True) lb_cq n fuel"
  unfolding comp_progress_def
proof (intro allI impI exI [of _ 0] conjI fuel)
  fix s :: XskTx and w :: "lb world"
  let ?k = "kern w" and ?sz = "unat (tx_frame_size s)"
  assume len: "length (tx_frames s) = n" and link: "tx_linked (lb_T True) (lb_C True) s w"
  then have ok: "lb_tx_ok True ?k" "prompt ?k"
    and sent: "mset (map xd_addr (tx_sent ?k)) =
      mset (tx_back ?k) + image_mset (\<lambda>i. i * ?sz) (mset_set (onq (tx_frames s)))"
    by (simp_all add: tx_linked_def lb_T_def lb_C_def lb_tx_ok_def)
  obtain rest where rest: "map xd_addr (tx_sent ?k) = tx_back ?k @ rest"
    using ok(1) by (auto simp: lb_tx_ok_def prefix_def)
  then have eq: "mset rest = image_mset (\<lambda>i. i * ?sz) (mset_set (onq (tx_frames s)))" using sent by simp
  have "length rest = card (onq (tx_frames s))" using arg_cong [OF eq, of size] by simp
  also have "\<dots> \<le> card {..<length (tx_frames s)}" by (rule card_mono) (auto dest: onq_less)
  finally have "length rest \<le> lb_cap" using n len by simp
  moreover have "length (tx_sent ?k) - length (tx_back ?k) = length rest"
    using arg_cong [OF rest, of length] by simp
  ultimately have "tx_waiting ?k = rest" using ok(2) by (simp add: tx_waiting_def Let_def rest)
  then have "i * ?sz \<in> set (cv_pend (lb_C True) w)" if "i \<in> onq (tx_frames s)" for i
    using arg_cong [OF eq, of set_mset] that by (auto simp: lb_C_def)
  then have "settled (lb_C True) (s, w)" by (auto simp: settled_def in_flight_def)
  then show "settled (lb_C True) ((drain_turn (loopback chk) ^^ 0) (s, w))" by simp
qed

section \<open>The receive pair\<close>

lemma lb_fill_contract: "fill_contract (loopback chk) lb_fq (lb_P sz)"
  unfolding fill_contract_def prod_ring_def
proof (intro conjI)
  show "reserve_law (loopback chk) (fq_inner lb_fq) (lb_P sz)"
    by (auto simp: reserve_law_def lb_sel lb_ops lb_rx_ok_def pv_index_def split: if_splits)
  show "put_law (xsk_ring_prod__fill_addr (loopback chk) (fq_inner lb_fq)) (lb_P sz)"
    using word_of_nat_inj32 lb_cap_less
    by (fastforce simp: put_law_def lb_sel lb_ops lb_rx_ok_def pv_index_def simp del: of_nat_add)
  show "submit_law (loopback chk) (fq_inner lb_fq) (lb_P sz)"
    by (auto simp: submit_law_def lb_sel lb_ops lb_rx_ok_def pv_index_def intro: prefix_prefix)
qed

lemma lb_rx_contract: "rx_contract (loopback chk) lb_rq (lb_R sz)"
  unfolding rx_contract_def cons_ring_def
proof (intro conjI)
  have len: "length (rx_waiting k) \<le> lb_cap" for k by (simp add: rx_waiting_def)
  have off: "unat (word_of_nat (n + i) - word_of_nat n :: u32) = i" if "i < length (rx_waiting k)" for n i k
    using that len [of k] lb_cap_less(1) unat_offset by (meson order.strict_trans2)
  have same: "rx_waiting (k\<lparr>rx_peeked := j\<rparr>) = rx_waiting k" for k j by (simp add: rx_waiting_def)
  show "peek_law (loopback chk) (rq_inner lb_rq) (xsk_ring_cons__rx_desc (loopback chk) (rq_inner lb_rq)) (lb_R sz)"
    using off
    by (auto simp: peek_law_def lb_sel lb_ops lb_rx_desc_def cv_index_def Let_def same lb_rx_ok_def min_absorb2
        simp del: of_nat_add)
  have grow: "take (rx_done k + min j (length (rx_waiting k))) (rx_log k) = take (rx_done k) (rx_log k) @ take j (rx_waiting k)"
    for k j by (simp add: rx_waiting_def take_add min.assoc) (metis min.commute min.left_commute take_take length_drop take_all_iff nat_le_linear)
  have bound: "rx_done k + min j (length (rx_waiting k)) \<le> length (rx_log k)" if "rx_done k \<le> length (rx_log k)" for k j
    using that by (simp add: rx_waiting_def)
  show "release_law (loopback chk) (rq_inner lb_rq) (lb_R sz)"
    using bound by (auto simp: release_law_def lb_sel lb_ops grow lb_rx_ok_def)
qed

text \<open>The buffers come back in the order in which they went to the fill ring.\<close>

lemma lb_log_chunks:
  assumes "lb_rx_ok sz k"
  shows "desc_chunks sz (rx_log k) \<subseteq># image_mset (\<lambda>a. a div sz) (mset (fill_sent k))"
proof -
  obtain rest where "map (\<lambda>a. a div sz) (fill_sent k) = map (\<lambda>d. xd_addr d div sz) (rx_log k) @ rest"
    using assms by (auto simp: lb_rx_ok_def prefix_def)
  then have "image_mset (\<lambda>a. a div sz) (mset (fill_sent k)) = desc_chunks sz (rx_log k) + mset rest"
    unfolding desc_chunks_def by (metis mset_append mset_map)
  then show ?thesis by simp
qed

lemma lb_received: "received_law sz (lb_P sz) (lb_R sz)"
  unfolding received_law_def
proof (intro allI impI conjI)
  fix w :: "lb world"
  let ?k = "kern w"
  assume "pv_ok (lb_P sz) w"
  then have ok: "desc_chunks sz (rx_log ?k) \<subseteq># fill_chunks sz (lb_P sz) w"
    "\<forall>d \<in> set (rx_log ?k). xd_addr d mod sz + unat (xd_len d) \<le> sz"
    using lb_log_chunks [of sz ?k] by (simp_all add: lb_P_def lb_rx_ok_def fill_chunks_def)
  have sub: "set (rx_waiting ?k) \<subseteq> set (rx_log ?k)"
    unfolding rx_waiting_def by (meson in_set_dropD in_set_takeD subsetI)
  then show "\<forall>d \<in> set (cv_pend (lb_R sz) w). xd_addr d mod sz + unat (xd_len d) \<le> sz"
    using ok(2) by (auto simp: lb_R_def)
  have "rx_log ?k = take (rx_done ?k) (rx_log ?k) @ rx_waiting ?k @ drop lb_cap (drop (rx_done ?k) (rx_log ?k))"
    by (simp only: rx_waiting_def append_take_drop_id)
  then have "desc_chunks sz (rx_log ?k) = desc_chunks sz (take (rx_done ?k) (rx_log ?k)) + desc_chunks sz (rx_waiting ?k) +
      desc_chunks sz (drop lb_cap (drop (rx_done ?k) (rx_log ?k)))"
    unfolding desc_chunks_def by (metis add.assoc image_mset_union mset_append)
  then show "desc_chunks sz (cv_taken (lb_R sz) w) + desc_chunks sz (cv_pend (lb_R sz) w) \<subseteq># fill_chunks sz (lb_P sz) w"
    using ok(1) by (simp add: lb_R_def) (metis mset_subset_eq_add_left subset_mset.trans)
qed

lemma lb_rx_platform: "rx_platform (loopback chk) lb_fq lb_rq sz (lb_P sz) (lb_R sz)"
  unfolding rx_platform_def
proof (intro conjI allI)
  show "cv_ok (lb_R sz) = pv_ok (lb_P sz)" by (simp add: lb_sel)
  show "keeps (pv_ok (lb_P sz)) (fill_same (lb_P sz) w) (rx_ops (loopback chk) lb_rq)" for w
    by (auto simp: keeps_def rx_ops_def cons_ops_def fill_same_def lb_sel lb_ops Let_def)
  show "keeps (pv_ok (lb_P sz)) (rx_same (lb_R sz) w) (fill_ops (loopback chk) lb_fq)" for w
    by (auto simp: keeps_def fill_ops_def prod_ops_def rx_same_def lb_sel lb_ops)
  show "rx_poll_law (loopback chk) (lb_P sz) (lb_R sz)"
    by (auto simp: rx_poll_law_def poll_law_def lb_sel)
qed (rule lb_fill_contract lb_rx_contract lb_received)+

lemma kernel_chunks_lb:
  "kernel_chunks sz (lb_P sz) (lb_R sz) w =
     set_mset (image_mset (\<lambda>a. a div sz) (mset (fill_sent (kern w))) - desc_chunks sz (take (rx_done (kern w)) (rx_log (kern w))))"
  by (simp add: kernel_chunks_def fill_chunks_def lb_P_def lb_R_def)

lemma desc_chunks_take_mono: "a \<le> b \<Longrightarrow> desc_chunks sz (take a ds) \<subseteq># desc_chunks sz (take b ds)"
proof -
  assume "a \<le> b"
  then have "take b ds = take a ds @ take (b - a) (drop a ds)" by (metis le_add_diff_inverse take_add)
  then show ?thesis by (simp add: desc_chunks_def)
qed

lemma set_mset_diff_mono:
  assumes "A \<subseteq># A'" "B' \<subseteq># B"
  shows "set_mset (A - B) \<subseteq> set_mset (A' - B')"
proof (rule set_mset_mono)
  show "A - B \<subseteq># A' - B'"
    using assms unfolding subseteq_mset_def by (metis count_diff diff_le_mono diff_le_mono2 le_trans)
qed

lemma lb_rx_memory: "rx_memory (loopback chk) lb_fq lb_rq m sz (lb_P sz) (lb_R sz)"
proof -
  let ?kc = "kernel_chunks sz (lb_P sz) (lb_R sz)"
  have rx: "?kc (f w) \<subseteq> ?kc w \<and> mem (f w) = mem w"
    if "f \<in> rx_ops (loopback chk) lb_rq \<union> poll_ops (loopback chk)" for f w
  proof -
    have "fill_sent (kern (f w)) = fill_sent (kern w) \<and> rx_log (kern (f w)) = rx_log (kern w) \<and>
        rx_done (kern w) \<le> rx_done (kern (f w)) \<and> mem (f w) = mem w"
      using that by (auto simp: rx_ops_def cons_ops_def poll_ops_def lb_sel lb_ops Let_def)
    then show ?thesis unfolding kernel_chunks_lb
      using set_mset_diff_mono [OF subset_mset.refl desc_chunks_take_mono] by metis
  qed
  have fl: "?kc w \<subseteq> ?kc (f w) \<and> mem (f w) = mem w" if "f \<in> fill_ops (loopback chk) lb_fq" for f w
  proof -
    have "(\<exists>xs. fill_sent (kern (f w)) = fill_sent (kern w) @ xs) \<and> rx_log (kern (f w)) = rx_log (kern w) \<and>
        rx_done (kern (f w)) = rx_done (kern w) \<and> mem (f w) = mem w"
      using that by (auto simp: fill_ops_def prod_ops_def lb_sel lb_ops Let_def)
    moreover from this have "image_mset (\<lambda>a. a div sz) (mset (fill_sent (kern w))) \<subseteq>#
        image_mset (\<lambda>a. a div sz) (mset (fill_sent (kern (f w))))" by auto
    ultimately show ?thesis unfolding kernel_chunks_lb
      using set_mset_diff_mono [OF _ subset_mset.refl] by metis
  qed
  show ?thesis
    unfolding rx_memory_def same_in_def
  proof (intro conjI ballI allI impI)
    fix f w J
    assume f: "f \<in> rx_ops (loopback chk) lb_rq \<union> poll_ops (loopback chk)" and "J \<inter> ?kc w = {}"
    then show "J \<inter> ?kc (f w) = {}" using rx by blast
    show "mem (f w) a = mem w a" for a using rx [OF f] by simp
  next
    fix f w J
    assume f: "f \<in> fill_ops (loopback chk) lb_fq" and "J \<inter> ?kc (f w) = {}"
    then show "J \<inter> ?kc w = {}" using fl by blast
    show "mem (f w) a = mem w a" for a using fl [OF f] by simp
  qed
qed

lemma lb_fill_progress: "n \<le> lb_cap \<Longrightarrow> 0 < fuel \<Longrightarrow> fill_progress (loopback chk) lb_fq (lb_P sz) n fuel"
  unfolding fill_progress_def by (auto simp: lb_P_def intro!: exI [of _ 0])

end
