(* ===== verification/Loopback_States.thy ===== *)
theory Loopback_States
  imports Loopback
begin

text \<open>
  Concrete states on the reference platform: a UMEM of four frames of 2048 bytes, the first two for
  sending and the last two for receiving. The properties are applied to them.
\<close>

section \<open>Definitions\<close>

definition lb_kern :: "bool \<Rightarrow> lb" where
  "lb_kern pr =
     \<lparr>prompt = pr, tx_slots = (\<lambda>_. \<lparr>xd_addr = 0, xd_len = 0, xd_options = 0\<rparr>), tx_resvd = 0, tx_sent = [],
      tx_done = 0, tx_peeked = 0, tx_back = [], fill_slots = (\<lambda>_. 0), fill_resvd = 0, fill_sent = [],
      rx_log = [], rx_peeked = 0, rx_done = 0, arrived = (\<lambda>_. [])\<rparr>"

definition lb_world :: "bool \<Rightarrow> lb world" where
  "lb_world pr = \<lparr>mem = (\<lambda>_. 0), kern = lb_kern pr\<rparr>"

definition lb_uc :: UmemConfig where
  "lb_uc = \<lparr>frame_count = 4, frame_size = 2048, fill_queue_size = 64, comp_queue_size = 64,
     frame_headroom = 0, use_huge_pages = False\<rparr>"

definition lb_sc :: SocketConfig where
  "lb_sc = \<lparr>rx_queue_size = 64, tx_queue_size = 64, libbpf_flags = 0, xdp_flags = 0, bind_flags = 0\<rparr>"

definition lb_area :: MmapArea where
  "lb_area = \<lparr>area_len = 8192, mem_ptr = 4096\<rparr>"

definition lb_tx :: "bool \<Rightarrow> nat \<Rightarrow> XskTx" where
  "lb_tx pr b =
     XskTx_new (loopback True) lb_tq lb_cq (take 2 (umem_frames lb_area lb_uc 1792)) 2048 b (lb_world pr)"

text \<open>A stalled kernel holds frame 0; the cursor is at 0 or at 1.\<close>

definition lb_busy :: "nat \<Rightarrow> XskTx" where
  "lb_busy c = (lb_tx False 1)\<lparr>tx_frames :=
       [(frame_at lb_area 2048 1792 0)\<lparr>frame_len := 3, frame_status := OnTxQueue\<rparr>, frame_at lb_area 2048 1792 1],
     outstanding_tx_frames := 1, tx_cursor := c,
     tx_stats := \<lparr>pkts_tx = 1, pkts_tx_completed = 0, tx_start_time = 0, tx_end_time = 0\<rparr>\<rparr>"

definition lb_busy_world :: "lb world" where
  "lb_busy_world = \<lparr>mem = (\<lambda>_. 9),
     kern = (lb_kern False)\<lparr>tx_sent := [\<lparr>xd_addr = 0, xd_len = 3, xd_options = 0\<rparr>]\<rparr>\<rparr>"

text \<open>One packet of three bytes has arrived for frame 2.\<close>

definition lb_rx :: XskRx where
  "lb_rx = \<lparr>fill_q = lb_fq, rx_q = lb_rq, rx_frames = [frame_at lb_area 2048 1792 2, frame_at lb_area 2048 1792 3],
     filled_frames = [(0, 0, 0), (0, 0, 0)], processed_frames = [], rx_frame_offset = 4096,
     n_frames_to_be_filled = 2, rx_frame_size = 2048, rx_cursor = 0, poll_ms_timeout = 0,
     rx_stats = \<lparr>pkts_rx = 0, pkts_rx_delivered = 0, rx_start_time = 0, rx_end_time = 0\<rparr>\<rparr>"

definition lb_rx_world :: "lb world" where
  "lb_rx_world = \<lparr>mem = (\<lambda>_. 7),
     kern = (lb_kern True)\<lparr>fill_sent := [4096, 6144],
       rx_log := [\<lparr>xd_addr = 4352, xd_len = 3, xd_options = 0\<rparr>]\<rparr>\<rparr>"

text \<open>The same packet after it was taken from the ring and before it is delivered.\<close>

definition lb_rx_held :: XskRx where
  "lb_rx_held = lb_rx\<lparr>rx_frames :=
       [(frame_at lb_area 2048 1792 2)\<lparr>frame_addr := 4352, frame_len := 3, frame_status := Filled\<rparr>,
        frame_at lb_area 2048 1792 3],
     n_frames_to_be_filled := 1,
     rx_stats := \<lparr>pkts_rx = 1, pkts_rx_delivered = 0, rx_start_time = 0, rx_end_time = 0\<rparr>\<rparr>"

definition lb_held_world :: "lb world" where
  "lb_held_world = \<lparr>mem = (\<lambda>_. 7),
     kern = (lb_kern True)\<lparr>fill_sent := [4096, 6144],
       rx_log := [\<lparr>xd_addr = 4352, xd_len = 3, xd_options = 0\<rparr>], rx_done := 1\<rparr>\<rparr>"

text \<open>A socket of both ends.\<close>

definition lb_xsk :: "nat \<Rightarrow> Xsk2" where
  "lb_xsk b = \<lparr>x2_if_name = ''veth0'', x2_tx = lb_tx True b, x2_rx = lb_rx\<rparr>"

section \<open>The transmit states are ready\<close>

lemma lb_uc_simps [simp]:
  "frame_count lb_uc = 4" "frame_size lb_uc = 2048" "frame_headroom lb_uc = 0" "use_huge_pages lb_uc = False"
  "fill_queue_size lb_uc = 64" "comp_queue_size lb_uc = 64" "area_len lb_area = 8192" "mem_ptr lb_area = 4096"
  "tx_queue_size lb_sc = 64"
  by (simp_all add: lb_uc_def lb_area_def lb_sc_def)

lemma lb_queues [simp]:
  "tx_q (lb_tx pr b) = lb_tq" "comp_q (lb_tx pr b) = lb_cq" "tx_q (lb_busy c) = lb_tq" "comp_q (lb_busy c) = lb_cq"
  "fill_q lb_rx = lb_fq" "rx_q lb_rx = lb_rq" "fill_q lb_rx_held = lb_fq" "rx_q lb_rx_held = lb_rq"
  by (simp_all add: lb_tx_def lb_busy_def XskTx_new_def lb_rx_def lb_rx_held_def)

lemma lb_tx_fields [simp]:
  "tx_frames (lb_tx pr b) = [frame_at lb_area 2048 1792 0, frame_at lb_area 2048 1792 1]"
  "tx_cursor (lb_tx pr b) = 0" "cur_batch_size (lb_tx pr b) = 0" "batch_size (lb_tx pr b) = b"
  "tx_frame_size (lb_tx pr b) = 2048" "outstanding_tx_frames (lb_tx pr b) = 0"
  "pkts_tx (tx_stats (lb_tx pr b)) = 0" "pkts_tx_completed (tx_stats (lb_tx pr b)) = 0"
  by (simp_all add: lb_tx_def XskTx_new_def umem_frames_def upt_rec TxStats_new_def)

lemma lb_tx_inv: "0 < b \<Longrightarrow> b dvd 2 \<Longrightarrow> tx_inv lb_area (lb_tx pr b)"
  using XskTx_new_inv [of lb_area lb_uc 1792 2 b "loopback True" lb_tq lb_cq "lb_world pr"] by (simp add: lb_tx_def)

lemma onq_lb_tx [simp]: "onq [frame_at lb_area 2048 1792 0, frame_at lb_area 2048 1792 (Suc 0)] = {}"
  by (auto simp: onq_def nth_Cons split: nat.splits)

lemma lb_tx_ready_at:
  assumes "0 < b" "b dvd 2" "0 < fuel"
    and w: "prompt (kern w) = pr" "tx_sent (kern w) = []" "tx_back (kern w) = []" "tx_resvd (kern w) = 0"
      "tx_peeked (kern w) = 0" "tx_done (kern w) = 0"
  shows "tx_ready (loopback True) (lb_T pr) (lb_C pr) lb_area fuel (lb_tx pr b) w"
proof -
  have b: "b \<le> 2" using assms(2) by (simp add: dvd_imp_le)
  then have "tx_progress (loopback True) lb_tq (lb_T pr) b fuel"
    using assms(3) by (intro lb_tx_progress) (simp_all add: lb_cap_def)
  moreover have "tx_linked (lb_T pr) (lb_C pr) (lb_tx pr b) w"
    using w by (simp add: tx_linked_def lb_T_def lb_C_def lb_tx_ok_def)
  moreover have "tx_counts (loopback True) (lb_T pr) (lb_C pr) (lb_tx pr b) w"
    using b w by (simp add: tx_counts_def idx_room_def lb_T_def lb_C_def)
  ultimately show ?thesis using lb_tx_inv [OF assms(1,2)] lb_tx_platform by (simp add: tx_ready_def)
qed

lemma lb_tx_ready:
  assumes "0 < b" "b dvd 2" "0 < fuel"
  shows "tx_ready (loopback True) (lb_T pr) (lb_C pr) lb_area fuel (lb_tx pr b) (lb_world pr)"
  by (rule lb_tx_ready_at [OF assms]) (simp_all add: lb_world_def lb_kern_def)

lemma lb_busy_fields [simp]:
  "tx_cursor (lb_busy c) = c" "cur_batch_size (lb_busy c) = 0" "batch_size (lb_busy c) = 1"
  "tx_frame_size (lb_busy c) = 2048" "outstanding_tx_frames (lb_busy c) = 1"
  "pkts_tx (tx_stats (lb_busy c)) = 1" "pkts_tx_completed (tx_stats (lb_busy c)) = 0"
  "length (tx_frames (lb_busy c)) = 2" "length (free_frames (lb_busy c)) = 2"
  by (simp_all add: lb_busy_def) (simp add: lb_tx_def XskTx_new_def)

lemma onq_lb_busy [simp]: "onq (tx_frames (lb_busy c)) = {0}"
  by (auto simp: onq_def lb_busy_def less_Suc_eq)

lemma lb_busy_ready:
  assumes "c < 2" "0 < fuel"
  shows "tx_ready (loopback True) (lb_T False) (lb_C False) lb_area fuel (lb_busy c) lb_busy_world"
proof -
  have frames: "tx_frames (lb_busy c) =
      [(frame_at lb_area 2048 1792 0)\<lparr>frame_len := 3, frame_status := OnTxQueue\<rparr>, frame_at lb_area 2048 1792 1]"
    by (simp add: lb_busy_def)
  have "tx_frames_inv lb_area 2048 (tx_frames (lb_busy c))"
    unfolding frames by (auto simp: tx_frames_inv_def tx_frame_ok_def placed_def in_area_def less_Suc_eq)
  then have "tx_inv lb_area (lb_busy c)" using assms(1) by (simp add: tx_inv_def tx_core_def)
  moreover have "tx_linked (lb_T False) (lb_C False) (lb_busy c) lb_busy_world"
    by (simp add: tx_linked_def lb_T_def lb_C_def lb_busy_world_def lb_kern_def lb_tx_ok_def)
  moreover have "tx_counts (loopback True) (lb_T False) (lb_C False) (lb_busy c) lb_busy_world"
    by (simp add: tx_counts_def idx_room_def lb_T_def lb_C_def lb_busy_world_def lb_kern_def)
  moreover have "tx_progress (loopback True) lb_tq (lb_T False) 1 fuel"
    using assms(2) by (intro lb_tx_progress) (simp_all add: lb_cap_def)
  ultimately show ?thesis using lb_tx_platform by (simp add: tx_ready_def)
qed

lemma in_flight_lb_busy [simp]: "in_flight (lb_C False) (lb_busy c) lb_busy_world = {0}"
  by (auto simp: in_flight_def lb_C_def lb_busy_world_def lb_kern_def tx_waiting_def)

lemma in_flight_lb_tx [simp]: "in_flight C (lb_tx pr b) w = {}"
  by (simp add: in_flight_def)

section \<open>The receive states are ready\<close>

lemma lent_pair:
  "lent [a, b] = {i. i = 0 \<and> frame_status a \<noteq> Filled \<or> i = 1 \<and> frame_status b \<noteq> Filled}"
  "filled [a, b] = {i. i = 0 \<and> frame_status a = Filled \<or> i = 1 \<and> frame_status b = Filled}"
  by (auto simp: lent_def filled_def less_Suc_eq)

lemma lent_lb_rx: "lent (rx_frames lb_rx) = {0, 1}" "filled (rx_frames lb_rx) = {}"
    "lent (rx_frames lb_rx_held) = {1}" "filled (rx_frames lb_rx_held) = {0}"
  by (auto simp: lent_pair lb_rx_def lb_rx_held_def)

lemma lb_rx_inv: "rx_inv lb_area 2 lb_rx" "rx_inv lb_area 2 lb_rx_held"
proof -
  have "rx_frames_inv lb_area 2 2048 (rx_frames lb_rx)" "rx_frames_inv lb_area 2 2048 (rx_frames lb_rx_held)"
    by (auto simp: rx_frames_inv_def rx_frame_ok_def lb_rx_def lb_rx_held_def nth_Cons split: nat.splits)
  then show "rx_inv lb_area 2 lb_rx" "rx_inv lb_area 2 lb_rx_held"
    using lent_lb_rx by (simp_all add: rx_inv_def rx_core_def) (simp_all add: lb_rx_def lb_rx_held_def)
qed

lemma lb_rx_linked:
  "rx_linked (lb_P 2048) (lb_R 2048) 2 lb_rx lb_rx_world"
  "rx_linked (lb_P 2048) (lb_R 2048) 2 lb_rx_held lb_held_world"
proof -
  have sz: "unat (rx_frame_size lb_rx) = 2048" "unat (rx_frame_size lb_rx_held) = 2048"
    by (simp_all add: lb_rx_def lb_rx_held_def)
  show "rx_linked (lb_P 2048) (lb_R 2048) 2 lb_rx lb_rx_world"
    by (simp add: rx_linked_def sz lent_lb_rx fill_chunks_def desc_chunks_def lb_P_def lb_R_def lb_rx_world_def
        lb_kern_def lb_rx_ok_def lb_cap_def)
  show "rx_linked (lb_P 2048) (lb_R 2048) 2 lb_rx_held lb_held_world"
    by (simp add: rx_linked_def sz lent_lb_rx fill_chunks_def desc_chunks_def lb_P_def lb_R_def lb_held_world_def
        lb_kern_def lb_rx_ok_def lb_cap_def)
qed

lemma lb_rx_ready:
  assumes "0 < fuel"
  shows "rx_ready (loopback True) (lb_P 2048) (lb_R 2048) lb_area 2 fuel lb_rx lb_rx_world"
    "rx_ready (loopback True) (lb_P 2048) (lb_R 2048) lb_area 2 fuel lb_rx_held lb_held_world"
proof -
  have sz: "unat (rx_frame_size lb_rx) = 2048" "unat (rx_frame_size lb_rx_held) = 2048"
    "length (rx_frames lb_rx) = 2" "length (rx_frames lb_rx_held) = 2"
    by (simp_all add: lb_rx_def lb_rx_held_def)
  have "fill_progress (loopback True) lb_fq (lb_P 2048) 2 fuel"
    using assms by (intro lb_fill_progress) (simp_all add: lb_cap_def)
  moreover have "rx_counts (loopback True) (lb_P 2048) (lb_R 2048) lb_rx lb_rx_world"
      "rx_counts (loopback True) (lb_P 2048) (lb_R 2048) lb_rx_held lb_held_world"
    by (simp_all add: rx_counts_def idx_room_def sz lb_P_def lb_R_def)
      (simp_all add: lb_rx_def lb_rx_held_def lb_rx_world_def lb_held_world_def lb_kern_def)
  ultimately show "rx_ready (loopback True) (lb_P 2048) (lb_R 2048) lb_area 2 fuel lb_rx lb_rx_world"
    "rx_ready (loopback True) (lb_P 2048) (lb_R 2048) lb_area 2 fuel lb_rx_held lb_held_world"
    using lb_rx_platform lb_rx_memory lb_rx_inv lb_rx_linked by (simp_all add: rx_ready_def sz)
qed

text \<open>What a receive operation on these states computes from.\<close>

lemmas lb_recv_run = recv_def recv_poll_def Let_def RxQueue_poll_and_consume_def lb_sel lb_ops lb_kern_def
  RxQueue_consume_def poll_read_def poll_def PollFd_new_def Fd_new_def update_rx_frames_def recv_deliver_def
  rx_waiting_def lb_abi_def FillQueue_needs_wakeup_def FillQueue_wakeup_def read_from_umem_checked_def
  is_access_valid_def mem_range_def lb_area_def frame_at_def bytes_at_def upt_rec FillQueue_produce_and_wakeup_def
  FillQueue_produce_def lb_cap_def add32_def sub32_def div32_def rx_frame_index_def set_desc_def set_defs
  rx_entry_def lb_rx_desc_def as_u32_def as_usize_def

text \<open>Receiving the held packet leaves the transmit rings alone.\<close>

lemma lb_recv_held:
  "\<exists>rx' w1. recv (loopback True) 1 lb_rx_held (replicate 8 0) lb_held_world =
       Ret (3, 7 # 7 # 7 # replicate 5 0, rx', w1) \<and>
     prompt (kern w1) \<and> tx_sent (kern w1) = [] \<and> tx_back (kern w1) = [] \<and> tx_resvd (kern w1) = 0 \<and>
     tx_peeked (kern w1) = 0 \<and> tx_done (kern w1) = 0"
  by (simp add: lb_rx_held_def lb_rx_def lb_held_world_def lb_recv_run)

end
