(* ===== verification/Xsk_Tx_Retry.thy ===== *)
theory Xsk_Tx_Retry
  imports Xsk_Tx_Run
begin

text \<open>
  Clients of the transmit end repeat a send until it is accepted
  (\<open>while let Err(_) = xsk.tx.send(..) {}\<close>), or prefill the frames first. The interface \<open>retried\<close> says what such a loop
  relies on, and that it returns once the kernel has completed the frame at the cursor.
\<close>

section \<open>Definitions\<close>

text \<open>Waiting changes nothing but the marks of completed frames.\<close>

definition waited ::
    "MmapArea \<Rightarrow> ('k, xdp_desc) prod_view \<Rightarrow> XskTx \<Rightarrow> 'k world \<Rightarrow> XskTx \<Rightarrow> 'k world \<Rightarrow> bool" where
  "waited m T s w s' w' \<longleftrightarrow>
     tx_fixed s s' \<and> tx_cursor s' = tx_cursor s \<and> cur_batch_size s' = cur_batch_size s \<and>
     map frame_mtu (tx_frames s') = map frame_mtu (tx_frames s) \<and>
     pkts_tx (tx_stats s') = pkts_tx (tx_stats s) \<and> pv_subm T w' = pv_subm T w \<and>
     same_on (tx_bytes m s) w w'"

text \<open>Room in every counter and ring index for \<open>n\<close> more packets.\<close>

definition tx_room :: "'k ffi \<Rightarrow> XskTx \<Rightarrow> nat \<Rightarrow> bool" where
  "tx_room F s n \<longleftrightarrow>
     idx_room F (tx_accepted s + n + batch_size s) \<and> tx_accepted s + n + batch_size s < 2 ^ 64"

section \<open>Counters\<close>

lemma tx_room_counts:
  assumes inv: "tx_inv m s" and link: "tx_linked T C s w" and room: "tx_room F s n"
  shows "tx_counts F T C s w" "drain_counts F T C s w"
proof -
  have core: "tx_core m s" "cur_batch_size s \<le> batch_size s" using inv by (simp_all add: tx_inv_def less_imp_le)
  note len = linked_lengths [OF core(1) link]
  have subm: "length (pv_subm T w) = pkts_tx (tx_stats s)" using link by (simp add: tx_linked_def)
  have le: "idx_room F k \<and> k < 2 ^ 64" if "k \<le> tx_accepted s + n + batch_size s" for k
    using room that idx_room_mono [of F "tx_accepted s + n + batch_size s" k] by (auto simp: tx_room_def)
  show "tx_counts F T C s w" "drain_counts F T C s w"
    using len subm core(2) le by (simp_all add: tx_counts_def drain_counts_def tx_accepted_def Let_def add.assoc [symmetric])
qed

lemma batch_data_length: "tx_inv m s \<Longrightarrow> length (batch_data s w) = cur_batch_size s"
  using mod_less_eq_dividend [of "tx_cursor s" "batch_size s"] by (simp add: batch_data_def tx_inv_def)

lemma new_packets_length: "length (new_packets m T w w') = length (pv_subm T w') - length (pv_subm T w)"
  by (simp add: new_packets_def)

section \<open>Waiting\<close>

lemma waited_refl [simp]: "waited m T s w s w"
  by (simp add: waited_def tx_fixed_def)

lemma waited_trans:
  assumes "waited m T s w s1 w1" "waited m T s1 w1 s2 w2"
  shows "waited m T s w s2 w2"
proof -
  have "tx_bytes m s1 = tx_bytes m s" using assms(1) by (simp add: waited_def tx_fixed_bytes)
  then show ?thesis using assms by (auto simp: waited_def tx_fixed_def intro: same_trans)
qed

lemma waited_region:
  assumes "waited m T s w s' w'" "i < length (tx_frames s)"
  shows "frame_region m s' i w' = frame_region m s i w"
proof -
  have "frame_region m s i w' = frame_region m s i w"
    using assms chunk_in_bytes [OF assms(2), of m] by (intro region_chunk) (auto simp: waited_def same_on_def)
  moreover have "tx_frame_size s' = tx_frame_size s" using assms(1) by (simp add: waited_def tx_fixed_def)
  ultimately show ?thesis by (simp add: frame_region_def)
qed

lemma waited_mtu:
  assumes "waited m T s w s' w'" "i < length (tx_frames s)"
  shows "frame_mtu (tx_frames s' ! i) = frame_mtu (tx_frames s ! i)"
  using assms by (metis waited_def length_map nth_map)

lemma ready_moved:
  assumes "tx_ready F T C m fuel s w" "tx_fixed s s'" "tx_inv m s'" "tx_linked T C s' w'" "tx_counts F T C s' w'"
  shows "tx_ready F T C m fuel s' w'"
  using assms tx_fixed_bytes [OF assms(2), of m] by (simp add: tx_ready_def tx_fixed_def)

lemma complete_step:
  assumes "tx_ready F T C m fuel s w"
  shows "\<exists>k s1 w1. complete_frames F s w = Ret (k, s1, w1) \<and> waited m T s w s1 w1 \<and>
    tx_ready F T C m fuel s1 w1 \<and> onq (tx_frames s1) = in_flight C s w"
proof -
  have R: "tx_platform F (tx_q s) (comp_q s) T C (tx_bytes m s)" "tx_inv m s" "tx_linked T C s w" "tx_counts F T C s w"
    using assms by (simp_all add: tx_ready_def)
  then have core: "tx_core m s" and sz: "0 < unat (tx_frame_size s)"
    by (simp_all add: tx_inv_def tx_core_def tx_frames_inv_def)
  obtain ixs ff w1 where run: "complete_frames F s w = Ret (length ixs, completed ixs ff s, w1)"
    and ff: "length ff = length (free_frames s)" and comp: "completes T C (tx_bytes m s) ixs s w w1"
    using complete_frames_ok [OF R(1) core R(3)] R(4) by (auto simp: tx_counts_def)
  let ?s = "completed ixs ff s"
  have fixed: "tx_fixed s ?s" by (simp add: tx_fixed_def)
  have "map frame_mtu (tx_frames ?s) = map frame_mtu (tx_frames s)"
    by (rule nth_equalityI) (simp_all add: nth_mark_free)
  then have "waited m T s w ?s w1"
    using comp fixed by (simp add: waited_def completes_def tx_same_def)
  moreover have "tx_ready F T C m fuel ?s w1"
    using ready_moved [OF assms fixed completed_inv [OF comp R(2) ff] completed_linked [OF comp R(3)]
        completed_counts [OF comp core R(4)]] .
  moreover have "onq (tx_frames ?s) = in_flight C s w"
    using in_flight_completes [OF comp sz] by (simp add: onq_mark_free)
  ultimately show ?thesis using run by blast
qed

section \<open>Prefilling\<close>

lemma prefill_loop_ok:
  "\<forall>k < length fs. tx_frame_ok m sz (b + k) (fs ! k) \<and> length data \<le> frame_mtu (fs ! k) \<Longrightarrow>
   \<exists>w'. prefill_loop data fs w = Ret (map (set_len (length data)) fs, w') \<and> kern w' = kern w \<and>
     (\<forall>a < mem_ptr m + b * sz. mem w' a = mem w a) \<and>
     (\<forall>k < length fs. bytes_at w' (mem_ptr m + (b + k) * sz) (length data) = data)"
proof (induction fs arbitrary: b w)
  case Nil
  then show ?case by simp
next
  case (Cons f fs)
  have f: "tx_frame_ok m sz b f" "length data \<le> frame_mtu f" using Cons.prems by fastforce+
  then have at: "frame_mmap f = m" "frame_addr f = b * sz" "length data \<le> sz" "in_area (frame_mmap f) (frame_addr f) (length data)"
    by (auto simp: tx_frame_ok_def placed_def intro: in_area_mono)
  let ?w = "region_store m (b * sz) data w"
  have "\<forall>k < length fs. tx_frame_ok m sz (Suc b + k) (fs ! k) \<and> length data \<le> frame_mtu (fs ! k)"
    using Cons.prems by fastforce
  from Cons.IH [OF this, of ?w] obtain w' where w': "prefill_loop data fs ?w = Ret (map (set_len (length data)) fs, w')"
    "kern w' = kern ?w" "\<forall>a < mem_ptr m + Suc b * sz. mem w' a = mem ?w a"
    "\<forall>k < length fs. bytes_at w' (mem_ptr m + (Suc b + k) * sz) (length data) = data" by blast
  have "bytes_at w' (mem_ptr m + b * sz) (length data) = bytes_at ?w (mem_ptr m + b * sz) (length data)"
    using w'(3) at(3) by (intro bytes_at_cong) simp
  then have first: "bytes_at w' (mem_ptr m + b * sz) (length data) = data" by (simp add: bytes_at_store_same)
  have "bytes_at w' (mem_ptr m + (b + k) * sz) (length data) = data" if "k < length (f # fs)" for k
  proof (cases k)
    case 0
    then show ?thesis using first by simp
  next
    case (Suc j)
    then show ?thesis using w'(4) that by simp
  qed
  moreover have "mem w' a = mem w a" if "a < mem_ptr m + b * sz" for a
    using w'(3) that mem_region_store_outside [of a m "b * sz" data w] by simp
  ultimately show ?case using write_checked_ok [OF at(4) f(2), of w] at(1,2) w'(1,2) by simp
qed

text \<open>With no packet pending, prefilling puts the same bytes into every frame and keeps the state ready.\<close>

lemma prefill_ready:
  assumes ready: "tx_ready F T C m fuel s w"
    and fits: "\<And>k. k < length (tx_frames s) \<Longrightarrow> length data \<le> frame_mtu (tx_frames s ! k)"
  shows "\<exists>s' w'. prefill s data w = Ret (s', w') \<and> tx_ready F T C m fuel s' w' \<and> tx_fixed s s' \<and>
    tx_cursor s' = tx_cursor s \<and> cur_batch_size s' = cur_batch_size s \<and> tx_stats s' = tx_stats s \<and>
    pv_subm T w' = pv_subm T w \<and> onq (tx_frames s') = onq (tx_frames s) \<and>
    (\<forall>k < length (tx_frames s). take (length data) (frame_region m s' k w') = data)"
proof -
  have R: "tx_platform F (tx_q s) (comp_q s) T C (tx_bytes m s)" "tx_inv m s" "tx_linked T C s w" "tx_counts F T C s w"
    using ready by (simp_all add: tx_ready_def)
  let ?sz = "unat (tx_frame_size s)" and ?n = "length data"
  have frames: "\<forall>k < length (tx_frames s). tx_frame_ok m ?sz (0 + k) (tx_frames s ! k) \<and> ?n \<le> frame_mtu (tx_frames s ! k)"
    using inv_frame [OF R(2)] fits by simp
  have c: "tx_cursor s < length (tx_frames s)" using R(2) by (simp add: tx_inv_def)
  then have n: "?n \<le> ?sz" using frames by (fastforce simp: tx_frame_ok_def placed_def)
  obtain w' where w': "prefill_loop data (tx_frames s) w = Ret (map (set_len ?n) (tx_frames s), w')" "kern w' = kern w"
    "\<forall>k < length (tx_frames s). bytes_at w' (mem_ptr m + k * ?sz) ?n = data"
    using prefill_loop_ok [OF frames, of w] by auto
  let ?s = "s\<lparr>tx_frames := map (set_len ?n) (tx_frames s)\<rparr>"
  have onq: "onq (map (set_len ?n) (tx_frames s)) = onq (tx_frames s)" by (auto simp: onq_def set_len_def)
  have "tx_frames_inv m ?sz (map (set_len ?n) (tx_frames s))"
    using R(2) n by (auto simp: tx_inv_def tx_core_def tx_frames_inv_def tx_frame_ok_def set_len_def placed_def)
  then have inv: "tx_inv m ?s" using R(2) onq by (clarsimp simp: tx_inv_def tx_core_def)
  have same: "pv_ok T w' = pv_ok T w" "pv_subm T w' = pv_subm T w" "pv_resv T w' = pv_resv T w"
      "cv_taken C w' = cv_taken C w" "cv_peek C w' = cv_peek C w"
    using outside_umemD [OF tx_platformD(8) [OF R(1)] w'(2)] by blast+
  have "tx_linked T C ?s w'" using R(3) same onq by (simp add: tx_linked_def)
  moreover have "tx_counts F T C ?s w'" using R(4) same by (simp add: tx_counts_def)
  ultimately have "tx_ready F T C m fuel ?s w'"
    using ready_moved [OF ready _ inv] by (simp add: tx_fixed_def)
  moreover have "take ?n (frame_region m ?s k w') = data" if "k < length (tx_frames s)" for k
  proof -
    have "take ?n (frame_region m ?s k w') = bytes_at w' (mem_ptr m + k * ?sz) ?n"
      using n by (intro nth_equalityI) (simp_all add: frame_region_def)
    then show ?thesis using w'(3) that by simp
  qed
  ultimately show ?thesis using w'(1) onq same(2) by (simp add: prefill_def tx_fixed_def)
qed

section \<open>The interface\<close>

text \<open>
  \<open>op F fuel a\<close> is one attempt to send \<open>a\<close>, \<open>loop\<close> its repetition, \<open>packet\<close> the packet it
  sends and \<open>fit\<close> says that it can; \<open>effect\<close> is what it does to the memory.
\<close>

locale retried =
  fixes op :: "'k ffi \<Rightarrow> nat \<Rightarrow> 'a \<Rightarrow> XskTx \<Rightarrow> 'k world \<Rightarrow> ((XskSendError + unit) \<times> XskTx \<times> 'k world) outcome"
    and loop :: "'k ffi \<Rightarrow> nat \<Rightarrow> nat \<Rightarrow> 'a \<Rightarrow> XskTx \<Rightarrow> 'k world \<Rightarrow> (XskTx \<times> 'k world) outcome"
    and fit :: "'k ffi \<Rightarrow> MmapArea \<Rightarrow> 'a \<Rightarrow> XskTx \<Rightarrow> 'k world \<Rightarrow> bool"
    and packet :: "'k ffi \<Rightarrow> MmapArea \<Rightarrow> 'a \<Rightarrow> XskTx \<Rightarrow> 'k world \<Rightarrow> u8 list"
    and effect :: "'k ffi \<Rightarrow> MmapArea \<Rightarrow> 'a \<Rightarrow> XskTx \<Rightarrow> 'k world \<Rightarrow> 'k world \<Rightarrow> bool"
  assumes loop_Suc: "loop F fuel (Suc n) a s w =
      bindO (op F fuel a s w) (\<lambda>(r, s1, w1). case r of Inr _ \<Rightarrow> Ret (s1, w1) | Inl _ \<Rightarrow> loop F fuel n a s1 w1)"
    and blocked: "complete_frames F s w = Ret (k, s1, w1) \<Longrightarrow> tx_cursor s1 \<in> onq (tx_frames s1) \<Longrightarrow>
      op F fuel a s w = Ret (Inl NoFreeTxFrames, s1, w1)"
    and waits: "tx_ready F T C m fuel s w \<Longrightarrow> waited m T s w s' w' \<Longrightarrow> fit F m a s w \<Longrightarrow>
      fit F m a s' w' \<and> packet F m a s' w' = packet F m a s w \<and> (\<forall>w2. effect F m a s' w' w2 \<longrightarrow> effect F m a s w w2)"
    and accepted: "tx_ready F T C m fuel s w \<Longrightarrow> fit F m a s w \<Longrightarrow> tx_cursor s \<notin> in_flight C s w \<Longrightarrow>
      \<exists>s' w'. op F fuel a s w = Ret (Inr (), s', w') \<and> effect F m a s w w'"
    and run_step: "tx_run F fuel m T C s0 w0 s w acc handed \<Longrightarrow> tx_counts F T C s w \<Longrightarrow> fit F m a s w \<Longrightarrow>
      op F fuel a s w = Ret (r, s', w') \<Longrightarrow>
      tx_run F fuel m T C s0 w0 s' w' (acc @ (case r of Inl _ \<Rightarrow> [] | Inr _ \<Rightarrow> [packet F m a s w]))
        (handed @ new_packets m T w w')"
begin

text \<open>The loop returns: the packet is accepted once, and the attempts are a run of the transmit end.\<close>

lemma loop_returns:
  assumes "tx_ready F T C m fuel s w" "fit F m a s w" "j < turns" "settled C ((drain_turn F ^^ j) (s, w))"
    and "tx_run F fuel m T C s0 w0 s w acc handed"
  shows "\<exists>s' w' handed'. loop F fuel turns a s w = Ret (s', w') \<and> effect F m a s w w' \<and>
    tx_run F fuel m T C s0 w0 s' w' (acc @ [packet F m a s w]) handed'"
  using assms
proof (induction turns arbitrary: j s w handed)
  case 0
  then show ?case by simp
next
  case (Suc turns)
  have counts: "tx_counts F T C s w" using Suc.prems(1) by (simp add: tx_ready_def)
  show ?case
  proof (cases "tx_cursor s \<in> in_flight C s w")
    case False
    obtain s' w' where op: "op F fuel a s w = Ret (Inr (), s', w')" "effect F m a s w w'"
      using accepted [OF Suc.prems(1,2) False] by blast
    then show ?thesis using run_step [OF Suc.prems(5) counts Suc.prems(2) op(1)] by (auto simp: loop_Suc)
  next
    case True
    obtain k s1 w1 where step: "complete_frames F s w = Ret (k, s1, w1)" "waited m T s w s1 w1"
        "tx_ready F T C m fuel s1 w1" "onq (tx_frames s1) = in_flight C s w"
      using complete_step [OF Suc.prems(1)] by blast
    have op: "op F fuel a s w = Ret (Inl NoFreeTxFrames, s1, w1)"
      using blocked [OF step(1)] step(2,4) True by (simp add: waited_def)
    note fit1 = waits [OF Suc.prems(1) step(2) Suc.prems(2)]
    obtain j' where j: "j = Suc j'" using True Suc.prems(4) by (cases j) (auto simp: settled_def)
    have "drain_turn F (s, w) = (s1, w1)" using step(1) by (simp add: drain_turn_def)
    then have set1: "settled C ((drain_turn F ^^ j') (s1, w1))" using Suc.prems(4) by (simp add: j funpow_swap1)
    have run1: "tx_run F fuel m T C s0 w0 s1 w1 acc (handed @ new_packets m T w w1)"
      using run_step [OF Suc.prems(5) counts Suc.prems(2) op] by simp
    obtain s' w' handed' where "loop F fuel turns a s1 w1 = Ret (s', w')" "effect F m a s1 w1 w'"
        "tx_run F fuel m T C s0 w0 s' w' (acc @ [packet F m a s1 w1]) handed'"
      using Suc.IH [OF step(3) _ _ set1 run1] fit1 Suc.prems(3) j by auto
    then show ?thesis using fit1 op by (auto simp: loop_Suc)
  qed
qed

end

end
