(* ===== verification/Tx_Props.thy ===== *)
theory Tx_Props
  imports Loopback_States Xsk_Tx_Retry
begin

text \<open>
  The properties of the transmit end (\<^verbatim>\<open>src/src/xsk/tx.rs\<close>), each with a concrete
  instance on the reference platform.
\<close>

section \<open>Definitions\<close>

text \<open>
  A transmit end of two frames and batches of two, after its cursor was left inside a batch: one
  packet is pending in frame 1 and the cursor is back at frame 0.
\<close>

definition lb_wrapped :: XskTx where
  "lb_wrapped = (lb_tx True 2)\<lparr>cur_batch_size := 1\<rparr>"

text \<open>Three frames of 2 GiB, all with the kernel, which has completed the third.\<close>

definition lb_high :: XskTx where
  "lb_high = (lb_tx True 1)\<lparr>tx_frame_size := 2 ^ 31, outstanding_tx_frames := 3, free_frames := [0, 0, 0],
     tx_frames := map (\<lambda>i. (frame_at lb_area (2 ^ 31) 1792 i)\<lparr>frame_status := OnTxQueue\<rparr>) [0, 1, 2]\<rparr>"

definition lb_high_world :: "lb world" where
  "lb_high_world = \<lparr>mem = (\<lambda>_. 0),
     kern = (lb_kern True)\<lparr>tx_sent := [\<lparr>xd_addr = 2 ^ 32, xd_len = 3, xd_options = 0\<rparr>]\<rparr>\<rparr>"

text \<open>A closure for \<open>send_apply\<close>: it writes a constant byte and claims \<open>n\<close> bytes.\<close>

definition const_closure :: "nat \<Rightarrow> u8 \<Rightarrow> unit \<Rightarrow> u8 list \<Rightarrow> (usize \<times> (nat \<Rightarrow> u8) \<times> unit) outcome" where
  "const_closure n b c region = Ret (n, (\<lambda>_. b), ())"

text \<open>One packet of three bytes waits in a batch of two.\<close>

definition lb_pending :: XskTx where
  "lb_pending = (lb_tx True 2)\<lparr>cur_batch_size := 1, tx_cursor := 1,
     tx_frames := [(frame_at lb_area 2048 1792 0)\<lparr>frame_len := 3\<rparr>, frame_at lb_area 2048 1792 1]\<rparr>"

definition lb_pending_world :: "lb world" where
  "lb_pending_world = \<lparr>mem = (\<lambda>_. 9), kern = lb_kern True\<rparr>"

text \<open>The stalled kernel after it has completed its frame.\<close>

definition lb_done_world :: "lb world" where
  "lb_done_world = lb_busy_world\<lparr>kern := (kern lb_busy_world)\<lparr>tx_done := 1\<rparr>\<rparr>"

section \<open>These states are ready\<close>

lemma lb_pending_ready:
  assumes "0 < fuel"
  shows "tx_ready (loopback True) (lb_T True) (lb_C True) lb_area fuel lb_pending lb_pending_world"
proof -
  have fields: "tx_frames lb_pending = [(frame_at lb_area 2048 1792 0)\<lparr>frame_len := 3\<rparr>, frame_at lb_area 2048 1792 1]"
      "tx_cursor lb_pending = 1" "cur_batch_size lb_pending = 1" "batch_size lb_pending = 2" "tx_frame_size lb_pending = 2048"
      "outstanding_tx_frames lb_pending = 0" "pkts_tx (tx_stats lb_pending) = 0" "pkts_tx_completed (tx_stats lb_pending) = 0"
      "tx_q lb_pending = lb_tq" "comp_q lb_pending = lb_cq" "length (free_frames lb_pending) = 2"
    by (simp_all add: lb_pending_def) (simp add: lb_tx_def XskTx_new_def umem_frames_def)
  have "tx_frames_inv lb_area 2048 (tx_frames lb_pending)"
    by (auto simp: fields tx_frames_inv_def tx_frame_ok_def placed_def in_area_def less_Suc_eq)
  moreover have onq: "onq (tx_frames lb_pending) = {}" by (auto simp: fields onq_def less_Suc_eq intro!: gr0I)
  ultimately have "tx_inv lb_area lb_pending" by (simp add: tx_inv_def tx_core_def fields)
  moreover have "tx_linked (lb_T True) (lb_C True) lb_pending lb_pending_world"
    using onq by (simp add: tx_linked_def fields lb_T_def lb_C_def lb_pending_world_def lb_kern_def lb_tx_ok_def)
  moreover have "tx_counts (loopback True) (lb_T True) (lb_C True) lb_pending lb_pending_world"
    by (simp add: tx_counts_def idx_room_def fields lb_T_def lb_C_def lb_pending_world_def lb_kern_def)
  moreover have "tx_progress (loopback True) lb_tq (lb_T True) 2 fuel"
    using assms by (intro lb_tx_progress) (simp_all add: lb_cap_def)
  ultimately show ?thesis using lb_tx_platform by (simp add: tx_ready_def fields)
qed

lemma lb_done_ready: "tx_ready (loopback True) (lb_T False) (lb_C False) lb_area 1 (lb_busy 0) lb_done_world"
proof -
  have "tx_ready (loopback True) (lb_T False) (lb_C False) lb_area 1 (lb_busy 0) lb_busy_world" by (simp add: lb_busy_ready)
  moreover have "tx_linked (lb_T False) (lb_C False) (lb_busy 0) lb_done_world"
    by (simp add: tx_linked_def lb_T_def lb_C_def lb_done_world_def lb_busy_world_def lb_kern_def lb_tx_ok_def)
  moreover have "tx_counts (loopback True) (lb_T False) (lb_C False) (lb_busy 0) lb_done_world"
    by (simp add: tx_counts_def idx_room_def lb_T_def lb_C_def lb_done_world_def lb_busy_world_def lb_kern_def)
  ultimately show ?thesis by (simp add: tx_ready_def)
qed

section \<open>Sending\<close>

text \<open>
  C1: On a well-formed transmit end whose platform keeps its contract, \<open>send\<close> of a packet that
  fits the MTU always returns (it never panics, never reads or writes outside the UMEM, never
  waits for ever) and leaves the state well-formed: a frame is marked \<open>OnTxQueue\<close> exactly while
  the kernel holds its address.
\<close>

theorem send_total:
  assumes "tx_ready F T C m fuel s w" "length data \<le> frame_mtu (tx_frames s ! tx_cursor s)"
  shows "\<exists>r s' w'. send F fuel s data w = Ret (r, s', w') \<and> tx_inv m s' \<and> tx_linked T C s' w'"
  using send_ready [OF assms] by blast

theorem send_total_witness:
  "\<exists>r s' w'. send (loopback True) 1 (lb_tx True 2) [1, 2, 3] (lb_world True) = Ret (r, s', w') \<and>
     tx_inv lb_area s' \<and> tx_linked (lb_T True) (lb_C True) s' w'"
  by (rule send_total [OF lb_tx_ready]) simp_all

text \<open>
  C2: \<open>send\<close> refines the specification of a batching queue: the packet joins the pending
  batch; when the batch is full its packets, and nothing else, are handed to the kernel in the
  order they were sent, with the bytes they were sent with; otherwise nothing is handed over.
\<close>

theorem send_refines:
  assumes "tx_ready F T C m fuel s w" "length data \<le> frame_mtu (tx_frames s ! tx_cursor s)"
    and "send F fuel s data w = Ret (Inr (), s', w')"
  shows "(new_packets m T w w', batch_data s' w') = tx_spec_send (batch_size s) data ([], batch_data s w)"
  using send_ready [OF assms(1,2)] assms(3) by (auto split: if_splits simp del: tx_spec_send.simps)

theorem send_refines_witness:
  "\<exists>s' w'. send (loopback True) 1 (lb_tx True 1) [1, 2, 3] (lb_world True) = Ret (Inr (), s', w') \<and>
     (new_packets lb_area (lb_T True) (lb_world True) w', batch_data s' w') = ([[1, 2, 3]], [])"
proof -
  have ready: "tx_ready (loopback True) (lb_T True) (lb_C True) lb_area 1 (lb_tx True 1) (lb_world True)"
    by (rule lb_tx_ready) simp_all
  have data: "length [1, 2, 3 :: u8] \<le> frame_mtu (tx_frames (lb_tx True 1) ! tx_cursor (lb_tx True 1))" by simp
  obtain s' w' where run: "send (loopback True) 1 (lb_tx True 1) [1, 2, 3] (lb_world True) = Ret (Inr (), s', w')"
    using send_ready [OF ready data] by auto
  show ?thesis using send_refines [OF ready data run] run by (auto simp: batch_data_def)
qed

text \<open>
  C23: \<open>send\<close> returns \<open>NoFreeTxFrames\<close> exactly when the frame at the cursor is still in
  flight, that is marked as submitted with no completion waiting; then nothing is handed over and
  the pending batch is as before.
\<close>

theorem send_busy_iff:
  assumes "tx_ready F T C m fuel s w" "length data \<le> frame_mtu (tx_frames s ! tx_cursor s)"
    and "send F fuel s data w = Ret (r, s', w')"
  shows "(r = Inl NoFreeTxFrames \<longleftrightarrow> tx_cursor s \<in> in_flight C s w) \<and>
    (r = Inl NoFreeTxFrames \<longrightarrow> new_packets m T w w' = [] \<and> batch_data s' w' = batch_data s w)"
  using send_ready [OF assms(1,2)] assms(3) by (auto split: if_splits simp del: tx_spec_send.simps)

theorem send_busy_iff_witness:
  "\<exists>s' w'. send (loopback True) 1 (lb_busy 0) [1] lb_busy_world = Ret (Inl NoFreeTxFrames, s', w') \<and>
     batch_data s' w' = []"
proof -
  have ready: "tx_ready (loopback True) (lb_T False) (lb_C False) lb_area 1 (lb_busy 0) lb_busy_world"
    by (rule lb_busy_ready) simp_all
  have data: "length [1 :: u8] \<le> frame_mtu (tx_frames (lb_busy 0) ! tx_cursor (lb_busy 0))"
    by (simp add: lb_busy_def)
  obtain r s' w' where run: "send (loopback True) 1 (lb_busy 0) [1] lb_busy_world = Ret (r, s', w')"
    using send_ready [OF ready data] by blast
  have "batch_data (lb_busy 0) lb_busy_world = []" by (simp add: batch_data_def)
  then show ?thesis using send_busy_iff [OF ready data run] run by auto
qed

text \<open>
  C6: Ownership: a frame in flight stays marked and keeps every byte of its chunk through a
  \<open>send\<close>; the program never writes to memory the kernel is sending from.
\<close>

theorem send_keeps_in_flight:
  assumes "tx_ready F T C m fuel s w" "length data \<le> frame_mtu (tx_frames s ! tx_cursor s)"
    and "send F fuel s data w = Ret (r, s', w')" "i \<in> in_flight C s w"
  shows "frame_status (tx_frames s' ! i) = OnTxQueue \<and> (\<forall>a \<in> chunk m s i. mem w' a = mem w a)"
proof -
  have "in_flight C s w \<subseteq> onq (tx_frames s')"
      "\<forall>i \<in> in_flight C s w. \<forall>a \<in> chunk m s i. mem w' a = mem w a"
    using send_ready [OF assms(1,2)] assms(3) by (auto simp del: tx_spec_send.simps)
  then show ?thesis using assms(4) by (auto simp: onq_def)
qed

theorem send_keeps_in_flight_witness:
  "\<exists>r s' w'. send (loopback True) 1 (lb_busy 1) [1] lb_busy_world = Ret (r, s', w') \<and>
     frame_status (tx_frames s' ! 0) = OnTxQueue \<and> mem w' 4096 = 9"
proof -
  have ready: "tx_ready (loopback True) (lb_T False) (lb_C False) lb_area 1 (lb_busy 1) lb_busy_world"
    by (rule lb_busy_ready) simp_all
  have data: "length [1 :: u8] \<le> frame_mtu (tx_frames (lb_busy 1) ! tx_cursor (lb_busy 1))"
    by (simp add: lb_busy_def)
  obtain r s' w' where run: "send (loopback True) 1 (lb_busy 1) [1] lb_busy_world = Ret (r, s', w')"
    using send_ready [OF ready data] by blast
  have "4096 \<in> chunk lb_area (lb_busy 1) 0" by (simp add: chunk_def)
  then have "frame_status (tx_frames s' ! 0) = OnTxQueue \<and> mem w' 4096 = mem lb_busy_world 4096"
    using send_keeps_in_flight [OF ready data run, of 0] in_flight_lb_busy [of 1] by blast
  moreover have "mem lb_busy_world 4096 = 9" by (simp add: lb_busy_world_def)
  ultimately show ?thesis using run by simp
qed

text \<open>
  A packet larger than the MTU makes \<open>send\<close> panic, and does so before anything is written,
  although \<open>write_to_umem_checked\<close> reports the error as a value.
\<close>

theorem send_oversize_panics:
  assumes "complete_frames F s w = Ret (k, s1, w1)" "tx_cursor s1 < length (tx_frames s1)"
    and "frame_status (tx_frames s1 ! tx_cursor s1) = Free"
    and "frame_mtu (tx_frames s1 ! tx_cursor s1) < length data"
  shows "send F fuel s data w = Panic (Expect ''failed to write to umem'')"
  using assms write_checked_too_big [OF assms(4), of w1] by (simp add: send_def)

theorem send_oversize_panics_witness:
  "send (loopback True) 1 (lb_tx True 1) (replicate 1793 0) (lb_world True) =
     Panic (Expect ''failed to write to umem'')"
proof -
  have ready: "tx_ready (loopback True) (lb_T True) (lb_C True) lb_area 1 (lb_tx True 1) (lb_world True)"
    by (rule lb_tx_ready) simp_all
  then obtain ixs ff w1 where
    run: "complete_frames (loopback True) (lb_tx True 1) (lb_world True) = Ret (length ixs, completed ixs ff (lb_tx True 1), w1)"
    and "completes (lb_T True) (lb_C True) (tx_bytes lb_area (lb_tx True 1)) ixs (lb_tx True 1) (lb_world True) w1"
    using complete_frames_ok [of "loopback True" "lb_tx True 1" "lb_T True" "lb_C True" "tx_bytes lb_area (lb_tx True 1)" lb_area "lb_world True"]
    by (auto simp: tx_ready_def tx_inv_def tx_counts_def)
  then have "ixs = []" by (simp add: completes_def)
  then show ?thesis using send_oversize_panics [OF run] by simp
qed

section \<open>Runs\<close>

lemma lb_run_one:
  "\<exists>s w handed. tx_run (loopback True) 1 lb_area (lb_T True) (lb_C True) (lb_tx True 1) (lb_world True) s w [[1, 2, 3]] handed"
proof -
  have ready: "tx_ready (loopback True) (lb_T True) (lb_C True) lb_area 1 (lb_tx True 1) (lb_world True)"
    by (rule lb_tx_ready) simp_all
  have data: "length [1, 2, 3 :: u8] \<le> frame_mtu (tx_frames (lb_tx True 1) ! tx_cursor (lb_tx True 1))" by simp
  have counts: "tx_counts (loopback True) (lb_T True) (lb_C True) (lb_tx True 1) (lb_world True)"
    using ready by (simp add: tx_ready_def)
  obtain s' w' where run: "send (loopback True) 1 (lb_tx True 1) [1, 2, 3] (lb_world True) = Ret (Inr (), s', w')"
    using send_ready [OF ready data] by auto
  show ?thesis using run_send [OF run_start counts data run] by auto
qed

text \<open>
  C3: Over any interleaving of \<open>send\<close> and \<open>send_apply\<close> with steps of the kernel, the packets
  handed to the kernel are the packets accepted by these calls, in the order of the calls and with the bytes of the
  calls, up to those still waiting in the current batch: nothing is lost, repeated, reordered or
  altered, and the invariant holds throughout.
\<close>

theorem tx_run_fifo:
  assumes "tx_run F fuel m T C s0 w0 s w acc handed" "tx_ready F T C m fuel s0 w0"
  shows "batch_data s0 w0 @ acc = handed @ batch_data s w \<and> tx_inv m s \<and> tx_linked T C s w"
  using tx_run_inv [OF assms(1)] assms(2) by (simp add: tx_ready_def)

theorem tx_run_fifo_witness:
  "\<exists>s w handed. tx_run (loopback True) 1 lb_area (lb_T True) (lb_C True) (lb_tx True 1) (lb_world True) s w [[1, 2, 3]] handed \<and>
     [[1, 2, 3]] = handed @ batch_data s w"
proof -
  have ready: "tx_ready (loopback True) (lb_T True) (lb_C True) lb_area 1 (lb_tx True 1) (lb_world True)"
    by (rule lb_tx_ready) simp_all
  obtain s w handed where all: "tx_run (loopback True) 1 lb_area (lb_T True) (lb_C True) (lb_tx True 1) (lb_world True)
      s w [[1, 2, 3]] handed" using lb_run_one by blast
  have "batch_data (lb_tx True 1) (lb_world True) = []" by (simp add: batch_data_def)
  then show ?thesis using all tx_run_fifo [OF all ready] by auto
qed

text \<open>
  C15: The statistics are exact over any such run: \<open>pkts_tx\<close> grew by the number of packets handed
  to the kernel, which is the number of accepted calls less the change of the waiting batch, and
  \<open>pkts_tx_completed\<close> lags it by exactly the number of frames marked \<open>OnTxQueue\<close>, the ones
  handed over whose completion the socket has not collected yet.
\<close>

theorem tx_stats_exact:
  assumes "tx_run F fuel m T C s0 w0 s w acc handed" "tx_ready F T C m fuel s0 w0"
  shows "pkts_tx (tx_stats s) = pkts_tx (tx_stats s0) + length handed \<and>
    pkts_tx (tx_stats s) + cur_batch_size s = pkts_tx (tx_stats s0) + cur_batch_size s0 + length acc \<and>
    pkts_tx_completed (tx_stats s) + card (onq (tx_frames s)) = pkts_tx (tx_stats s)"
proof -
  have I: "tx_inv m s0" "tx_inv m s" "tx_linked T C s w" "tx_accepted s = tx_accepted s0 + length acc"
      "batch_data s0 w0 @ acc = handed @ batch_data s w"
    using tx_run_inv [OF assms(1)] assms(2) by (auto simp: tx_ready_def)
  have core: "tx_core m s" using I(2) by (simp add: tx_inv_def)
  have "cur_batch_size s0 + length acc = length handed + cur_batch_size s"
    using arg_cong [OF I(5), of length] by (simp add: batch_data_length [OF I(1)] batch_data_length [OF I(2)])
  then show ?thesis
    using I(4) linked_lengths(2) [OF core I(3)] core by (simp add: tx_accepted_def tx_core_def)
qed

theorem tx_stats_exact_witness:
  "\<exists>s w handed. tx_run (loopback True) 1 lb_area (lb_T True) (lb_C True) (lb_tx True 1) (lb_world True) s w [[1, 2, 3]] handed \<and>
     pkts_tx (tx_stats s) = length handed \<and> pkts_tx (tx_stats s) + cur_batch_size s = 1"
proof -
  have ready: "tx_ready (loopback True) (lb_T True) (lb_C True) lb_area 1 (lb_tx True 1) (lb_world True)"
    by (rule lb_tx_ready) simp_all
  obtain s w handed where all: "tx_run (loopback True) 1 lb_area (lb_T True) (lb_C True) (lb_tx True 1) (lb_world True)
      s w [[1, 2, 3]] handed" using lb_run_one by blast
  have "pkts_tx (tx_stats (lb_tx True 1)) = 0 \<and> cur_batch_size (lb_tx True 1) = 0" by (simp add: lb_tx_def XskTx_new_def TxStats_new_def)
  then show ?thesis using all tx_stats_exact [OF all ready] by auto
qed

text \<open>
  C20: \<open>drain\<close> returns, within the number of turns the kernel needs to complete everything, and
  then the pending batch was handed over in order, no frame is in flight and none is pending.
\<close>

theorem drain_complete:
  assumes "tx_ready F T C m (Suc fuel) s w" "drain_counts F T C s w"
    and "comp_progress F T C (comp_q s) (length (tx_frames s)) fuel"
  shows "\<exists>s' w'. drain F (Suc fuel) s w = Ret (s', w') \<and> onq (tx_frames s') = {} \<and>
    outstanding_tx_frames s' = 0 \<and> cur_batch_size s' = 0 \<and> new_packets m T w w' = batch_data s w"
proof -
  obtain s' w' where "drain F (Suc fuel) s w = Ret (s', w')" "tx_core m s'" "onq (tx_frames s') = {}"
      "cur_batch_size s' = 0" "new_packets m T w w' = batch_data s w"
    using drain_core [of F s T C m w fuel] assms by (auto simp: tx_ready_def)
  then show ?thesis by (simp add: tx_core_def)
qed

theorem drain_complete_witness:
  "\<exists>s' w'. drain (loopback True) 2 lb_pending lb_pending_world = Ret (s', w') \<and> outstanding_tx_frames s' = 0 \<and>
     new_packets lb_area (lb_T True) lb_pending_world w' = [[9, 9, 9]]"
proof -
  let ?s = "lb_pending" and ?w = "lb_pending_world"
  have "comp_progress (loopback True) (lb_T True) (lb_C True) (comp_q ?s) (length (tx_frames ?s)) 1"
    using lb_comp_progress [of 2 1] by (simp add: lb_pending_def lb_cap_def numeral_2_eq_2)
  moreover have "drain_counts (loopback True) (lb_T True) (lb_C True) ?s ?w"
    by (simp add: drain_counts_def idx_room_def lb_T_def lb_C_def lb_pending_def lb_pending_world_def lb_kern_def)
  moreover have "batch_data ?s ?w = [[9, 9, 9]]"
    by (simp add: lb_pending_def lb_pending_world_def batch_data_def frame_data_def bytes_at_def upt_rec)
  ultimately show ?thesis
    using drain_complete [OF lb_pending_ready [of "Suc 1"]] by (auto simp: numeral_2_eq_2)
qed

text \<open>
  C22: \<open>send_apply\<close> lends the closure the bytes of the frame at the cursor and then behaves like
  \<open>send\<close> of the bytes the closure leaves there: if the frame at the cursor is not in flight (its
  completion is waiting or was collected), then for a closure that returns normally with a length
  that fits the frame, the packet made of the first bytes of the frame joins the batch.
\<close>

theorem send_apply_refines:
  assumes "tx_ready F T C m fuel s w" "tx_cursor s \<notin> in_flight C s w"
    and "f c (cursor_region m s w) = Ret (len, bytes, c')" "len \<le> unat (tx_frame_size s)"
  shows "\<exists>s' w'. send_apply F fuel s f c w = Ret (Inr (), s', c', w') \<and> tx_inv m s' \<and> tx_linked T C s' w' \<and>
    (new_packets m T w w', batch_data s' w') =
      tx_spec_send (batch_size s) (map bytes [0..<len]) ([], batch_data s w)"
  using send_apply_ready [of F T C m fuel s w f c len bytes c'] assms by blast

theorem send_apply_refines_witness:
  "\<exists>s' w'. send_apply (loopback True) 1 (lb_tx True 1) (const_closure 2 7) () (lb_world True) = Ret (Inr (), s', (), w') \<and>
     new_packets lb_area (lb_T True) (lb_world True) w' = [[7, 7]]"
proof -
  have ready: "tx_ready (loopback True) (lb_T True) (lb_C True) lb_area 1 (lb_tx True 1) (lb_world True)"
    by (rule lb_tx_ready) simp_all
  have "batch_data (lb_tx True 1) (lb_world True) = []" by (simp add: batch_data_def)
  then show ?thesis
    using send_apply_refines [OF ready, of "const_closure 2 7" "()" 2 "\<lambda>_. 7" "()"]
    by (auto simp: const_closure_def upt_rec)
qed

section \<open>Completions\<close>

text \<open>
  C21: \<open>complete_frames\<close> collects every waiting completion. It returns their number and marks free
  exactly the frames they name, so that the frames still marked, and the number of outstanding
  frames, are those the kernel has not completed; the invariant and the pending batch, byte for byte,
  are kept.
\<close>

theorem complete_frames_frees:
  assumes "tx_ready F T C m fuel s w"
  shows "\<exists>s' w'. complete_frames F s w = Ret (length (cv_pend C w), s', w') \<and> tx_inv m s' \<and> tx_linked T C s' w' \<and>
    onq (tx_frames s') = in_flight C s w \<and> outstanding_tx_frames s' = card (in_flight C s w) \<and>
    batch_data s' w' = batch_data s w"
proof -
  have R: "tx_platform F (tx_q s) (comp_q s) T C (tx_bytes m s)" "tx_inv m s" "tx_linked T C s w" "tx_counts F T C s w"
    using assms by (simp_all add: tx_ready_def)
  then have core: "tx_core m s" "0 < unat (tx_frame_size s)"
    by (simp_all add: tx_inv_def tx_core_def tx_frames_inv_def)
  obtain ixs ff w1 where run: "complete_frames F s w = Ret (length ixs, completed ixs ff s, w1)"
    and ff: "length ff = length (free_frames s)" and comp: "completes T C (tx_bytes m s) ixs s w w1"
    using complete_frames_ok [OF R(1) core(1) R(3)] R(4) by (auto simp: tx_counts_def)
  note inv = completed_inv [OF comp R(2) ff]
  have onq: "onq (tx_frames (completed ixs ff s)) = in_flight C s w"
    using in_flight_completes [OF comp core(2)] by (simp add: onq_mark_free)
  moreover have "outstanding_tx_frames (completed ixs ff s) = card (onq (tx_frames (completed ixs ff s)))"
    using inv unfolding tx_inv_def tx_core_def by blast
  moreover have "length ixs = length (cv_pend C w)" using comp by (simp add: completes_def)
  ultimately show ?thesis
    using run inv completed_linked [OF comp R(3)] completed_batch_data [OF comp R(2)] by auto
qed

theorem complete_frames_frees_witness:
  "\<exists>s' w'. complete_frames (loopback True) (lb_busy 0) lb_done_world = Ret (1, s', w') \<and> onq (tx_frames s') = {} \<and>
     outstanding_tx_frames s' = 0"
proof -
  have "cv_pend (lb_C False) lb_done_world = [0]" "in_flight (lb_C False) (lb_busy 0) lb_done_world = {}"
    by (auto simp: in_flight_def lb_C_def lb_done_world_def lb_busy_world_def lb_kern_def tx_waiting_def lb_cap_def)
  with complete_frames_frees [OF lb_done_ready] show ?thesis by auto
qed

text \<open>
  C38: The completed address is cut to 32 bits before it is turned into a frame index. So in a UMEM of
  more than 4 GiB, when the kernel completes a frame \<open>n\<close> that lies at an offset of \<open>2 ^ 32\<close> or
  above, whatever its number and the frame size, \<open>complete_frames\<close> counts one completion but frees
  the frame that lies at the offset modulo \<open>2 ^ 32\<close>: always an earlier frame, which the kernel may
  still be sending. Frame \<open>n\<close> itself keeps its mark.
\<close>

theorem completion_truncates:
  assumes sz_def: "sz = unat (tx_frame_size s)" and i_def: "i = n * sz mod 2 ^ 32 div sz"
    and "comp_contract F (comp_q s) C" "cv_ok C w" "cv_peek C w = 0" "idx_room F (Suc (length (cv_taken C w)))"
    and "0 < outstanding_tx_frames s" "free_frames s \<noteq> []" "Suc (pkts_tx_completed (tx_stats s)) < 2 ^ 64"
    and "n < length (tx_frames s)" "cv_pend C w = [n * sz]" "2 ^ 32 \<le> n * sz"
  shows "\<exists>s' w'. complete_frames F s w = Ret (1, s', w') \<and> i < n \<and>
    tx_frames s' = (tx_frames s)[i := (tx_frames s ! i)\<lparr>frame_status := Free\<rparr>] \<and>
    tx_frames s' ! n = tx_frames s ! n \<and>
    outstanding_tx_frames s' = outstanding_tx_frames s - 1 \<and> cv_taken C w' = cv_taken C w @ [n * sz]"
proof -
  have sz: "0 < sz" "tx_frame_size s \<noteq> 0" using assms(12) unfolding sz_def by (auto intro: gr0I)
  have "n * sz mod 2 ^ 32 < n * sz" using assms(12) less_le_trans [of "n * sz mod 2 ^ 32" "2 ^ 32" "n * sz"] by simp
  then have i: "i < n" unfolding i_def by (rule less_mult_imp_div_less)
  have "unat (as_u32 (n * sz) div tx_frame_size s) = i" by (simp add: unat_div unat_as_u32 i_def sz_def)
  then have free: "free_loop (tx_frame_size s) [n * sz] (tx_frames s) =
      Ret ((tx_frames s)[i := (tx_frames s ! i)\<lparr>frame_status := Free\<rparr>])"
    using i sz(2) assms(10) by (simp add: div32_def as_usize_def)
  have len: "1 = min (outstanding_tx_frames s) (length (cv_pend C w))" "1 \<le> length (free_frames s)"
    using assms(7,8,11) by (simp_all add: Suc_le_eq)
  obtain w' where "CompQueue_consume F (comp_q s) (outstanding_tx_frames s) (free_frames s) w =
        Ret (1, [n * sz] @ drop 1 (free_frames s), w')" "cv_taken C w' = cv_taken C w @ [n * sz]"
    using compq.consume_ok [OF assms(3-5) len, of "\<lambda>_. True"] assms(6,11) by (auto simp: keeps_def)
  then show ?thesis
    using i free len(2) assms(7,9) by (simp add: complete_frames_def update_tx_frames_def sliceO_def)
qed

theorem completion_truncates_witness:
  "\<exists>s' w'. complete_frames (loopback True) lb_high lb_high_world = Ret (1, s', w') \<and>
     map frame_status (tx_frames s') = [Free, OnTxQueue, OnTxQueue]"
proof -
  let ?C = "lb_C True" and ?w = "lb_high_world"
  have con: "comp_contract (loopback True) (comp_q lb_high) ?C"
    using tx_platformD(2) [OF lb_tx_platform] by (simp add: lb_high_def)
  have "cv_ok ?C ?w" "cv_peek ?C ?w = 0"
      "idx_room (loopback True) (Suc (length (cv_taken ?C ?w)))" "0 < outstanding_tx_frames lb_high"
      "free_frames lb_high \<noteq> []" "Suc (pkts_tx_completed (tx_stats lb_high)) < 2 ^ 64" "2 < length (tx_frames lb_high)"
      "cv_pend ?C ?w = [2 * unat (tx_frame_size lb_high)]" "2 ^ 32 \<le> 2 * unat (tx_frame_size lb_high)"
    by (simp_all add: lb_high_def lb_high_world_def lb_C_def lb_kern_def lb_tx_ok_def tx_waiting_def lb_cap_def idx_room_def)
  from completion_truncates [OF refl refl con this] show ?thesis by (auto simp: lb_high_def)
qed

section \<open>Failures\<close>

text \<open>
  C37: A batch that wraps around the end of the frame list cannot be handed over: when the cursor
  was not at a multiple of the batch size (after \<open>drain\<close> of a partial batch, or when the batch
  size does not divide the number of frames), the \<open>send\<close> that fills the wrapped batch panics,
  with overflow checks in the subtraction and without them in the slice.
\<close>

theorem send_wrap_panics:
  assumes "complete_frames F s w = Ret (k, s1, w1)" "tx_cursor s1 < length (tx_frames s1)"
    and "placed (tx_frames s1 ! tx_cursor s1) a sz" "frame_status (tx_frames s1 ! tx_cursor s1) = Free"
    and "length data \<le> frame_mtu (tx_frames s1 ! tx_cursor s1)" "length (tx_frames s1) < 2 ^ 64"
    and "Suc (cur_batch_size s1) = batch_size s1" "batch_size s1 < 2 ^ 64"
    and "0 < Suc (tx_cursor s1) mod length (tx_frames s1)"
    and "Suc (tx_cursor s1) mod length (tx_frames s1) < batch_size s1"
  shows "send F fuel s data w = Panic (if overflow_checks F then ArithOverflow else OutOfRange)"
proof -
  have "in_area (frame_mmap (tx_frames s1 ! tx_cursor s1)) (frame_addr (tx_frames s1 ! tx_cursor s1)) (length data)"
    using assms(3,5) by (auto simp: placed_def intro: in_area_mono)
  then show ?thesis
    using assms by (auto simp: send_def write_checked_ok advance_def put_batch_misaligned rem64_def Let_def)
qed

theorem send_wrap_panics_witness:
  "send (loopback True) 1 lb_wrapped [1] (lb_world True) = Panic ArithOverflow"
proof -
  have run: "complete_frames (loopback True) lb_wrapped (lb_world True) = Ret (0, lb_wrapped, lb_world True)"
    by (simp add: lb_wrapped_def complete_frames_def CompQueue_consume_def update_tx_frames_def sliceO_def Let_def lb_sel lb_ops
        lb_world_def lb_kern_def tx_waiting_def)
  have "placed (tx_frames lb_wrapped ! 0) 0 2048"
    by (simp add: lb_wrapped_def placed_def frame_at_def in_area_def)
  then show ?thesis using send_wrap_panics [OF run, of 0 2048 "[1]" 1]
    by (simp add: lb_wrapped_def frame_at_def loopback_def)
qed

text \<open>
  With a batch size of 0 no packet is ever handed over: once a frame is written, \<open>send\<close>
  reports success and leaves the kernel as it is; the pending packets are overwritten when the
  cursor comes round.
\<close>

theorem batch_zero_never_sends:
  assumes "batch_size s = 0" "tx_cursor s < length (tx_frames s)" "length (tx_frames s) < 2 ^ 64"
    and "Suc (cur_batch_size s) < 2 ^ 64"
  shows "advance F fuel s w = Ret (Inr (), stepped s, w)"
  using assms by (auto simp: advance_def stepped_def rem64_def Let_def)

theorem batch_zero_never_sends_witness:
  "advance (loopback True) 1 (lb_tx True 0) (lb_world True) = Ret (Inr (), stepped (lb_tx True 0), lb_world True)"
  by (rule batch_zero_never_sends) simp_all

text \<open>
  C36: The loop that hands a batch over has no other exit than room for the whole batch: if the ring
  never has room for it (a batch larger than the ring), no number of turns is enough.
\<close>

theorem submit_never_fits:
  assumes "tx_platform F q cq T C K" "\<forall>w. pv_ok T w \<longrightarrow> pv_free T w < length batch"
    and "pv_ok T w" "pv_resv T w = 0" "idx_room F (length (pv_subm T w) + length batch)"
  shows "tx_submit_loop F fuel q batch (length batch) w = Spin"
  using tx_submit_loop_stuck [OF assms(1) refl _ assms(3-5)] assms(2) by blast

theorem submit_never_fits_witness:
  "tx_submit_loop (loopback True) 1000 lb_tq (replicate 65 (frame_at lb_area 2048 1792 0)) 65 (lb_world True) = Spin"
proof -
  have "pv_ok (lb_T True) (lb_world True)" "pv_resv (lb_T True) (lb_world True) = 0"
      "idx_room (loopback True) (length (pv_subm (lb_T True) (lb_world True)) + 65)"
      "\<forall>w. pv_ok (lb_T True) w \<longrightarrow> pv_free (lb_T True) w < 65"
    by (simp_all add: lb_T_def lb_world_def lb_kern_def lb_tx_ok_def idx_room_def lb_cap_def)
  then show ?thesis
    using submit_never_fits [OF lb_tx_platform, where batch = "replicate 65 (frame_at lb_area 2048 1792 0)"]
    by (metis length_replicate)
qed

end
