(* ===== verification/Xsk_Rx_Cases.thy ===== *)
theory Xsk_Rx_Cases
  imports Xsk_Rx_Apply
begin

text \<open>
  Case analysis on a call of \<open>recv\<close>, and what it leaves alone: the frames the program holds.
\<close>

text \<open>The two outcomes of \<open>recv\<close>: the packet at the cursor is delivered, or there is none.\<close>

lemma recv_outcome:
  assumes "rx_ready F P R m base fuel s w" "unat (rx_frame_size s) \<le> length pkt"
  obtains (deliver) q ds w1 fd w' f where "rx_got base s ds" "cv_taken R w1 = cv_taken R w @ ds"
      "same_in m (unat (rx_frame_size s)) ((+) base ` filled (rx_frames s)) w w1"
      "f = rx_frames (taken_in base q ds s) ! rx_cursor s" "frame_status f = Filled"
      "recv F fuel s pkt w =
         Ret (frame_len f, frame_data w1 f @ drop (frame_len f) pkt, delivered fd (taken_in base q ds s), w')"
      "rx_inv m base (delivered fd (taken_in base q ds s))" "rx_linked P R base (delivered fd (taken_in base q ds s)) w'"
      "same_in m (unat (rx_frame_size s)) ((+) base ` (filled (rx_frames (taken_in base q ds s)) - {rx_cursor s})) w1 w'"
      "rx_took F P R m base s w q ds w1" "rx_gave P R m base (taken_in base q ds s) w1 fd w'"
  | (none) q ds w1 where "rx_got base s ds" "cv_taken R w1 = cv_taken R w @ ds"
      "same_in m (unat (rx_frame_size s)) ((+) base ` filled (rx_frames s)) w w1"
      "frame_status (rx_frames (taken_in base q ds s) ! rx_cursor s) \<noteq> Filled"
      "recv F fuel s pkt w = Ret (0, pkt, taken_in base q ds s, w1)"
      "rx_inv m base (taken_in base q ds s)" "rx_linked P R base (taken_in base q ds s) w1"
      "rx_took F P R m base s w q ds w1"
proof -
  have A: "rx_platform F (fill_q s) (rx_q s) (unat (rx_frame_size s)) P R"
      "rx_memory F (fill_q s) (rx_q s) m (unat (rx_frame_size s)) P R"
      "rx_inv m base s" "rx_linked P R base s w" "rx_counts F P R s w" "rx_core m base s"
      "fill_progress F (fill_q s) P (length (rx_frames s)) fuel"
    using assms(1) by (simp_all add: rx_ready_def rx_inv_def)
  note c = rx_core_bounds(3,4) [OF A(6)]
  obtain q ds w1 where run: "recv F fuel s pkt w = recv_deliver F fuel (taken_in base q ds s) pkt w1"
    and took: "rx_took F P R m base s w q ds w1"
    and ok: "rx_inv m base (taken_in base q ds s)" "rx_linked P R base (taken_in base q ds s) w1"
    using recv_take [OF A(1-5)] .
  let ?s = "taken_in base q ds s"
  have got: "rx_got base s ds" "cv_taken R w1 = cv_taken R w @ ds"
      "same_in m (unat (rx_frame_size s)) ((+) base ` filled (rx_frames s)) w w1" "fill_same P w w1"
    using took by (simp_all add: rx_took_def)
  show thesis
  proof (cases "frame_status (rx_frames ?s ! rx_cursor s) = Filled")
    case True
    then have fil: "rx_cursor ?s \<in> filled (rx_frames ?s)" using c(1) by (simp add: filled_def)
    note room = rx_counts_taken(1) [OF A(5,3) got(1,4)] rx_counts_taken(2) [OF A(5,3) got(1,4), of q]
    have prog: "fill_progress F (fill_q s) P 1 fuel" using fill_progress_mono [OF A(7), of 1] c(2) by linarith
    let ?f = "rx_frames ?s ! rx_cursor s"
    obtain fd w' where give: "recv_deliver F fuel ?s pkt w1 =
        Ret (frame_len ?f, frame_data w1 ?f @ drop (frame_len ?f) pkt, delivered fd ?s, w')"
      "rx_gave P R m base ?s w1 fd w'"
      using recv_give [where s = ?s and f = ?f and rq = "rx_q s" and pkt = pkt and fuel = fuel, OF _ _ ok fil _ _ room]
        A(1,2) assms(2) prog by auto
    have "rx_inv m base (delivered fd ?s)" "rx_linked P R base (delivered fd ?s) w'"
        "same_in m (unat (rx_frame_size s)) ((+) base ` (filled (rx_frames ?s) - {rx_cursor s})) w1 w'"
      using give(2) by (simp_all add: rx_gave_def)
    then show ?thesis using deliver [OF got(1-3) refl True _ _ _ _ took give(2)] run give(1) by simp
  next
    case False
    then have "recv F fuel s pkt w = Ret (0, pkt, ?s, w1)"
      unfolding run using c(1) by (intro recv_deliver_none) simp_all
    then show ?thesis using none [OF got(1-3) False _ ok took] by simp
  qed
qed

text \<open>A frame the program holds does not move when descriptors are taken in, nor do its bytes.\<close>

lemma held_frame:
  assumes "rx_got base s ds" "rx_core m base s" "i \<in> filled (rx_frames s)"
  shows "rx_frames (taken_in base q ds s) ! i = rx_frames s ! i"
proof -
  have "i \<notin> fst ` set (tagged base (unat (rx_frame_size s)) ds)"
    using rx_gotD(2) [OF assms(1,2)] assms(3) filled_lent(2) [of "rx_frames s"] by blast
  then show ?thesis by (simp add: place_other)
qed

lemma held_data:
  assumes "rx_frame_ok m sz j f" "j \<in> J" "same_in m sz J w w'"
  shows "frame_data w' f = frame_data w f"
  unfolding frame_data_def
proof (rule bytes_at_cong)
  fix a assume a: "mem_ptr (frame_mmap f) + frame_addr f \<le> a" "a < mem_ptr (frame_mmap f) + frame_addr f + frame_len f"
  have "frame_addr f = j * sz + frame_addr f mod sz" "frame_addr f mod sz + frame_len f \<le> sz" "frame_mmap f = m"
    using assms(1) div_mult_mod_eq [of "frame_addr f" sz] by (simp_all add: rx_frame_ok_def)
  then have "a \<in> chunk_bytes m sz j" using a by (auto simp: chunk_bytes_def)
  then show "mem w' a = mem w a" using assms(2,3) by (simp add: same_in_def)
qed

lemma rx_inv_frame:
  assumes "rx_inv m base s" "i < length (rx_frames s)"
  shows "rx_frame_ok m (unat (rx_frame_size s)) (base + i) (rx_frames s ! i)"
  using assms by (simp add: rx_inv_def rx_core_def rx_frames_inv_def)

end
