(* ===== verification/Xsk_Calls.thy ===== *)
theory Xsk_Calls
  imports Xsk_Tx_Run Xsk_Rx_Apply
begin

text \<open>
  What each operation of the two ends does to the world: whatever it returns, it got there by the
  calls it makes on the platform and, for sending, by storing into a frame. Such guarantees are what
  the other end relies on.
\<close>

section \<open>Definitions\<close>

inductive via :: "('w \<Rightarrow> 'w) set \<Rightarrow> 'w \<Rightarrow> 'w \<Rightarrow> bool" for ops w where
  via_refl [simp]: "via ops w w"
| via_step: "via ops w w' \<Longrightarrow> f \<in> ops \<Longrightarrow> via ops w (f w')"

text \<open>Changes of the memory \<open>K\<close> and of nothing else.\<close>

definition stores :: "nat set \<Rightarrow> ('k world \<Rightarrow> 'k world) set" where
  "stores K = {f. \<forall>w. kern (f w) = kern w \<and> (\<forall>a. a \<notin> K \<longrightarrow> mem (f w) a = mem w a)}"

definition tx_calls :: "'k ffi \<Rightarrow> TxQueue \<Rightarrow> CompQueue \<Rightarrow> ('k world \<Rightarrow> 'k world) set" where
  "tx_calls F tq cq = tx_ops F tq \<union> comp_ops F cq \<union> {\<lambda>w. snd (libc_sendto F (fd_id (tq_fd tq)) w)}"

definition rx_calls :: "'k ffi \<Rightarrow> FillQueue \<Rightarrow> RxQueue \<Rightarrow> ('k world \<Rightarrow> 'k world) set" where
  "rx_calls F fq rq = fill_ops F fq \<union> rx_ops F rq \<union> poll_ops F"

section \<open>Reaching a world by calls\<close>

lemma via_trans: "via ops w1 w2 \<Longrightarrow> via ops w w1 \<Longrightarrow> via ops w w2"
  by (induction rule: via.induct) (auto intro: via.intros)

lemma via_one: "f \<in> ops \<Longrightarrow> via ops w (f w)"
  using via_step [OF via_refl] .

lemma via_mono: "via ops w w' \<Longrightarrow> ops \<subseteq> ops' \<Longrightarrow> via ops' w w'"
  by (induction rule: via.induct) (auto intro: via.intros)

text \<open>What every call keeps is kept, as far as a condition that is kept as well holds.\<close>

lemma via_keeps:
  assumes "via ops w w'" "P w" "keeps P P ops" "I w" "keeps P I ops"
  shows "P w' \<and> I w'"
  using assms(1)
proof induction
  case (via_step w' f)
  then show ?case using assms(3,5) by (auto simp: keeps_def)
next
  case via_refl
  then show ?case using assms(2,4) by simp
qed

lemma via_reserve: "xsk_ring_prod__reserve F r nb i w = (x, w') \<Longrightarrow> via (prod_ops F r put) w w'"
proof -
  assume res: "xsk_ring_prod__reserve F r nb i w = (x, w')"
  have "(\<lambda>w. snd (xsk_ring_prod__reserve F r nb i w)) \<in> prod_ops F r put" unfolding prod_ops_def by blast
  from via_one [OF this, of w] show ?thesis using res by simp
qed

lemma via_submit: "via (prod_ops F r put) w (xsk_ring_prod__submit F r nb w)"
  by (rule via_one) (auto simp: prod_ops_def)

lemma via_peek: "xsk_ring_cons__peek F r nb i w = (x, w') \<Longrightarrow> via (cons_ops F r) w w'"
proof -
  assume res: "xsk_ring_cons__peek F r nb i w = (x, w')"
  have "(\<lambda>w. snd (xsk_ring_cons__peek F r nb i w)) \<in> cons_ops F r" unfolding cons_ops_def by blast
  from via_one [OF this, of w] show ?thesis using res by simp
qed

lemma via_release: "via (cons_ops F r) w (xsk_ring_cons__release F r nb w)"
  by (rule via_one) (auto simp: cons_ops_def)

lemma via_write_slots: "write_slots chk put es i w = Ret w' \<Longrightarrow> via (prod_ops F r put) w w'"
proof (induction es arbitrary: i w)
  case (Cons e es)
  have "via (prod_ops F r put) w (put i e w)" by (rule via_one) (auto simp: prod_ops_def)
  moreover obtain i' where "write_slots chk put es i' (put i e w) = Ret w'"
    using Cons.prems by (auto simp: bindO_Ret_iff)
  ultimately show ?case using via_trans [OF Cons.IH] by simp
qed simp

text \<open>Reserving, filling and submitting, the body of both \<open>produce\<close> functions.\<close>

lemma via_produce:
  assumes "xsk_ring_prod__reserve F r nb 0 w = ((cnt, i), w1)" "write_slots chk put es i w1 = Ret w2"
  shows "via (prod_ops F r put) w (xsk_ring_prod__submit F r cnt w2)"
  using via_trans [OF via_submit via_trans [OF via_write_slots [OF assms(2)] via_reserve [OF assms(1)]]] .

section \<open>Sending\<close>

lemma TxQueue_produce_via: "TxQueue_produce F q ds w = Ret (n, w') \<Longrightarrow> via (tx_ops F q) w w'"
  by (auto simp: TxQueue_produce_def tx_ops_def Let_def bindO_Ret_iff
      intro: via_produce via_reserve split: if_splits prod.splits)

lemma tx_calls_ops: "tx_ops F tq \<subseteq> tx_calls F tq cq" "comp_ops F cq \<subseteq> tx_calls F tq cq"
  by (auto simp: tx_calls_def)

lemma TxQueue_wakeup_via: "TxQueue_wakeup F tq w = (r, w') \<Longrightarrow> via (tx_calls F tq cq) w w'"
  using via_one [of "\<lambda>w. snd (libc_sendto F (fd_id (tq_fd tq)) w)" "tx_calls F tq cq" w]
  by (auto simp: TxQueue_wakeup_def tx_calls_def Let_def split: prod.splits if_splits)

lemma TxQueue_produce_and_wakeup_via:
  assumes "TxQueue_produce_and_wakeup F tq ds w = Ret (r, w')"
  shows "via (tx_calls F tq cq) w w'"
proof -
  obtain n w1 where w1: "TxQueue_produce F tq ds w = Ret (n, w1)"
      "w' = w1 \<or> (\<exists>x. TxQueue_wakeup F tq w1 = (x, w'))"
    using assms by (auto simp: TxQueue_produce_and_wakeup_def bindO_Ret_iff split: if_splits prod.splits sum.splits)
  have "via (tx_calls F tq cq) w w1" using via_mono [OF TxQueue_produce_via [OF w1(1)] tx_calls_ops(1)] .
  then show ?thesis using w1(2) via_trans [OF TxQueue_wakeup_via] by auto
qed

lemma tx_submit_loop_via: "tx_submit_loop F fuel tq batch n w = Ret w' \<Longrightarrow> via (tx_calls F tq cq) w w'"
proof (induction fuel arbitrary: w)
  case (Suc fuel)
  then obtain r w1 where "TxQueue_produce_and_wakeup F tq batch w = Ret (r, w1)"
      "w' = w1 \<or> tx_submit_loop F fuel tq batch n w1 = Ret w'"
    by (auto simp: bindO_Ret_iff split: if_splits)
  then show ?case using TxQueue_produce_and_wakeup_via [of F tq batch w r w1 cq] via_trans [OF Suc.IH] by auto
qed simp

lemma put_batch_via:
  "put_batch_on_tx_queue F fuel s w = Ret (s', w') \<Longrightarrow> via (tx_calls F (tx_q s) (comp_q s)) w w'"
  by (auto simp: put_batch_on_tx_queue_def Let_def bindO_Ret_iff intro: tx_submit_loop_via split: if_splits prod.splits)

lemma advance_via: "advance F fuel s w = Ret (r, s', w') \<Longrightarrow> via (tx_calls F (tx_q s) (comp_q s)) w w'"
  by (auto simp: advance_def Let_def bindO_Ret_iff dest!: put_batch_via split: if_splits prod.splits)

lemma CompQueue_consume_via: "CompQueue_consume F q n buf w = Ret (m, buf', w') \<Longrightarrow> via (comp_ops F q) w w'"
  by (auto simp: CompQueue_consume_def comp_ops_def Let_def bindO_Ret_iff split: prod.splits
      intro: via_trans [OF via_release via_peek])

lemma complete_frames_via:
  "complete_frames F s w = Ret (n, s', w') \<Longrightarrow> via (tx_calls F (tx_q s) (comp_q s)) w w'"
  by (auto simp: complete_frames_def bindO_Ret_iff split: prod.splits
      intro: via_mono [OF CompQueue_consume_via tx_calls_ops(2)])

text \<open>Storing into a frame of the transmit end.\<close>

lemma region_store_stores:
  assumes "{mem_ptr m + off..<mem_ptr m + off + length bs} \<subseteq> K"
  shows "region_store m off bs \<in> stores K"
  unfolding stores_def
proof (intro CollectI allI conjI impI)
  fix w :: "'a world" and a
  show "mem (region_store m off bs w) a = mem w a" if "a \<notin> K"
    using that assms by (intro mem_region_store_outside) (meson atLeastLessThan_iff not_less subsetD)
qed simp

lemma cursor_store:
  assumes "tx_inv m s" "length bs \<le> unat (tx_frame_size s)"
  shows "region_store m (tx_cursor s * unat (tx_frame_size s)) bs \<in> stores (tx_bytes m s)"
proof (rule region_store_stores)
  have "Suc (tx_cursor s) * unat (tx_frame_size s) \<le> length (tx_frames s) * unat (tx_frame_size s)"
    using assms(1) by (intro mult_le_mono1) (simp add: tx_inv_def)
  then show "{mem_ptr m + tx_cursor s * unat (tx_frame_size s)..<
      mem_ptr m + tx_cursor s * unat (tx_frame_size s) + length bs} \<subseteq> tx_bytes m s"
    using assms(2) by (auto simp: tx_bytes_def)
qed

text \<open>Collecting completions, storing a packet at the cursor and moving on.\<close>

lemma store_advance_via:
  assumes run: "complete_frames F s w = Ret (k, s1, w1)" and s1: "tx_q s1 = tx_q s" "comp_q s1 = comp_q s"
    and f: "f \<in> stores K" and adv: "advance F fuel (written n s1) (f w1) = Ret (r, s', w')"
  shows "via (tx_calls F (tx_q s) (comp_q s) \<union> stores K) w w'"
proof -
  let ?ops = "tx_calls F (tx_q s) (comp_q s) \<union> stores K"
  have "via ?ops w w1" using via_mono [OF complete_frames_via [OF run] Un_upper1] .
  then have "via ?ops w (f w1)" using via_step f by (meson UnI2)
  moreover have "via ?ops (f w1) w'"
    using via_mono [OF advance_via [OF adv], of ?ops] s1 by (simp add: written_def)
  ultimately show ?thesis by (rule via_trans [rotated])
qed

lemma send_via:
  assumes plat: "tx_platform F (tx_q s) (comp_q s) T C (tx_bytes m s)" and inv: "tx_inv m s"
    and link: "tx_linked T C s w" and counts: "tx_counts F T C s w"
    and data: "length data \<le> frame_mtu (tx_frames s ! tx_cursor s)"
    and run: "send F fuel s data w = Ret (r, s', w')"
  shows "via (tx_calls F (tx_q s) (comp_q s) \<union> stores (tx_bytes m s)) w w'"
proof -
  have core: "tx_core m s" and c: "tx_cursor s < length (tx_frames s)" using inv by (simp_all add: tx_inv_def)
  obtain ixs ff w1 where cf: "complete_frames F s w = Ret (length ixs, completed ixs ff s, w1)"
    and ff: "length ff = length (free_frames s)" and comp: "completes T C (tx_bytes m s) ixs s w w1"
    using complete_frames_ok [OF plat core link] counts by (auto simp: tx_counts_def)
  let ?s = "completed ixs ff s"
  have inv1: "tx_inv m ?s" using completed_inv [OF comp inv ff] .
  show ?thesis
  proof (cases "tx_cursor ?s \<in> onq (tx_frames ?s)")
    case True
    then have "w' = w1" using send_blocked [OF cf True, of fuel data] run by simp
    then show ?thesis using via_mono [OF complete_frames_via [OF cf] Un_upper1] by simp
  next
    case False
    have mtu: "length data \<le> frame_mtu (tx_frames ?s ! tx_cursor ?s)" "length data \<le> unat (tx_frame_size s)"
      using data c inv_frame [OF inv c] by (simp_all add: nth_mark_free tx_frame_ok_def placed_def)
    have adv: "advance F fuel (written (length data) ?s) (region_store m (tx_cursor s * unat (tx_frame_size s)) data w1) =
        Ret (r, s', w')"
      using send_writes [OF cf inv1 False mtu(1), of fuel] run by simp
    show ?thesis using store_advance_via [OF cf _ _ cursor_store [OF inv mtu(2)] adv] by simp
  qed
qed

lemma send_apply_via:
  assumes plat: "tx_platform F (tx_q s) (comp_q s) T C (tx_bytes m s)" and inv: "tx_inv m s"
    and link: "tx_linked T C s w" and counts: "tx_counts F T C s w"
    and f: "f c (cursor_region m s w) = Ret (len, bytes, c1)"
    and run: "send_apply F fuel s f c w = Ret (r, s', c', w')"
  shows "via (tx_calls F (tx_q s) (comp_q s) \<union> stores (tx_bytes m s)) w w'"
proof -
  have core: "tx_core m s" using inv by (simp add: tx_inv_def)
  obtain ixs ff w1 where cf: "complete_frames F s w = Ret (length ixs, completed ixs ff s, w1)"
    and ff: "length ff = length (free_frames s)" and comp: "completes T C (tx_bytes m s) ixs s w w1"
    using complete_frames_ok [OF plat core link] counts by (auto simp: tx_counts_def)
  let ?s = "completed ixs ff s" and ?sz = "unat (tx_frame_size s)"
  have inv1: "tx_inv m ?s" using completed_inv [OF comp inv ff] .
  show ?thesis
  proof (cases "tx_cursor ?s \<in> onq (tx_frames ?s)")
    case True
    then have "w' = w1" using send_apply_blocked [OF cf True, of fuel f c] run by simp
    then show ?thesis using via_mono [OF complete_frames_via [OF cf] Un_upper1] by simp
  next
    case False
    have same: "same_on (tx_bytes m s) w w1" using comp by (simp add: completes_def tx_same_def)
    have reg: "cursor_region m s w = bytes_at w1 (mem_ptr m + tx_cursor ?s * unat (tx_frame_size ?s)) (unat (tx_frame_size ?s))"
      using cursor_region_same [OF inv same] by (simp add: frame_region_def)
    have adv: "advance F fuel (written len ?s)
        (region_store m (tx_cursor s * ?sz) (map bytes [0..<?sz]) w1) = Ret (r, s', w')"
      using run [unfolded send_apply_writes [where f = f, OF cf inv1 False reg f, of fuel]] by (auto simp: bindO_Ret_iff)
    have "region_store m (tx_cursor s * ?sz) (map bytes [0..<?sz]) \<in> stores (tx_bytes m s)"
      by (rule cursor_store [OF inv]) simp
    from store_advance_via [OF cf _ _ this, of fuel len] show ?thesis using adv by simp
  qed
qed

section \<open>Receiving\<close>

lemma rx_calls_ops:
  "fill_ops F fq \<subseteq> rx_calls F fq rq" "rx_ops F rq \<subseteq> rx_calls F fq rq" "poll_ops F \<subseteq> rx_calls F fq rq"
  "rx_calls F fq (rq\<lparr>rq_fd := fd\<rparr>) = rx_calls F fq rq"
  by (auto simp: rx_calls_def rx_ops_def)

lemma poll_read_via: "poll_read F fd t w = (r, fd', w') \<Longrightarrow> via (rx_calls F fq rq) w w'"
proof -
  assume run: "poll_read F fd t w = (r, fd', w')"
  have "(\<lambda>w. snd (libc_poll F c t w)) \<in> rx_calls F fq rq" for c
    unfolding rx_calls_def poll_ops_def by blast
  from via_one [OF this, of w "pollfd (pollin_fd fd)"] show ?thesis
    using run by (auto simp: poll_read_def poll_def Let_def split: prod.splits if_splits)
qed

lemma RxQueue_consume_via: "RxQueue_consume F q n buf w = Ret (m, buf', w') \<Longrightarrow> via (rx_ops F q) w w'"
  by (auto simp: RxQueue_consume_def rx_ops_def Let_def bindO_Ret_iff split: prod.splits if_splits
      intro: via_trans [OF via_release via_peek] via_peek)

lemma RxQueue_poll_and_consume_via:
  assumes "RxQueue_poll_and_consume F q n buf t w = Ret (r, q', buf', w')"
  shows "via (rx_calls F fq q) w w' \<and> rq_inner q' = rq_inner q"
proof -
  obtain x fd w1 where w1: "poll_read F (rq_fd q) t w = (x, fd, w1)" by (metis surj_pair)
  have "w' = w1 \<or> (\<exists>k b. RxQueue_consume F (q\<lparr>rq_fd := fd\<rparr>) n buf w1 = Ret (k, b, w'))" and q: "rq_inner q' = rq_inner q"
    using assms w1 by (auto simp: RxQueue_poll_and_consume_def bindO_Ret_iff split: sum.splits bool.splits)
  then show ?thesis
    using poll_read_via [OF w1, of fq q] via_trans [OF via_mono [OF RxQueue_consume_via rx_calls_ops(2)]] rx_calls_ops(4)
    by metis
qed

lemma FillQueue_produce_via: "FillQueue_produce F q ds w = Ret (n, w') \<Longrightarrow> via (fill_ops F q) w w'"
  by (auto simp: FillQueue_produce_def fill_ops_def Let_def bindO_Ret_iff
      intro: via_produce via_reserve split: if_splits prod.splits)

lemma FillQueue_wakeup_via: "FillQueue_wakeup F q fd t w = (r, fd', w') \<Longrightarrow> via (rx_calls F fq rq) w w'"
  by (auto simp: FillQueue_wakeup_def split: prod.splits sum.splits intro: poll_read_via)

lemma FillQueue_produce_and_wakeup_via:
  assumes "FillQueue_produce_and_wakeup F fq ds fd t w = Ret (r, fd', w')"
  shows "via (rx_calls F fq rq) w w'"
proof -
  obtain n w1 where w1: "FillQueue_produce F fq ds w = Ret (n, w1)"
      "w' = w1 \<or> (\<exists>x y. FillQueue_wakeup F fq fd t w1 = (x, y, w'))"
    using assms by (auto simp: FillQueue_produce_and_wakeup_def bindO_Ret_iff split: if_splits prod.splits sum.splits)
  have "via (rx_calls F fq rq) w w1" using via_mono [OF FillQueue_produce_via [OF w1(1)] rx_calls_ops(1)] .
  then show ?thesis using w1(2) via_trans [OF FillQueue_wakeup_via] by auto
qed

lemma refill_loop_via: "refill_loop F fuel fq frames fd t w = Ret (fd', w') \<Longrightarrow> via (rx_calls F fq rq) w w'"
proof (induction fuel arbitrary: fd w)
  case (Suc fuel)
  then obtain r fd1 w1 where "FillQueue_produce_and_wakeup F fq frames fd t w = Ret (r, fd1, w1)"
      "w' = w1 \<or> refill_loop F fuel fq frames fd1 t w1 = Ret (fd', w')"
    by (auto simp: bindO_Ret_iff split: if_splits)
  then show ?case
    using FillQueue_produce_and_wakeup_via [of F fq frames fd t w r fd1 w1 rq] via_trans [OF Suc.IH] by auto
qed simp

lemma recv_poll_via:
  assumes "recv_poll F s w = Ret (n, s', w')"
  shows "via (rx_calls F (fill_q s) (rx_q s)) w w' \<and> fill_q s' = fill_q s \<and> rq_inner (rx_q s') = rq_inner (rx_q s)"
proof -
  obtain r q ff w1 where w1: "RxQueue_poll_and_consume F (rx_q s) (n_frames_to_be_filled s) (filled_frames s)
        (poll_ms_timeout s) w = Ret (r, q, ff, w1)"
    and rest: "w' = w1 \<or> (\<exists>x y. FillQueue_wakeup F (fill_q s) (rq_fd q) (poll_ms_timeout s) w1 = (x, y, w'))"
      "fill_q s' = fill_q s" "rq_inner (rx_q s') = rq_inner q"
    using assms by (auto simp: recv_poll_def Let_def bindO_Ret_iff split: if_splits prod.splits)
  then show ?thesis
    using RxQueue_poll_and_consume_via [OF w1, of "fill_q s"] via_trans [OF FillQueue_wakeup_via] by auto
qed

lemma rx_calls_inner: "rq_inner q' = rq_inner q \<Longrightarrow> rx_calls F fq q' = rx_calls F fq q"
  by (simp add: rx_calls_def rx_ops_def)

lemma recv_deliver_via:
  "recv_deliver F fuel s pkt w = Ret (n, pkt', s', w') \<Longrightarrow> via (rx_calls F (fill_q s) q) w w'"
  by (auto simp: recv_deliver_def Let_def bindO_Ret_iff intro: refill_loop_via
      split: FrameStatus.splits prod.splits) (meson FrameStatus.exhaust)

lemma apply_batch_via:
  "apply_batch F fuel s n f c w = Ret (c', s', w') \<Longrightarrow> via (rx_calls F (fill_q s) q) w w'"
  by (auto simp: apply_batch_def Let_def bindO_Ret_iff intro: refill_loop_via split: prod.splits)

lemma recv_via:
  assumes "recv F fuel s pkt w = Ret (n, pkt', s', w')"
  shows "via (rx_calls F (fill_q s) (rx_q s)) w w'"
proof -
  obtain k s1 w1 fs where poll: "recv_poll F s w = Ret (k, s1, w1)"
    and dl: "recv_deliver F fuel (s1\<lparr>rx_frames := fs\<rparr>) pkt w1 = Ret (n, pkt', s', w')"
    using assms by (auto simp: recv_def update_rx_frames_def bindO_Ret_iff)
  show ?thesis using recv_poll_via [OF poll] via_trans [OF recv_deliver_via [OF dl, of "rx_q s"]] by simp
qed

lemma recv_apply_via:
  assumes "recv_apply F fuel s f c w = Ret (c', s', w')"
  shows "via (rx_calls F (fill_q s) (rx_q s)) w w'"
proof -
  obtain k s1 w1 where poll: "recv_poll F s w = Ret (k, s1, w1)"
    and dl: "w' = w1 \<or> apply_batch F fuel s1 k f c w1 = Ret (c', s', w')"
    using assms by (auto simp: recv_apply_def bindO_Ret_iff split: if_splits)
  then show ?thesis using recv_poll_via [OF poll] via_trans [OF apply_batch_via] by metis
qed

end
