(* ===== verification/Xsk_Run.thy ===== *)
theory Xsk_Run
  imports Xsk_Calls Xsk_Rx_Cases Xsk
begin

text \<open>
  The two ends of one socket working together. Both use the same world; what each end guarantees
  (\<open>Xsk_Calls\<close>) is what the other relies on: to either end, an operation of the other is a step
  of its environment. Any interleaving of operations of both ends with steps of the kernel therefore
  is a run of the transmit end and keeps the invariant of the receive end.
\<close>

section \<open>Definitions\<close>

text \<open>
  The rings of one socket are separate: a call on a transmit ring neither submits nor takes on the
  receive rings and lets the kernel write to the chunks it holds only; a call on a receive ring
  neither submits nor takes on the transmit rings, and no one but the program writes to the transmit
  frames \<open>K\<close>; the receive rings, too, are not part of the UMEM.
\<close>

definition rx_calm ::
    "MmapArea \<Rightarrow> nat \<Rightarrow> ('k, u64) prod_view \<Rightarrow> ('k, xdp_desc) cons_view \<Rightarrow> 'k world \<Rightarrow> 'k world \<Rightarrow> bool" where
  "rx_calm m sz P R w w' \<longleftrightarrow>
     pv_ok P w' \<and> fill_same P w w' \<and> rx_same R w w' \<and> same_in m sz (- kernel_chunks sz P R w) w w'"

definition tx_calm ::
    "('k, xdp_desc) prod_view \<Rightarrow> ('k, u64) cons_view \<Rightarrow> nat set \<Rightarrow> 'k world \<Rightarrow> 'k world \<Rightarrow> bool" where
  "tx_calm T C K w w' \<longleftrightarrow> pv_ok T w' \<and> tx_same T K w w' \<and> comp_same C K w w'"

definition separate_rings ::
    "'k ffi \<Rightarrow> TxQueue \<Rightarrow> CompQueue \<Rightarrow> FillQueue \<Rightarrow> RxQueue \<Rightarrow> MmapArea \<Rightarrow> nat \<Rightarrow> nat set \<Rightarrow>
     ('k, xdp_desc) prod_view \<Rightarrow> ('k, u64) cons_view \<Rightarrow> ('k, u64) prod_view \<Rightarrow> ('k, xdp_desc) cons_view \<Rightarrow> bool" where
  "separate_rings F tq cq fq rq m sz K T C P R \<longleftrightarrow>
     (\<forall>f \<in> tx_calls F tq cq. \<forall>w. pv_ok P w \<longrightarrow> rx_calm m sz P R w (f w)) \<and>
     (\<forall>f \<in> rx_calls F fq rq. \<forall>w. pv_ok T w \<longrightarrow> tx_calm T C K w (f w)) \<and>
     (\<forall>w w'. kern w = kern w' \<longrightarrow>
        pv_ok P w = pv_ok P w' \<and> pv_subm P w = pv_subm P w' \<and> pv_resv P w = pv_resv P w' \<and>
        cv_taken R w = cv_taken R w' \<and> cv_peek R w = cv_peek R w')"

text \<open>Both ends are well-formed, their platform keeps its promises, and their frames are apart.\<close>

definition xsk_ok ::
    "'k ffi \<Rightarrow> nat \<Rightarrow> MmapArea \<Rightarrow> nat \<Rightarrow> ('k, xdp_desc) prod_view \<Rightarrow> ('k, u64) cons_view \<Rightarrow> ('k, u64) prod_view \<Rightarrow>
     ('k, xdp_desc) cons_view \<Rightarrow> Xsk2 \<Rightarrow> 'k world \<Rightarrow> bool" where
  "xsk_ok F fuel m base T C P R x w \<longleftrightarrow>
     (let s = x2_tx x; r = x2_rx x; sz = unat (rx_frame_size r) in
      tx_platform F (tx_q s) (comp_q s) T C (tx_bytes m s) \<and> tx_progress F (tx_q s) T (batch_size s) fuel \<and>
      tx_inv m s \<and> tx_linked T C s w \<and>
      rx_platform F (fill_q r) (rx_q r) sz P R \<and> rx_memory F (fill_q r) (rx_q r) m sz P R \<and>
      fill_progress F (fill_q r) P (length (rx_frames r)) fuel \<and> rx_inv m base r \<and> rx_linked P R base r w \<and>
      length (tx_frames s) \<le> base \<and> tx_frame_size s = rx_frame_size r \<and>
      separate_rings F (tx_q s) (comp_q s) (fill_q r) (rx_q r) m sz (tx_bytes m s) T C P R)"

text \<open>What no operation of the receive end changes.\<close>

definition rx_fixed :: "XskRx \<Rightarrow> XskRx \<Rightarrow> bool" where
  "rx_fixed s s' \<longleftrightarrow>
     fill_q s' = fill_q s \<and> rq_inner (rx_q s') = rq_inner (rx_q s) \<and> rx_frame_size s' = rx_frame_size s \<and>
     length (rx_frames s') = length (rx_frames s)"

text \<open>
  A run of the whole socket; \<open>c\<close> is what the closures of \<open>recv_apply\<close> have captured, the last
  two arguments are as in \<open>tx_run\<close>.
\<close>

inductive xsk_run ::
    "'k ffi \<Rightarrow> nat \<Rightarrow> MmapArea \<Rightarrow> ('k, xdp_desc) prod_view \<Rightarrow> ('k, u64) cons_view \<Rightarrow> ('k, u64) prod_view \<Rightarrow>
     ('k, xdp_desc) cons_view \<Rightarrow> Xsk2 \<Rightarrow> 'c \<Rightarrow> 'k world \<Rightarrow> Xsk2 \<Rightarrow> 'c \<Rightarrow> 'k world \<Rightarrow> u8 list list \<Rightarrow> u8 list list \<Rightarrow> bool"
  for F fuel m T C P R x0 c0 w0 where
  xrun_start: "xsk_run F fuel m T C P R x0 c0 w0 x0 c0 w0 [] []"
| xrun_send:
    "xsk_run F fuel m T C P R x0 c0 w0 x c w acc handed \<Longrightarrow> tx_counts F T C (x2_tx x) w \<Longrightarrow>
     length data \<le> frame_mtu (tx_frames (x2_tx x) ! tx_cursor (x2_tx x)) \<Longrightarrow>
     send F fuel (x2_tx x) data w = Ret (r, s', w') \<Longrightarrow>
     xsk_run F fuel m T C P R x0 c0 w0 (x\<lparr>x2_tx := s'\<rparr>) c w'
       (acc @ (case r of Inl _ \<Rightarrow> [] | Inr _ \<Rightarrow> [data])) (handed @ new_packets m T w w')"
| xrun_send_apply:
    "xsk_run F fuel m T C P R x0 c0 w0 x c w acc handed \<Longrightarrow> tx_counts F T C (x2_tx x) w \<Longrightarrow>
     f () (cursor_region m (x2_tx x) w) = Ret (len, bytes, ()) \<Longrightarrow> len \<le> unat (tx_frame_size (x2_tx x)) \<Longrightarrow>
     send_apply F fuel (x2_tx x) f () w = Ret (r, s', (), w') \<Longrightarrow>
     xsk_run F fuel m T C P R x0 c0 w0 (x\<lparr>x2_tx := s'\<rparr>) c w'
       (acc @ (case r of Inl _ \<Rightarrow> [] | Inr _ \<Rightarrow> [map bytes [0..<len]])) (handed @ new_packets m T w w')"
| xrun_recv:
    "xsk_run F fuel m T C P R x0 c0 w0 x c w acc handed \<Longrightarrow> rx_counts F P R (x2_rx x) w \<Longrightarrow>
     unat (rx_frame_size (x2_rx x)) \<le> length pkt \<Longrightarrow> recv F fuel (x2_rx x) pkt w = Ret (n, pkt', s', w') \<Longrightarrow>
     xsk_run F fuel m T C P R x0 c0 w0 (x\<lparr>x2_rx := s'\<rparr>) c w' acc handed"
| xrun_recv_apply:
    "xsk_run F fuel m T C P R x0 c0 w0 x c w acc handed \<Longrightarrow> rx_counts F P R (x2_rx x) w \<Longrightarrow>
     recv_apply F fuel (x2_rx x) g c w = Ret (c', s', w') \<Longrightarrow>
     xsk_run F fuel m T C P R x0 c0 w0 (x\<lparr>x2_rx := s'\<rparr>) c' w' acc handed"
| xrun_kernel:
    "xsk_run F fuel m T C P R x0 c0 w0 x c w acc handed \<Longrightarrow> tx_calm T C (tx_bytes m (x2_tx x)) w w' \<Longrightarrow>
     rx_calm m (unat (rx_frame_size (x2_rx x))) P R w w' \<Longrightarrow> xsk_run F fuel m T C P R x0 c0 w0 x c w' acc handed"

section \<open>Guarantees meet what the other end relies on\<close>

lemma separate_ringsD:
  assumes "separate_rings F tq cq fq rq m sz K T C P R"
  shows "f \<in> tx_calls F tq cq \<Longrightarrow> pv_ok P w \<Longrightarrow> rx_calm m sz P R w (f w)"
    "f \<in> rx_calls F fq rq \<Longrightarrow> pv_ok T w \<Longrightarrow> tx_calm T C K w (f w)"
    "kern w' = kern w \<Longrightarrow> pv_ok P w' = pv_ok P w \<and> fill_same P w w' \<and> rx_same R w w'"
  using assms unfolding separate_rings_def fill_same_def rx_same_def by blast+

lemma kernel_chunks_same:
  assumes "fill_same P w w'" "rx_same R w w'"
  shows "kernel_chunks sz P R w' = kernel_chunks sz P R w"
  using assms by (simp add: kernel_chunks_def fill_chunks_def fill_same_def rx_same_def)

lemma rx_calm_trans: "rx_calm m sz P R w w1 \<Longrightarrow> rx_calm m sz P R w1 w2 \<Longrightarrow> rx_calm m sz P R w w2"
  using kernel_chunks_same [of P w w1 R sz] same_in_trans [of m sz "- kernel_chunks sz P R w" w w1 w2]
  by (simp add: rx_calm_def fill_same_def rx_same_def)

lemma tx_calm_trans: "tx_calm T C K w w1 \<Longrightarrow> tx_calm T C K w1 w2 \<Longrightarrow> tx_calm T C K w w2"
  by (simp add: tx_calm_def tx_same_def comp_same_def same_on_def)

lemma rx_linked_calm: "rx_linked P R base s w \<Longrightarrow> rx_calm m sz P R w w' \<Longrightarrow> rx_linked P R base s w'"
  by (simp add: rx_linked_def rx_calm_def fill_same_def rx_same_def fill_chunks_def)

lemma tx_linked_calm: "tx_linked T C s w \<Longrightarrow> tx_calm T C K w w' \<Longrightarrow> tx_linked T C s w'"
  by (simp add: tx_linked_def tx_calm_def tx_same_def comp_same_def)

text \<open>
  An operation of the transmit end, seen from the receive end: the rings stay as they are and so do
  all chunks \<open>J\<close> the kernel does not hold and the transmit end does not store to.
\<close>

definition held_calm ::
    "MmapArea \<Rightarrow> nat \<Rightarrow> ('k, u64) prod_view \<Rightarrow> ('k, xdp_desc) cons_view \<Rightarrow> nat set \<Rightarrow> 'k world \<Rightarrow> 'k world \<Rightarrow> bool" where
  "held_calm m sz P R J w w' \<longleftrightarrow> pv_ok P w' \<and> fill_same P w w' \<and> rx_same R w w' \<and> same_in m sz J w w'"

lemma held_calm_trans: "held_calm m sz P R J w w1 \<Longrightarrow> held_calm m sz P R J w1 w2 \<Longrightarrow> held_calm m sz P R J w w2"
  using same_in_trans [of m sz J w w1 w2] by (simp add: held_calm_def fill_same_def rx_same_def)

lemma stores_calm:
  assumes sep: "separate_rings F tq cq fq rq m sz K' T C P R" and f: "f \<in> stores K" and ok: "pv_ok P w"
    and apart: "\<forall>j \<in> J. K \<inter> chunk_bytes m sz j = {}"
  shows "held_calm m sz P R J w (f w)"
proof -
  have "kern (f w) = kern w" using f by (simp add: stores_def)
  from separate_ringsD(3) [OF sep this] have views: "pv_ok P (f w)" "fill_same P w (f w)" "rx_same R w (f w)"
    using ok by simp_all
  have "mem (f w) a = mem w a" if "a \<notin> K" for a using f that by (simp add: stores_def)
  then have "same_in m sz J w (f w)" using apart unfolding same_in_def by blast
  then show ?thesis using views by (simp add: held_calm_def)
qed

lemma tx_via_calm:
  assumes sep: "separate_rings F tq cq fq rq m sz K' T C P R"
    and via: "via (tx_calls F tq cq \<union> stores K) w w'" and ok: "pv_ok P w"
    and J: "J \<inter> kernel_chunks sz P R w = {}" and apart: "\<forall>j \<in> J. K \<inter> chunk_bytes m sz j = {}"
  shows "held_calm m sz P R J w w'"
  using via
proof induction
  case via_refl
  then show ?case using ok by (simp add: held_calm_def)
next
  case (via_step w1 f)
  then have w1: "pv_ok P w1" "J \<subseteq> - kernel_chunks sz P R w1"
    using J kernel_chunks_same [of P w w1 R sz] by (auto simp: held_calm_def)
  have "held_calm m sz P R J w1 (f w1)"
  proof (cases "f \<in> stores K")
    case True
    then show ?thesis using stores_calm [OF sep _ w1(1) apart] by simp
  next
    case False
    then have "f \<in> tx_calls F tq cq" using via_step(2) by blast
    from separate_ringsD(1) [OF sep this w1(1)] have "rx_calm m sz P R w1 (f w1)" .
    then show ?thesis using w1(2) by (auto simp: rx_calm_def held_calm_def same_in_def)
  qed
  with via_step(3) show ?case by (rule held_calm_trans)
qed

lemma rx_via_calm:
  assumes sep: "separate_rings F tq cq fq rq m sz K T C P R"
    and via: "via (rx_calls F fq rq) w w'" and ok: "pv_ok T w"
  shows "tx_calm T C K w w'"
  using via
proof induction
  case via_refl
  then show ?case using ok by (simp add: tx_calm_def tx_same_def comp_same_def same_on_def)
next
  case (via_step w1 f)
  then have "tx_calm T C K w1 (f w1)" by (intro separate_ringsD(2) [OF sep]) (simp_all add: tx_calm_def)
  with via_step(3) show ?case by (rule tx_calm_trans)
qed

section \<open>One operation\<close>

lemma xsk_okD:
  assumes "xsk_ok F fuel m base T C P R x w"
  shows "tx_platform F (tx_q (x2_tx x)) (comp_q (x2_tx x)) T C (tx_bytes m (x2_tx x))"
    "tx_progress F (tx_q (x2_tx x)) T (batch_size (x2_tx x)) fuel" "tx_inv m (x2_tx x)" "tx_linked T C (x2_tx x) w"
    "rx_inv m base (x2_rx x)" "rx_linked P R base (x2_rx x) w" "length (tx_frames (x2_tx x)) \<le> base"
    "tx_frame_size (x2_tx x) = rx_frame_size (x2_rx x)"
    "separate_rings F (tx_q (x2_tx x)) (comp_q (x2_tx x)) (fill_q (x2_rx x)) (rx_q (x2_rx x)) m
       (unat (rx_frame_size (x2_rx x))) (tx_bytes m (x2_tx x)) T C P R"
    "rx_counts F P R (x2_rx x) w \<Longrightarrow> rx_ready F P R m base fuel (x2_rx x) w"
    "tx_counts F T C (x2_tx x) w \<Longrightarrow> tx_ready F T C m fuel (x2_tx x) w"
  using assms by (simp_all add: xsk_ok_def rx_ready_def tx_ready_def Let_def)

text \<open>The frames the program holds are neither with the kernel nor the transmit end's.\<close>

lemma held_apart:
  assumes "xsk_ok F fuel m base T C P R x w" "J = (+) base ` filled (rx_frames (x2_rx x))"
  shows "J \<inter> kernel_chunks (unat (rx_frame_size (x2_rx x))) P R w = {}"
    "\<forall>j \<in> J. tx_bytes m (x2_tx x) \<inter> chunk_bytes m (unat (rx_frame_size (x2_rx x))) j = {}"
proof -
  note ok = xsk_okD [OF assms(1)]
  show "J \<inter> kernel_chunks (unat (rx_frame_size (x2_rx x))) P R w = {}"
    using kernel_chunks_linked [OF ok(6)] filled_lent(2) [of "rx_frames (x2_rx x)"] assms(2) by auto
  show "\<forall>j \<in> J. tx_bytes m (x2_tx x) \<inter> chunk_bytes m (unat (rx_frame_size (x2_rx x))) j = {}"
    using ends_apart [OF ok(7,8), of _ m] assms(2) by (auto simp: filled_def)
qed

lemma tx_step_calm:
  assumes ok: "xsk_ok F fuel m base T C P R x w"
    and via: "via (tx_calls F (tx_q (x2_tx x)) (comp_q (x2_tx x)) \<union> stores (tx_bytes m (x2_tx x))) w w'"
  shows "rx_linked P R base (x2_rx x) w'"
    "\<forall>i \<in> filled (rx_frames (x2_rx x)). frame_data w' (rx_frames (x2_rx x) ! i) = frame_data w (rx_frames (x2_rx x) ! i)"
proof -
  note D = xsk_okD [OF ok]
  let ?J = "(+) base ` filled (rx_frames (x2_rx x))" and ?sz = "unat (rx_frame_size (x2_rx x))"
  have "pv_ok P w" using D(6) by (simp add: rx_linked_def)
  from tx_via_calm [OF D(9) via this held_apart [OF ok refl]]
  have calm: "held_calm m ?sz P R ?J w w'" .
  then show "rx_linked P R base (x2_rx x) w'"
    using D(6) by (simp add: held_calm_def rx_linked_def fill_same_def rx_same_def fill_chunks_def)
  show "\<forall>i \<in> filled (rx_frames (x2_rx x)). frame_data w' (rx_frames (x2_rx x) ! i) = frame_data w (rx_frames (x2_rx x) ! i)"
  proof
    fix i assume i: "i \<in> filled (rx_frames (x2_rx x))"
    then have "rx_frame_ok m ?sz (base + i) (rx_frames (x2_rx x) ! i)"
      by (intro rx_inv_frame [OF D(5)]) (simp add: filled_def)
    moreover have "same_in m ?sz ?J w w'" using calm by (simp add: held_calm_def)
    ultimately show "frame_data w' (rx_frames (x2_rx x) ! i) = frame_data w (rx_frames (x2_rx x) ! i)"
      using held_data i by blast
  qed
qed

section \<open>Runs\<close>

lemma xsk_ok_tx:
  assumes ok: "xsk_ok F fuel m base T C P R x w" and "tx_inv m s'" "tx_linked T C s' w'" "tx_fixed (x2_tx x) s'"
    and "rx_linked P R base (x2_rx x) w'"
  shows "xsk_ok F fuel m base T C P R (x\<lparr>x2_tx := s'\<rparr>) w'"
proof -
  have "tx_bytes m s' = tx_bytes m (x2_tx x)" using assms(4) by (simp add: tx_bytes_def tx_fixed_def)
  then show ?thesis using assms by (simp add: xsk_ok_def tx_fixed_def Let_def)
qed

lemma rx_fixed_platform:
  assumes "rx_fixed s s'"
  shows "rx_platform F fq (rx_q s') sz P R = rx_platform F fq (rx_q s) sz P R"
    "rx_memory F fq (rx_q s') m sz P R = rx_memory F fq (rx_q s) m sz P R"
proof -
  have "rx_contract F (rx_q s') R = rx_contract F (rx_q s) R" "rx_ops F (rx_q s') = rx_ops F (rx_q s)"
    using assms by (simp_all add: rx_fixed_def rx_contract_def rx_ops_def)
  then show "rx_platform F fq (rx_q s') sz P R = rx_platform F fq (rx_q s) sz P R"
    "rx_memory F fq (rx_q s') m sz P R = rx_memory F fq (rx_q s) m sz P R"
    unfolding rx_platform_def rx_memory_def by simp_all
qed

lemma xsk_ok_rx:
  assumes ok: "xsk_ok F fuel m base T C P R x w" and "rx_inv m base s'" "rx_linked P R base s' w'" "rx_fixed (x2_rx x) s'"
    and "tx_linked T C (x2_tx x) w'"
  shows "xsk_ok F fuel m base T C P R (x\<lparr>x2_rx := s'\<rparr>) w'"
proof -
  have rq: "rx_calls F fq (rx_q s') = rx_calls F fq (rx_q (x2_rx x))" for fq
    using assms(4) by (simp add: rx_fixed_def rx_ops_def rx_calls_def)
  have "separate_rings F tq cq fq (rx_q s') m sz K T C P R = separate_rings F tq cq fq (rx_q (x2_rx x)) m sz K T C P R"
    for fq sz tq cq K
    unfolding separate_rings_def rq by (rule refl)
  then show ?thesis
    using assms rx_fixed_platform [where F = F and P = P and R = R, OF assms(4)] by (simp add: xsk_ok_def rx_fixed_def Let_def)
qed

lemma recv_keeps_rx:
  assumes "rx_ready F P R m base fuel s w" "unat (rx_frame_size s) \<le> length pkt"
    and "recv F fuel s pkt w = Ret (n, pkt', s', w')"
  shows "rx_inv m base s' \<and> rx_linked P R base s' w' \<and> rx_fixed s s'"
proof -
  have fixed: "rx_fixed s (taken_in base q ds s)" "rx_fixed s (delivered fd (taken_in base q ds s))"
    if "rx_took F P R m base s w q ds w1" for q ds w1 fd
    using that by (simp_all add: rx_took_def rx_fixed_def delivered_def)
  show ?thesis
    using assms(1,2)
  proof (cases rule: recv_outcome)
    case (deliver q ds w1 fd w2 f)
    then show ?thesis using assms(3) fixed(2) by auto
  next
    case (none q ds w1)
    then show ?thesis using assms(3) fixed(1) by auto
  qed
qed

lemma recv_apply_keeps_rx:
  assumes "rx_ready F P R m base fuel s w" "recv_apply F fuel s f c w = Ret (c', s', w')"
  shows "rx_inv m base s' \<and> rx_linked P R base s' w' \<and> rx_fixed s s'"
proof -
  obtain q ds w1 w2 where run: "recv_apply F fuel s f c w =
        bindO (foldO f c (map (desc_data m w1) ds)) (\<lambda>c'. Ret (c', applied base q ds s, w2))"
      "rq_inner q = rq_inner (rx_q s)" "cv_taken R w1 = cv_taken R w @ ds"
      "rx_inv m base (applied base q ds s)" "rx_linked P R base (applied base q ds s) w2"
    using recv_apply_core [of F s P R m base w fuel f c] assms(1) by (auto simp: rx_ready_def)
  then have "s' = applied base q ds s" "w' = w2" using assms(2) [unfolded run(1)] by (auto simp: bindO_Ret_iff)
  moreover have "rx_fixed s (applied base q ds s)" using run(2) by (simp add: rx_fixed_def applied_def)
  ultimately show ?thesis using run(4,5) by simp
qed

text \<open>
  As long as no packet is pending, whatever the socket asks the kernel, \<open>recv_apply\<close> returns
  without a call of its closure and can be called again.
\<close>

lemma recv_apply_idle:
  assumes ready: "rx_ready F P R m base fuel s w"
    and Q: "keeps (pv_ok P) Q (rx_ops F (rx_q s))" "keeps (pv_ok P) Q (poll_ops F)" "Q w"
      "\<And>v. Q v \<Longrightarrow> cv_pend R v = []"
  obtains s' w' where "recv_apply F fuel s f c w = Ret (c, s', w')" "rx_ready F P R m base fuel s' w'"
    "rx_ops F (rx_q s') = rx_ops F (rx_q s)" "Q w'"
proof -
  have A: "rx_platform F (fill_q s) (rx_q s) (unat (rx_frame_size s)) P R" "rx_inv m base s"
      "rx_linked P R base s w" "rx_counts F P R s w"
    using ready by (simp_all add: rx_ready_def)
  obtain q ds w1 where poll: "recv_poll F s w = Ret (length ds, polled q ds s, w1)" "ds = []"
    and q: "rq_inner q = rq_inner (rx_q s)" and w1: "fill_same P w w1" "cv_taken R w1 = cv_taken R w @ ds" "Q w1"
    using recv_poll_from [OF A Q(1-3)] Q(4) by metis
  let ?s = "polled q [] s"
  have run: "recv_apply F fuel s f c w = Ret (c, ?s, w1)" using poll by (simp add: recv_apply_def)
  have kept: "rx_inv m base ?s" "rx_linked P R base ?s w1" "rx_fixed s ?s"
    using recv_apply_keeps_rx [OF ready run] by simp_all
  have "rx_counts F P R ?s w1" using A(4) w1(1,2) poll(2) by (simp add: rx_counts_def polled_def fill_same_def)
  then have "rx_ready F P R m base fuel ?s w1"
    using ready kept unfolding rx_ready_def rx_fixed_platform [OF kept(3)] by (simp add: rx_fixed_def)
  moreover have "rx_ops F (rx_q ?s) = rx_ops F (rx_q s)" using kept(3) by (simp add: rx_fixed_def rx_ops_def)
  ultimately show thesis using that run w1(3) by blast
qed

text \<open>One step of either end, and the kernel's.\<close>

lemma xsk_send_step:
  assumes ok: "xsk_ok F fuel m base T C P R x w" and counts: "tx_counts F T C (x2_tx x) w"
    and data: "length data \<le> frame_mtu (tx_frames (x2_tx x) ! tx_cursor (x2_tx x))"
    and run: "send F fuel (x2_tx x) data w = Ret (r, s', w')"
  shows "xsk_ok F fuel m base T C P R (x\<lparr>x2_tx := s'\<rparr>) w'"
proof -
  note D = xsk_okD [OF ok]
  have "tx_inv m s'" "tx_linked T C s' w'" "tx_fixed (x2_tx x) s'"
    using send_ready [OF D(11) [OF counts] data] run by auto
  moreover have "rx_linked P R base (x2_rx x) w'"
    using tx_step_calm(1) [OF ok send_via [OF D(1,3,4) counts data run]] .
  ultimately show ?thesis by (rule xsk_ok_tx [OF ok])
qed

lemma xsk_send_apply_step:
  assumes ok: "xsk_ok F fuel m base T C P R x w" and counts: "tx_counts F T C (x2_tx x) w"
    and f: "f () (cursor_region m (x2_tx x) w) = Ret (len, bytes, ())" "len \<le> unat (tx_frame_size (x2_tx x))"
    and run: "send_apply F fuel (x2_tx x) f () w = Ret (r, s', (), w')"
  shows "xsk_ok F fuel m base T C P R (x\<lparr>x2_tx := s'\<rparr>) w'"
proof -
  note D = xsk_okD [OF ok]
  note ready = D(11) [OF counts]
  have "tx_inv m s' \<and> tx_linked T C s' w' \<and> tx_fixed (x2_tx x) s'"
  proof (cases "tx_cursor (x2_tx x) \<in> in_flight C (x2_tx x) w")
    case True
    then show ?thesis using send_apply_busy [OF ready True, of f "()"] run by auto
  next
    case False
    then show ?thesis using send_apply_ready [where f = f, OF ready False f] run by auto
  qed
  moreover have "rx_linked P R base (x2_rx x) w'"
    using tx_step_calm(1) [OF ok send_apply_via [where f = f, OF D(1,3,4) counts f(1) run]] .
  ultimately show ?thesis by (blast intro: xsk_ok_tx [OF ok])
qed

lemma xsk_rx_step:
  assumes ok: "xsk_ok F fuel m base T C P R x w" and via: "via (rx_calls F (fill_q (x2_rx x)) (rx_q (x2_rx x))) w w'"
    and "rx_inv m base s' \<and> rx_linked P R base s' w' \<and> rx_fixed (x2_rx x) s'"
  shows "xsk_ok F fuel m base T C P R (x\<lparr>x2_rx := s'\<rparr>) w'" "tx_calm T C (tx_bytes m (x2_tx x)) w w'"
proof -
  note D = xsk_okD [OF ok]
  have "pv_ok T w" using D(4) by (simp add: tx_linked_def)
  from rx_via_calm [OF D(9) via this] show calm: "tx_calm T C (tx_bytes m (x2_tx x)) w w'" .
  show "xsk_ok F fuel m base T C P R (x\<lparr>x2_rx := s'\<rparr>) w'"
    using xsk_ok_rx [OF ok] assms(3) tx_linked_calm [OF D(4) calm] by blast
qed

lemma tx_run_calm:
  "tx_run F fuel m T C s0 w0 s w acc handed \<Longrightarrow> tx_calm T C (tx_bytes m s) w w' \<Longrightarrow>
   tx_run F fuel m T C s0 w0 s w' acc handed"
  by (auto simp: tx_calm_def intro: run_kernel)

lemma xsk_run_inv:
  assumes "xsk_run F fuel m T C P R x0 c0 w0 x c w acc handed" "xsk_ok F fuel m base T C P R x0 w0"
  shows "xsk_ok F fuel m base T C P R x w \<and> tx_run F fuel m T C (x2_tx x0) w0 (x2_tx x) w acc handed"
  using assms(1)
proof induction
  case xrun_start
  then show ?case using assms(2) run_start by blast
next
  case (xrun_send x c w acc handed data r s' w')
  then show ?case using xsk_send_step [OF _ xrun_send.hyps(2-4)] run_send [OF _ xrun_send.hyps(2-4)] by simp
next
  case (xrun_send_apply x c w acc handed f len bytes r s' w')
  then show ?case
    using xsk_send_apply_step [where f = f, OF _ xrun_send_apply.hyps(2-5)] run_apply [where f = f, OF _ xrun_send_apply.hyps(2-5)]
    by simp
next
  case (xrun_recv x c w acc handed pkt n pkt' s' w')
  then have ok: "xsk_ok F fuel m base T C P R x w" by simp
  note step = xsk_rx_step [OF ok recv_via [OF xrun_recv.hyps(4)]
      recv_keeps_rx [OF xsk_okD(10) [OF ok xrun_recv.hyps(2)] xrun_recv.hyps(3,4)]]
  show ?case using step tx_run_calm xrun_recv.IH by auto
next
  case (xrun_recv_apply x c w acc handed g c' s' w')
  then have ok: "xsk_ok F fuel m base T C P R x w" by simp
  note step = xsk_rx_step [OF ok recv_apply_via [OF xrun_recv_apply.hyps(3)]
      recv_apply_keeps_rx [OF xsk_okD(10) [OF ok xrun_recv_apply.hyps(2)] xrun_recv_apply.hyps(3)]]
  show ?case using step tx_run_calm xrun_recv_apply.IH by auto
next
  case (xrun_kernel x c w acc handed w')
  then have ok: "xsk_ok F fuel m base T C P R x w" by simp
  have "tx_linked T C (x2_tx x) w'" "rx_linked P R base (x2_rx x) w'"
    using tx_linked_calm [OF xsk_okD(4) [OF ok]] rx_linked_calm [OF xsk_okD(6) [OF ok]] xrun_kernel.hyps(2,3) by simp_all
  then show ?case using xrun_kernel tx_run_calm by (auto simp: xsk_ok_def Let_def)
qed

end
