(* ===== verification/Xsk_Rx_Fifo.thy ===== *)
theory Xsk_Rx_Fifo
  imports Xsk_Rx_Cases Xsk_Calls Xsk_Run "HOL-Library.Sublist"
begin

text \<open>
  The receive end as a queue of packets. When the kernel gives buffers back in the order in which
  they were put on the fill ring, the frames the program holds are always the ones from the cursor
  on, cyclically, in the order of arrival: taking descriptors appends to the queue, \<open>recv\<close> removes
  its head, and giving the frame back keeps the order of the fill ring.
\<close>

section \<open>Definitions\<close>

definition in_order :: "nat \<Rightarrow> ('k, u64) prod_view \<Rightarrow> ('k, xdp_desc) cons_view \<Rightarrow> bool" where
  "in_order sz P R \<longleftrightarrow>
     (\<forall>w. pv_ok P w \<longrightarrow> prefix (map (\<lambda>d. xd_addr d div sz) (cv_taken R w)) (map (\<lambda>a. a div sz) (pv_subm P w)))"

text \<open>The \<open>k\<close>-th buffer of the fill ring is frame \<open>k mod n\<close>, and so is the \<open>k\<close>-th packet.\<close>

definition rx_cyclic ::
    "('k, u64) prod_view \<Rightarrow> ('k, xdp_desc) cons_view \<Rightarrow> nat \<Rightarrow> XskRx \<Rightarrow> 'k world \<Rightarrow> bool" where
  "rx_cyclic P R base s w \<longleftrightarrow>
     (let n = length (rx_frames s); sent = pkts_rx_delivered (rx_stats s) in
      map (\<lambda>a. a div unat (rx_frame_size s)) (pv_subm P w) = map (\<lambda>k. base + k mod n) [0..<n + sent] \<and>
      length (cv_taken R w) = pkts_rx (rx_stats s) \<and> rx_cursor s = sent mod n \<and>
      filled (rx_frames s) = (\<lambda>k. k mod n) ` {sent..<pkts_rx (rx_stats s)})"

text \<open>The abstract state: the packets taken off the ring and not yet delivered, oldest first.\<close>

definition rx_queue :: "XskRx \<Rightarrow> 'k world \<Rightarrow> u8 list list" where
  "rx_queue s w =
     map (\<lambda>k. frame_data w (rx_frames s ! (k mod length (rx_frames s))))
       [pkts_rx_delivered (rx_stats s)..<pkts_rx (rx_stats s)]"

text \<open>The specification of \<open>recv\<close> on a queue, with the caller's buffer.\<close>

fun fifo_recv :: "u8 list list \<Rightarrow> u8 list \<Rightarrow> nat \<times> u8 list \<times> u8 list list" where
  "fifo_recv [] pkt = (0, pkt, [])"
| "fifo_recv (x # xs) pkt = (length x, x @ drop (length x) pkt, xs)"

text \<open>What the calls of \<open>recv\<close> in a row rely on and keep.\<close>

definition rx_fifo_ok ::
    "'k ffi \<Rightarrow> nat \<Rightarrow> MmapArea \<Rightarrow> nat \<Rightarrow> ('k, u64) prod_view \<Rightarrow> ('k, xdp_desc) cons_view \<Rightarrow> XskRx \<Rightarrow> 'k world \<Rightarrow> bool" where
  "rx_fifo_ok F fuel m base P R s w \<longleftrightarrow>
     rx_platform F (fill_q s) (rx_q s) (unat (rx_frame_size s)) P R \<and>
     rx_memory F (fill_q s) (rx_q s) m (unat (rx_frame_size s)) P R \<and>
     fill_progress F (fill_q s) P (length (rx_frames s)) fuel \<and> in_order (unat (rx_frame_size s)) P R \<and>
     rx_inv m base s \<and> rx_linked P R base s w \<and> rx_cyclic P R base s w"

text \<open>
  A run of the receive end: calls of \<open>recv\<close>, between which everyone else (the kernel, the transmit
  end) may act, except on the rings' taken and submitted entries and on the packets held. The last
  argument collects what the calls delivered.
\<close>

inductive rx_run ::
    "'k ffi \<Rightarrow> nat \<Rightarrow> MmapArea \<Rightarrow> nat \<Rightarrow> ('k, u64) prod_view \<Rightarrow> ('k, xdp_desc) cons_view \<Rightarrow> XskRx \<Rightarrow> 'k world \<Rightarrow>
     XskRx \<Rightarrow> 'k world \<Rightarrow> u8 list list \<Rightarrow> bool"
  for F fuel m base P R s0 w0 where
  rrun_start: "rx_run F fuel m base P R s0 w0 s0 w0 []"
| rrun_recv:
    "rx_run F fuel m base P R s0 w0 s w out \<Longrightarrow> rx_counts F P R s w \<Longrightarrow> unat (rx_frame_size s) \<le> length pkt \<Longrightarrow>
     recv F fuel s pkt w = Ret (n, pkt', s', w') \<Longrightarrow>
     rx_run F fuel m base P R s0 w0 s' w'
       (out @ (if pkts_rx_delivered (rx_stats s') = pkts_rx_delivered (rx_stats s) then [] else [take n pkt']))"
| rrun_env:
    "rx_run F fuel m base P R s0 w0 s w out \<Longrightarrow>
     held_calm m (unat (rx_frame_size s)) P R ((+) base ` filled (rx_frames s)) w w' \<Longrightarrow>
     rx_run F fuel m base P R s0 w0 s w' out"

section \<open>Cyclic indices\<close>

lemma mod_inj_on: "b \<le> a + n \<Longrightarrow> inj_on (\<lambda>k. k mod n) {a..<b :: nat}"
proof (rule inj_onI)
  fix x y assume b: "b \<le> a + n" and xy: "x \<in> {a..<b}" "y \<in> {a..<b}" and eq: "x mod n = y mod n"
  have "x = y" if "x \<le> y" "x \<in> {a..<b}" "y \<in> {a..<b}" "x mod n = y mod n" for x y
  proof -
    have "n dvd y - x" using that by (metis mod_eq_dvd_iff_nat)
    moreover have "y - x < n" using that(2,3) b by auto
    ultimately have "y - x = 0" using nat_dvd_not_less by blast
    then show ?thesis using that(1) by simp
  qed
  from this [of x y] this [of y x] show "x = y" using xy eq by (metis nat_le_linear)
qed

lemma mod_image_Suc:
  assumes "a < b" "b \<le> a + n"
  shows "(\<lambda>k. k mod n) ` {Suc a..<b} = (\<lambda>k. k mod n) ` {a..<b} - {a mod n :: nat}"
proof -
  have "{Suc a..<b} = {a..<b} - {a}" by auto
  then show ?thesis
    using inj_on_image_set_diff [OF mod_inj_on [OF assms(2)], of "{a..<b}" "{a}"] assms(1) by auto
qed

section \<open>Taking descriptors appends to the queue\<close>

lemma in_order_nth:
  assumes ord: "in_order sz P R" and ok: "pv_ok P w"
    and sent: "map (\<lambda>a. a div sz) (pv_subm P w) = map (\<lambda>k. base + k mod n) [0..<m]"
  shows "length (cv_taken R w) \<le> m"
    "i < length (cv_taken R w) \<Longrightarrow> xd_addr (cv_taken R w ! i) div sz = base + i mod n"
proof -
  have "prefix (map (\<lambda>d. xd_addr d div sz) (cv_taken R w)) (map (\<lambda>k. base + k mod n) [0..<m])"
    using ord ok sent unfolding in_order_def by metis
  then obtain rest where rest: "map (\<lambda>k. base + k mod n) [0..<m] = map (\<lambda>d. xd_addr d div sz) (cv_taken R w) @ rest"
    by (rule prefixE)
  then have "m = length (cv_taken R w) + length rest" by (metis length_append length_map length_upt diff_zero)
  then show len: "length (cv_taken R w) \<le> m" by simp
  assume i: "i < length (cv_taken R w)"
  have "map (\<lambda>k. base + k mod n) [0..<m] ! i = xd_addr (cv_taken R w ! i) div sz"
    unfolding rest using i by (simp add: nth_append)
  then show "xd_addr (cv_taken R w ! i) div sz = base + i mod n" using i len by simp
qed

lemma rx_tookD:
  assumes "rx_took F P R m base s w q ds w1"
  shows "rx_got base s ds" "pv_ok P w1" "fill_same P w w1" "cv_taken R w1 = cv_taken R w @ ds"
    "same_in m (unat (rx_frame_size s)) ((+) base ` filled (rx_frames s)) w w1"
  using assms by (simp_all add: rx_took_def)

lemma cyclic_tagged:
  assumes ord: "in_order (unat (rx_frame_size s)) P R" and cyc: "rx_cyclic P R base s w"
    and took: "rx_took F P R m base s w q ds w1"
  defines "n \<equiv> length (rx_frames s)" and "k \<equiv> pkts_rx (rx_stats s)"
  shows "map fst (tagged base (unat (rx_frame_size s)) ds) = map (\<lambda>i. i mod n) [k..<k + length ds]"
    "k + length ds \<le> n + pkts_rx_delivered (rx_stats s)"
proof -
  note T = rx_tookD [OF took]
  have sent: "map (\<lambda>a. a div unat (rx_frame_size s)) (pv_subm P w1) =
      map (\<lambda>k. base + k mod n) [0..<n + pkts_rx_delivered (rx_stats s)]" and len: "length (cv_taken R w) = k"
    using cyc T(3) by (simp_all add: rx_cyclic_def Let_def fill_same_def n_def k_def)
  note N = in_order_nth [OF ord T(2) sent]
  show "k + length ds \<le> n + pkts_rx_delivered (rx_stats s)" using N(1) len T(4) by simp
  show "map fst (tagged base (unat (rx_frame_size s)) ds) = map (\<lambda>i. i mod n) [k..<k + length ds]"
  proof (rule nth_equalityI)
    fix i assume "i < length (map fst (tagged base (unat (rx_frame_size s)) ds))"
    then have i: "i < length ds" by simp
    then have "xd_addr (ds ! i) div unat (rx_frame_size s) = base + (k + i) mod n"
      using N(2) [of "k + i"] len T(4) by (simp add: nth_append)
    then show "map fst (tagged base (unat (rx_frame_size s)) ds) ! i = map (\<lambda>i. i mod n) [k..<k + length ds] ! i"
      using i by (simp add: tagged_def)
  qed simp
qed

lemma rx_cyclic_le:
  assumes "rx_inv m base s"
  shows "pkts_rx_delivered (rx_stats s) \<le> pkts_rx (rx_stats s)" "0 < length (rx_frames s)"
  using assms by (auto simp: rx_inv_def rx_core_def)

lemma taken_in_cyclic:
  assumes ord: "in_order (unat (rx_frame_size s)) P R" and inv: "rx_inv m base s" and cyc: "rx_cyclic P R base s w"
    and took: "rx_took F P R m base s w q ds w1"
  shows "rx_cyclic P R base (taken_in base q ds s) w1"
proof -
  note T = rx_tookD [OF took] and C = cyclic_tagged [OF ord cyc took] and le = rx_cyclic_le [OF inv]
  have core: "rx_core m base s" using inv by (simp add: rx_inv_def)
  note G = rx_gotD [OF T(1) core]
  let ?n = "length (rx_frames s)" and ?d = "pkts_rx_delivered (rx_stats s)" and ?k = "pkts_rx (rx_stats s)"
  have "fst ` set (tagged base (unat (rx_frame_size s)) ds) = (\<lambda>i. i mod ?n) ` {?k..<?k + length ds}"
    using arg_cong [OF C(1), of set] by simp
  moreover have "{?d..<?k} \<union> {?k..<?k + length ds} = {?d..<?k + length ds}" using le(1) by auto
  ultimately have "filled (rx_frames (taken_in base q ds s)) = (\<lambda>i. i mod ?n) ` {?d..<?k + length ds}"
    using place_filled(1) [OF G(1,6)] cyc by (simp add: rx_cyclic_def Let_def image_Un [symmetric])
  then show ?thesis using cyc T(3,4) by (simp add: rx_cyclic_def Let_def fill_same_def)
qed

lemma placed_data:
  assumes "rx_got base s ds" "rx_inv m base s" "(i, d) \<in> set (tagged base (unat (rx_frame_size s)) ds)"
  shows "frame_data w (rx_frames (taken_in base q ds s) ! i) = desc_data m w d"
proof -
  have core: "rx_core m base s" using assms(2) by (simp add: rx_inv_def)
  note G = rx_gotD [OF assms(1) core]
  have i: "i < length (rx_frames s)" using G(6) assms(3) by force
  have "rx_frames (taken_in base q ds s) ! i = (set_desc (rx_entry d) (rx_frames s ! i))\<lparr>frame_status := Filled\<rparr>"
    using place_nth [OF G(1) assms(3) i] by simp
  then show ?thesis
    using rx_inv_frame [OF assms(2) i]
    by (simp add: frame_data_def desc_data_def set_desc_def rx_entry_def set_defs as_usize_def rx_frame_ok_def)
qed

lemma taken_in_queue:
  assumes ord: "in_order (unat (rx_frame_size s)) P R" and inv: "rx_inv m base s" and cyc: "rx_cyclic P R base s w"
    and took: "rx_took F P R m base s w q ds w1"
  shows "rx_queue (taken_in base q ds s) w1 = rx_queue s w @ map (desc_data m w1) ds"
proof -
  note T = rx_tookD [OF took] and C = cyclic_tagged [OF ord cyc took] and le = rx_cyclic_le [OF inv]
  have core: "rx_core m base s" using inv by (simp add: rx_inv_def)
  let ?n = "length (rx_frames s)" and ?d = "pkts_rx_delivered (rx_stats s)" and ?k = "pkts_rx (rx_stats s)"
  let ?s = "taken_in base q ds s" and ?ps = "tagged base (unat (rx_frame_size s)) ds"
  let ?g = "\<lambda>k. frame_data w1 (rx_frames ?s ! (k mod ?n))"
  have "?g i = frame_data w (rx_frames s ! (i mod ?n))" if "i \<in> set [?d..<?k]" for i
  proof -
    have f: "i mod ?n \<in> filled (rx_frames s)" using cyc that by (auto simp: rx_cyclic_def Let_def)
    then have "rx_frame_ok m (unat (rx_frame_size s)) (base + i mod ?n) (rx_frames s ! (i mod ?n))"
      using rx_inv_frame [OF inv] by (simp add: filled_def)
    then show ?thesis using held_frame [OF T(1) core f, of q] held_data [OF _ _ T(5)] f by simp
  qed
  then have "map ?g [?d..<?k] = rx_queue s w" by (simp add: rx_queue_def)
  moreover have "map ?g [?k..<?k + length ds] = map (desc_data m w1) ds"
  proof (rule nth_equalityI)
    fix i assume "i < length (map ?g [?k..<?k + length ds])"
    then have i: "i < length ds" by simp
    have "fst (?ps ! i) = (?k + i) mod ?n"
      using arg_cong [OF C(1), of "\<lambda>xs. xs ! i"] i by simp
    then have "?ps ! i = ((?k + i) mod ?n, ds ! i)" using i by (simp add: tagged_def)
    then have "((?k + i) mod ?n, ds ! i) \<in> set ?ps" using i by (metis length_tagged(2) nth_mem)
    from placed_data [OF T(1) inv this] show "map ?g [?k..<?k + length ds] ! i = map (desc_data m w1) ds ! i"
      using i by simp
  qed simp
  moreover have "[?d..<?k + length ds] = [?d..<?k] @ [?k..<?k + length ds]" using le(1) by (rule upt_add_eq_append)
  ultimately show ?thesis by (simp add: rx_queue_def)
qed

section \<open>Delivering removes the head\<close>

lemma cyclic_cursor:
  assumes inv: "rx_inv m base s" and cyc: "rx_cyclic P R base s w"
  shows "pkts_rx (rx_stats s) \<le> pkts_rx_delivered (rx_stats s) + length (rx_frames s)"
    "frame_status (rx_frames s ! rx_cursor s) = Filled \<longleftrightarrow> rx_queue s w \<noteq> []"
proof -
  let ?n = "length (rx_frames s)" and ?d = "pkts_rx_delivered (rx_stats s)" and ?k = "pkts_rx (rx_stats s)"
  show "?k \<le> ?d + ?n" using inv card_lent [of "rx_frames s"] by (simp add: rx_inv_def)
  have f: "filled (rx_frames s) = (\<lambda>k. k mod ?n) ` {?d..<?k}" and c: "rx_cursor s = ?d mod ?n" "?d mod ?n < ?n"
    using cyc rx_cyclic_le(2) [OF inv] by (simp_all add: rx_cyclic_def Let_def)
  have "frame_status (rx_frames s ! rx_cursor s) = Filled \<longleftrightarrow> ?d mod ?n \<in> filled (rx_frames s)"
    using c by (simp add: filled_def)
  also have "\<dots> \<longleftrightarrow> ?d < ?k" unfolding f by (auto intro: rev_image_eqI [of ?d])
  finally show "frame_status (rx_frames s ! rx_cursor s) = Filled \<longleftrightarrow> rx_queue s w \<noteq> []" by (auto simp: rx_queue_def)
qed

lemma rx_gaveD:
  assumes "rx_gave P R m base s w fd w'"
  shows "rx_inv m base (delivered fd s)" "rx_linked P R base (delivered fd s) w'" "rx_same R w w'"
    "pv_subm P w' = pv_subm P w @ [frame_addr (rx_frames s ! rx_cursor s)]"
    "same_in m (unat (rx_frame_size s)) ((+) base ` (filled (rx_frames s) - {rx_cursor s})) w w'"
  using assms by (simp_all add: rx_gave_def)

lemma delivered_simps [simp]:
  "length (rx_frames (delivered fd s)) = length (rx_frames s)" "rx_frame_size (delivered fd s) = rx_frame_size s"
  "pkts_rx (rx_stats (delivered fd s)) = pkts_rx (rx_stats s)"
  "pkts_rx_delivered (rx_stats (delivered fd s)) = Suc (pkts_rx_delivered (rx_stats s))"
  "rx_cursor (delivered fd s) = Suc (rx_cursor s) mod length (rx_frames s)"
  by (simp_all add: delivered_def)

lemma delivered_cyclic:
  assumes inv: "rx_inv m base s" and cyc: "rx_cyclic P R base s w" and ne: "rx_queue s w \<noteq> []"
    and gave: "rx_gave P R m base s w fd w'"
  shows "rx_cyclic P R base (delivered fd s) w'"
proof -
  note B = rx_gaveD [OF gave] and C = cyclic_cursor [OF inv cyc]
  let ?n = "length (rx_frames s)" and ?d = "pkts_rx_delivered (rx_stats s)" and ?k = "pkts_rx (rx_stats s)"
  have c: "rx_cursor s = ?d mod ?n" "rx_cursor s < ?n" and d: "?d < ?k"
    using cyc rx_cyclic_le(2) [OF inv] ne by (simp_all add: rx_cyclic_def Let_def rx_queue_def)
  have fil: "rx_cursor s \<in> filled (rx_frames s)" using C(2) ne c(2) by (simp add: filled_def)
  have "filled (rx_frames (delivered fd s)) = (\<lambda>k. k mod ?n) ` {Suc ?d..<?k}"
    using delivered_sets(2) [OF fil, of fd] mod_image_Suc [OF d C(1)] cyc c(1) by (simp add: rx_cyclic_def Let_def)
  moreover have "frame_addr (rx_frames s ! rx_cursor s) div unat (rx_frame_size s) = base + (?n + ?d) mod ?n"
    using rx_inv_frame [OF inv c(2)] c(1) by (simp add: rx_frame_ok_def)
  ultimately show ?thesis
    using cyc B(3,4) by (simp add: rx_cyclic_def Let_def rx_same_def mod_Suc_eq)
qed

lemma delivered_queue:
  assumes inv: "rx_inv m base s" and cyc: "rx_cyclic P R base s w" and ne: "rx_queue s w \<noteq> []"
    and gave: "rx_gave P R m base s w fd w'"
  shows "rx_queue s w = frame_data w (rx_frames s ! rx_cursor s) # rx_queue (delivered fd s) w'"
proof -
  note B = rx_gaveD [OF gave] and C = cyclic_cursor [OF inv cyc]
  let ?n = "length (rx_frames s)" and ?d = "pkts_rx_delivered (rx_stats s)" and ?k = "pkts_rx (rx_stats s)"
  have c: "rx_cursor s = ?d mod ?n" and d: "?d < ?k"
    and f: "filled (rx_frames s) = (\<lambda>k. k mod ?n) ` {?d..<?k}"
    using cyc ne by (simp_all add: rx_cyclic_def Let_def rx_queue_def)
  have "frame_data w' (rx_frames (delivered fd s) ! (i mod ?n)) = frame_data w (rx_frames s ! (i mod ?n))"
    if "i \<in> set [Suc ?d..<?k]" for i
  proof -
    have "i mod ?n \<in> (\<lambda>k. k mod ?n) ` {Suc ?d..<?k}" using that by simp
    then have i: "i mod ?n \<in> filled (rx_frames s) - {rx_cursor s}"
      unfolding mod_image_Suc [OF d C(1)] f c .
    then have "rx_frames (delivered fd s) ! (i mod ?n) = rx_frames s ! (i mod ?n)" by (simp add: delivered_def)
    moreover have "rx_frame_ok m (unat (rx_frame_size s)) (base + i mod ?n) (rx_frames s ! (i mod ?n))"
      using rx_inv_frame [OF inv] i by (simp add: filled_def)
    ultimately show ?thesis using held_data [OF _ _ B(5)] i by simp
  qed
  then show ?thesis using d by (simp add: rx_queue_def upt_conv_Cons c)
qed

section \<open>Receiving refines taking the head of the queue\<close>

lemma recv_fifo:
  assumes ready: "rx_ready F P R m base fuel s w" and pkt: "unat (rx_frame_size s) \<le> length pkt"
    and ord: "in_order (unat (rx_frame_size s)) P R" and cyc: "rx_cyclic P R base s w"
  obtains q ds w1 n pkt' s' w' where "recv F fuel s pkt w = Ret (n, pkt', s', w')"
    "cv_taken R w1 = cv_taken R w @ ds" "cv_taken R w' = cv_taken R w @ ds"
    "fifo_recv (rx_queue s w @ map (desc_data m w1) ds) pkt = (n, pkt', rx_queue s' w')"
    "rx_cyclic P R base s' w'"
    "pkts_rx_delivered (rx_stats s') =
       pkts_rx_delivered (rx_stats s) + (if rx_queue s w @ map (desc_data m w1) ds = [] then 0 else 1)"
    "rx_took F P R m base s w q ds w1"
proof -
  have inv: "rx_inv m base s" using ready by (simp add: rx_ready_def)
  show thesis
    using ready pkt
  proof (cases rule: recv_outcome)
    case (deliver q ds w1 fd w' f)
    let ?s = "taken_in base q ds s"
    note inv1 = taken_in_inv [OF deliver(1) inv, of q] and cyc1 = taken_in_cyclic [OF ord inv cyc deliver(10)]
      and que = taken_in_queue [OF ord inv cyc deliver(10)]
    have ne: "rx_queue ?s w1 \<noteq> []" using cyclic_cursor(2) [OF inv1 cyc1] deliver(4,5) by simp
    have hd: "rx_queue ?s w1 = frame_data w1 f # rx_queue (delivered fd ?s) w'"
      using delivered_queue [OF inv1 cyc1 ne deliver(11)] deliver(4) by simp
    have "fifo_recv (rx_queue s w @ map (desc_data m w1) ds) pkt =
        (frame_len f, frame_data w1 f @ drop (frame_len f) pkt, rx_queue (delivered fd ?s) w')"
      unfolding que [symmetric] hd by (simp add: frame_data_def)
    moreover have "cv_taken R w' = cv_taken R w @ ds" using rx_gaveD(3) [OF deliver(11)] deliver(2) by (simp add: rx_same_def)
    ultimately show ?thesis
      using that [OF deliver(6,2) _ _ delivered_cyclic [OF inv1 cyc1 ne deliver(11)] _ deliver(10)] ne que by simp
  next
    case (none q ds w1)
    let ?s = "taken_in base q ds s"
    note inv1 = taken_in_inv [OF none(1) inv, of q] and cyc1 = taken_in_cyclic [OF ord inv cyc none(8)]
      and que = taken_in_queue [OF ord inv cyc none(8)]
    have "rx_queue ?s w1 = []" using cyclic_cursor(2) [OF inv1 cyc1] none(4) by simp
    then show ?thesis using that [OF none(5,2,2) _ cyc1 _ none(8)] que by simp
  qed
qed

section \<open>Runs\<close>

lemma rx_fifo_okD:
  assumes "rx_fifo_ok F fuel m base P R s w"
  shows "rx_counts F P R s w \<Longrightarrow> rx_ready F P R m base fuel s w" "in_order (unat (rx_frame_size s)) P R"
    "rx_cyclic P R base s w" "rx_inv m base s" "rx_linked P R base s w"
  using assms by (simp_all add: rx_fifo_ok_def rx_ready_def)

lemma rx_fifo_ok_step:
  assumes "rx_fifo_ok F fuel m base P R s w" "rx_fixed s s'" "rx_inv m base s'" "rx_linked P R base s' w'"
    "rx_cyclic P R base s' w'"
  shows "rx_fifo_ok F fuel m base P R s' w'"
proof -
  have "fill_q s' = fill_q s" "rx_frame_size s' = rx_frame_size s" "length (rx_frames s') = length (rx_frames s)"
    using assms(2) by (simp_all add: rx_fixed_def)
  then show ?thesis using assms(1,3-5) unfolding rx_fifo_ok_def rx_fixed_platform [OF assms(2)] by simp
qed

lemma held_calm_queue:
  assumes inv: "rx_inv m base s" and cyc: "rx_cyclic P R base s w"
    and calm: "held_calm m (unat (rx_frame_size s)) P R ((+) base ` filled (rx_frames s)) w w'"
  shows "rx_queue s w' = rx_queue s w" "rx_cyclic P R base s w'"
proof -
  show "rx_cyclic P R base s w'"
    using cyc calm by (simp add: rx_cyclic_def held_calm_def fill_same_def rx_same_def)
  have "frame_data w' (rx_frames s ! i) = frame_data w (rx_frames s ! i)" if "i \<in> filled (rx_frames s)" for i
  proof -
    have "i < length (rx_frames s)" using that by (simp add: filled_def)
    moreover have "same_in m (unat (rx_frame_size s)) ((+) base ` filled (rx_frames s)) w w'"
      using calm by (simp add: held_calm_def)
    ultimately show ?thesis using held_data [OF rx_inv_frame [OF inv]] that by blast
  qed
  then show "rx_queue s w' = rx_queue s w"
    using cyc by (simp add: rx_queue_def rx_cyclic_def Let_def)
qed

lemma fifo_recv_cases:
  assumes "fifo_recv q pkt = (n, pkt', q')"
  shows "q = (if q = [] then [] else [take n pkt']) @ q'"
  using assms by (cases q) auto

text \<open>The packets held and those delivered are the ones taken off the ring, in ring order.\<close>

definition carries :: "xdp_desc list \<Rightarrow> u8 list list \<Rightarrow> bool" where
  "carries ds xs \<longleftrightarrow> map (\<lambda>d. unat (xd_len d)) ds = map length xs"

lemma rx_run_inv:
  assumes "rx_run F fuel m base P R s0 w0 s w out" "rx_fifo_ok F fuel m base P R s0 w0"
  shows "rx_fifo_ok F fuel m base P R s w \<and>
    (\<exists>ds xs. cv_taken R w = cv_taken R w0 @ ds \<and> out @ rx_queue s w = rx_queue s0 w0 @ xs \<and> carries ds xs)"
  using assms(1)
proof induction
  case rrun_start
  then show ?case using assms(2) by (simp add: carries_def)
next
  case (rrun_recv s w out pkt n pkt' s' w')
  then obtain ds xs where ok: "rx_fifo_ok F fuel m base P R s w"
    and hist: "cv_taken R w = cv_taken R w0 @ ds" "out @ rx_queue s w = rx_queue s0 w0 @ xs" "carries ds xs" by blast
  note D = rx_fifo_okD [OF ok]
  note keep = recv_keeps_rx [OF D(1) [OF rrun_recv.hyps(2)] rrun_recv.hyps(3,4)]
  from D(1) [OF rrun_recv.hyps(2)] rrun_recv.hyps(3) D(2,3) show ?case
  proof (cases rule: recv_fifo)
    case (1 q ds' w1 n2 pkt2 s2 w2)
    let ?new = "map (desc_data m w1) ds'"
    have same: "n2 = n" "pkt2 = pkt'" "s2 = s'" "w2 = w'" using 1(1) rrun_recv.hyps(4) by simp_all
    let ?del = "if pkts_rx_delivered (rx_stats s') = pkts_rx_delivered (rx_stats s) then [] else [take n pkt']"
    have iff: "(pkts_rx_delivered (rx_stats s') = pkts_rx_delivered (rx_stats s)) = (rx_queue s w @ ?new = [])"
      using 1(6) same by (simp split: if_splits)
    have "(out @ ?del) @ rx_queue s' w' = out @ (?del @ rx_queue s' w')" by simp
    also have "?del @ rx_queue s' w' = rx_queue s w @ ?new"
      unfolding iff using fifo_recv_cases [OF 1(4), symmetric] unfolding same .
    also have "out @ rx_queue s w @ ?new = rx_queue s0 w0 @ xs @ ?new" using hist(2) by (simp flip: append_assoc)
    finally have "(out @ ?del) @ rx_queue s' w' = rx_queue s0 w0 @ xs @ ?new" .
    moreover have "carries (ds @ ds') (xs @ ?new)" using hist(3) by (simp add: carries_def desc_data_def)
    moreover have "cv_taken R w' = cv_taken R w0 @ (ds @ ds')" using 1(3) hist(1) same by simp
    moreover have "rx_fifo_ok F fuel m base P R s' w'" using rx_fifo_ok_step [OF ok] keep 1(5) same by simp
    ultimately show ?thesis by blast
  qed
next
  case (rrun_env s w out w')
  then have ok: "rx_fifo_ok F fuel m base P R s w" by simp
  note D = rx_fifo_okD [OF ok] and calm = rrun_env.hyps(2)
  have "rx_linked P R base s w'"
    using D(5) calm by (simp add: rx_linked_def held_calm_def fill_same_def rx_same_def fill_chunks_def)
  moreover have "rx_fixed s s" by (simp add: rx_fixed_def)
  ultimately have "rx_fifo_ok F fuel m base P R s w'"
    using rx_fifo_ok_step [OF ok _ D(4)] held_calm_queue(2) [OF D(4,3) calm] by blast
  then show ?case
    using rrun_env.IH held_calm_queue(1) [OF D(4,3) calm] calm by (auto simp: held_calm_def rx_same_def)
qed

text \<open>A receive end whose frames were put on an empty fill ring in order starts with an empty queue.\<close>

lemma rx_cyclic_start:
  assumes "pv_subm P w = map (\<lambda>i. i * unat (rx_frame_size s)) [base..<base + length (rx_frames s)]"
    and inv: "rx_inv m base s" and "cv_taken R w = []" "rx_fresh s"
  shows "rx_cyclic P R base s w" "rx_queue s w = []"
proof -
  have core: "rx_core m base s" using inv by (simp add: rx_inv_def)
  have "map (\<lambda>a. a div unat (rx_frame_size s)) (pv_subm P w) = [base..<base + length (rx_frames s)]"
    using assms(1) rx_core_bounds(2) [OF core] by (simp add: o_def)
  also have "\<dots> = map (\<lambda>k. base + k mod length (rx_frames s)) [0..<length (rx_frames s)]"
    by (rule nth_equalityI) simp_all
  finally show "rx_cyclic P R base s w"
    using assms(3,4) inv by (simp add: rx_cyclic_def rx_fresh_def rx_inv_def)
  show "rx_queue s w = []" using assms(4) by (simp add: rx_queue_def rx_fresh_def)
qed

end
