(* ===== verification/Xsk_Link.thy ===== *)
theory Xsk_Link
  imports Xsk_Rx_Fifo
begin

text \<open>
  Two sockets on one link: a transmit end and a receive end whose packets come from it. The kernel
  copies a packet from the frame of the sender to a buffer of the receiver at some time after it was
  submitted and before it is completed. The sender does not touch a frame in flight and the receiver
  lends no buffer it holds, so what comes out is what went in: the packets accepted by the sender and
  not yet delivered form one queue, spread over the batch, the frames in flight, the receive ring and
  the frames held by the receiver.
\<close>

section \<open>Definitions\<close>

text \<open>
  What there is to say about the link, as a view of the world: how many of the submitted descriptors
  the kernel has dealt with, and the packets that have arrived, with the descriptor of the buffer each
  was put in. A link may drop packets; one that does not is \<open>wi_lossless\<close>.
\<close>

record 'k wire =
  wi_lossless :: bool
  wi_sent :: "'k world \<Rightarrow> nat"
  wi_log :: "'k world \<Rightarrow> (xdp_desc \<times> u8 list) list"

definition passes :: "'k wire \<Rightarrow> 'a list \<Rightarrow> 'a list \<Rightarrow> bool" where
  "passes W xs ys \<longleftrightarrow> (if wi_lossless W then xs = ys else subseq xs ys)"

text \<open>The packets submitted and not yet dealt with, as the frames hold them now.\<close>

definition under_way :: "'k wire \<Rightarrow> MmapArea \<Rightarrow> ('k, xdp_desc) prod_view \<Rightarrow> 'k world \<Rightarrow> u8 list list" where
  "under_way W m T w = map (desc_data m w) (drop (wi_sent W w) (pv_subm T w))"

text \<open>
  A step of the kernel takes some of the submitted descriptors in order, and what arrives are their
  packets.
\<close>

definition carried :: "'k wire \<Rightarrow> MmapArea \<Rightarrow> ('k, xdp_desc) prod_view \<Rightarrow> 'k world \<Rightarrow> 'k world \<Rightarrow> bool" where
  "carried W m T w w' \<longleftrightarrow>
     prefix (pv_subm T w) (pv_subm T w') \<and> wi_sent W w \<le> wi_sent W w' \<and> wi_sent W w' \<le> length (pv_subm T w') \<and>
     (\<exists>xs. wi_log W w' = wi_log W w @ xs \<and>
        passes W (map snd xs)
          (map (desc_data m w') (take (wi_sent W w' - wi_sent W w) (drop (wi_sent W w) (pv_subm T w')))))"

text \<open>
  The packet that arrived in a buffer is there until the buffer goes back to the fill ring: of the
  chunks \<open>J\<close> of the receiver, those that wait on the receive ring or are held by the program.
\<close>

definition unspoilt ::
    "nat \<Rightarrow> nat set \<Rightarrow> ('k, u64) prod_view \<Rightarrow> ('k, xdp_desc) cons_view \<Rightarrow> xdp_desc list \<Rightarrow> 'k world \<Rightarrow> nat \<Rightarrow> bool" where
  "unspoilt sz J P R ds w i \<longleftrightarrow>
     (let j = xd_addr (ds ! i) div sz in
      j \<in> J \<and> xd_addr (ds ! i) mod sz + unat (xd_len (ds ! i)) \<le> sz \<and>
      (i < length (cv_taken R w) \<longrightarrow> j \<notin> kernel_chunks sz P R w) \<and>
      (\<forall>k. i < k \<longrightarrow> k < length ds \<longrightarrow> xd_addr (ds ! k) div sz \<noteq> j))"

definition landed ::
    "MmapArea \<Rightarrow> nat \<Rightarrow> nat set \<Rightarrow> ('k, u64) prod_view \<Rightarrow> ('k, xdp_desc) cons_view \<Rightarrow> 'k wire \<Rightarrow> 'k world \<Rightarrow> bool" where
  "landed m sz J P R W w \<longleftrightarrow>
     (\<forall>i < length (wi_log W w). unspoilt sz J P R (map fst (wi_log W w)) w i \<longrightarrow>
        desc_data m w (fst (wi_log W w ! i)) = snd (wi_log W w ! i))"

definition wire_step ::
    "MmapArea \<Rightarrow> MmapArea \<Rightarrow> nat \<Rightarrow> nat set \<Rightarrow> ('k, xdp_desc) prod_view \<Rightarrow> ('k, u64) prod_view \<Rightarrow>
     ('k, xdp_desc) cons_view \<Rightarrow> 'k wire \<Rightarrow> 'k world \<Rightarrow> 'k world \<Rightarrow> bool" where
  "wire_step m m' sz J T P R W w w' \<longleftrightarrow>
     pv_ok T w' \<and> pv_ok P w' \<and> carried W m T w w' \<and> (landed m' sz J P R W w \<longrightarrow> landed m' sz J P R W w')"

text \<open>
  The documented behaviour of the link between the transmit ring of one socket and the receive ring of
  another: every call lets the kernel carry packets, no more; a frame is completed only after its
  packet was carried; the receive ring shows the arrivals in order, each in a buffer of its own from
  the fill ring; all of this is the kernel's, not part of the UMEM.
\<close>

definition wire_law ::
    "'k ffi \<Rightarrow> TxQueue \<Rightarrow> CompQueue \<Rightarrow> FillQueue \<Rightarrow> RxQueue \<Rightarrow> MmapArea \<Rightarrow> MmapArea \<Rightarrow> nat \<Rightarrow> nat set \<Rightarrow>
     ('k, xdp_desc) prod_view \<Rightarrow> ('k, u64) cons_view \<Rightarrow> ('k, u64) prod_view \<Rightarrow> ('k, xdp_desc) cons_view \<Rightarrow> 'k wire \<Rightarrow> bool" where
  "wire_law F tq cq fq rq m m' sz J T C P R W \<longleftrightarrow>
     (\<forall>f \<in> tx_calls F tq cq \<union> rx_calls F fq rq. \<forall>w. pv_ok T w \<longrightarrow> pv_ok P w \<longrightarrow>
        wire_step m m' sz J T P R W w (f w)) \<and>
     (\<forall>w. pv_ok T w \<longrightarrow> mset (cv_taken C w) + mset (cv_pend C w) \<subseteq>#
        image_mset xd_addr (mset (take (wi_sent W w) (pv_subm T w)))) \<and>
     (\<forall>w. pv_ok P w \<longrightarrow> prefix (cv_taken R w) (map fst (wi_log W w)) \<and>
        desc_chunks sz (map fst (wi_log W w)) \<subseteq># fill_chunks sz P w) \<and>
     (\<forall>w w'. kern w = kern w' \<longrightarrow> wi_sent W w = wi_sent W w' \<and> wi_log W w = wi_log W w')"

text \<open>Every submitted descriptor names a frame of the sender.\<close>

definition tx_descs :: "('k, xdp_desc) prod_view \<Rightarrow> XskTx \<Rightarrow> 'k world \<Rightarrow> bool" where
  "tx_descs T s w \<longleftrightarrow>
     (\<forall>d \<in> set (pv_subm T w). \<exists>i < length (tx_frames s).
        xd_addr d = i * unat (tx_frame_size s) \<and> unat (xd_len d) \<le> unat (tx_frame_size s))"

text \<open>The sender \<open>s\<close> with its UMEM \<open>m\<close>, the receiver \<open>r\<close> with \<open>m'\<close>, and the link between them.\<close>

definition link_ok ::
    "'k ffi \<Rightarrow> nat \<Rightarrow> MmapArea \<Rightarrow> MmapArea \<Rightarrow> nat \<Rightarrow> ('k, xdp_desc) prod_view \<Rightarrow> ('k, u64) cons_view \<Rightarrow> ('k, u64) prod_view \<Rightarrow>
     ('k, xdp_desc) cons_view \<Rightarrow> 'k wire \<Rightarrow> XskTx \<Rightarrow> XskRx \<Rightarrow> 'k world \<Rightarrow> bool" where
  "link_ok F fuel m m' base T C P R W s r w \<longleftrightarrow>
     (let sz = unat (rx_frame_size r); J = (+) base ` {..<length (rx_frames r)} in
      tx_platform F (tx_q s) (comp_q s) T C (tx_bytes m s) \<and> tx_progress F (tx_q s) T (batch_size s) fuel \<and>
      tx_inv m s \<and> tx_linked T C s w \<and> tx_descs T s w \<and>
      rx_fifo_ok F fuel m' base P R r w \<and> (\<forall>j \<in> J. tx_bytes m s \<inter> chunk_bytes m' sz j = {}) \<and>
      separate_rings F (tx_q s) (comp_q s) (fill_q r) (rx_q r) m' sz (tx_bytes m s) T C P R \<and>
      wire_law F (tx_q s) (comp_q s) (fill_q r) (rx_q r) m m' sz J T C P R W \<and>
      wi_sent W w \<le> length (pv_subm T w) \<and> landed m' sz J P R W w)"

text \<open>The packets between the caller of \<open>send\<close> and the caller of \<open>recv\<close>, oldest first.\<close>

definition pipeline ::
    "MmapArea \<Rightarrow> ('k, xdp_desc) prod_view \<Rightarrow> ('k, xdp_desc) cons_view \<Rightarrow> 'k wire \<Rightarrow> XskTx \<Rightarrow> XskRx \<Rightarrow> 'k world \<Rightarrow>
     u8 list list" where
  "pipeline m T R W s r w =
     rx_queue r w @ map snd (drop (length (cv_taken R w)) (wi_log W w)) @ under_way W m T w @ batch_data s w"

text \<open>
  A run of both sockets, in any interleaving with the kernel. The last two arguments collect what the
  calls on the sender accepted and what the calls on the receiver delivered.
\<close>

inductive link_run ::
    "'k ffi \<Rightarrow> nat \<Rightarrow> MmapArea \<Rightarrow> MmapArea \<Rightarrow> nat \<Rightarrow> ('k, xdp_desc) prod_view \<Rightarrow> ('k, u64) cons_view \<Rightarrow> ('k, u64) prod_view \<Rightarrow>
     ('k, xdp_desc) cons_view \<Rightarrow> 'k wire \<Rightarrow> XskTx \<Rightarrow> XskRx \<Rightarrow> 'k world \<Rightarrow> XskTx \<Rightarrow> XskRx \<Rightarrow> 'k world \<Rightarrow>
     u8 list list \<Rightarrow> u8 list list \<Rightarrow> bool"
  for F fuel m m' base T C P R W s0 r0 w0 where
  lrun_start: "link_run F fuel m m' base T C P R W s0 r0 w0 s0 r0 w0 [] []"
| lrun_send:
    "link_run F fuel m m' base T C P R W s0 r0 w0 s r w acc out \<Longrightarrow> tx_counts F T C s w \<Longrightarrow>
     length data \<le> frame_mtu (tx_frames s ! tx_cursor s) \<Longrightarrow> send F fuel s data w = Ret (x, s', w') \<Longrightarrow>
     link_run F fuel m m' base T C P R W s0 r0 w0 s' r w' (acc @ (case x of Inl _ \<Rightarrow> [] | Inr _ \<Rightarrow> [data])) out"
| lrun_send_apply:
    "link_run F fuel m m' base T C P R W s0 r0 w0 s r w acc out \<Longrightarrow> tx_counts F T C s w \<Longrightarrow>
     f () (cursor_region m s w) = Ret (len, bytes, ()) \<Longrightarrow> len \<le> unat (tx_frame_size s) \<Longrightarrow>
     send_apply F fuel s f () w = Ret (x, s', (), w') \<Longrightarrow>
     link_run F fuel m m' base T C P R W s0 r0 w0 s' r w'
       (acc @ (case x of Inl _ \<Rightarrow> [] | Inr _ \<Rightarrow> [map bytes [0..<len]])) out"
| lrun_recv:
    "link_run F fuel m m' base T C P R W s0 r0 w0 s r w acc out \<Longrightarrow> rx_counts F P R r w \<Longrightarrow>
     unat (rx_frame_size r) \<le> length pkt \<Longrightarrow> recv F fuel r pkt w = Ret (n, pkt', r', w') \<Longrightarrow>
     link_run F fuel m m' base T C P R W s0 r0 w0 s r' w' acc
       (out @ (if pkts_rx_delivered (rx_stats r') = pkts_rx_delivered (rx_stats r) then [] else [take n pkt']))"
| lrun_kernel:
    "link_run F fuel m m' base T C P R W s0 r0 w0 s r w acc out \<Longrightarrow> tx_calm T C (tx_bytes m s) w w' \<Longrightarrow>
     rx_calm m' (unat (rx_frame_size r)) P R w w' \<Longrightarrow>
     wire_step m m' (unat (rx_frame_size r)) ((+) base ` {..<length (rx_frames r)}) T P R W w w' \<Longrightarrow>
     link_run F fuel m m' base T C P R W s0 r0 w0 s r w' acc out"

section \<open>Losing nothing or losing some\<close>

lemma passes_refl [simp]: "passes W xs xs"
  by (simp add: passes_def)

lemma passes_trans: "passes W xs ys \<Longrightarrow> passes W ys zs \<Longrightarrow> passes W xs zs"
  by (auto simp: passes_def split: if_splits intro: subseq_order.order_trans)

lemma passes_append: "passes W xs ys \<Longrightarrow> passes W us vs \<Longrightarrow> passes W (xs @ us) (ys @ vs)"
  by (auto simp: passes_def split: if_splits intro: list_emb_append_mono)

lemma passes_prefix: "passes W xs ys \<Longrightarrow> passes W (us @ xs) (us @ ys)"
  by (rule passes_append) simp_all

section \<open>Memory of the frames in flight\<close>

definition desc_in :: "MmapArea \<Rightarrow> nat set \<Rightarrow> xdp_desc \<Rightarrow> bool" where
  "desc_in m K d \<longleftrightarrow> {mem_ptr m + xd_addr d..<mem_ptr m + xd_addr d + unat (xd_len d)} \<subseteq> K"

lemma desc_data_cong:
  assumes "desc_in m K d" "\<forall>a \<in> K. mem w' a = mem w a"
  shows "desc_data m w' d = desc_data m w d"
  unfolding desc_data_def using assms by (intro bytes_at_cong) (auto simp: desc_in_def)

lemma tx_descs_in:
  assumes "tx_descs T s w" "d \<in> set (pv_subm T w)"
  shows "desc_in m (tx_bytes m s) d"
proof -
  obtain i where i: "i < length (tx_frames s)" "xd_addr d = i * unat (tx_frame_size s)"
      "unat (xd_len d) \<le> unat (tx_frame_size s)"
    using assms by (auto simp: tx_descs_def)
  then have "{mem_ptr m + xd_addr d..<mem_ptr m + xd_addr d + unat (xd_len d)} \<subseteq> chunk m s i" by (auto simp: chunk_alt)
  then show ?thesis using chunk_in_bytes [OF i(1)] by (auto simp: desc_in_def)
qed

text \<open>A descriptor the kernel has not dealt with names a frame that is marked as being in flight.\<close>

lemma unsent_onq:
  assumes law: "mset (cv_taken C w) + mset (cv_pend C w) \<subseteq># image_mset xd_addr (mset (take n (pv_subm T w)))"
    and link: "tx_linked T C s w" and d: "d \<in> set (drop n (pv_subm T w))"
  obtains i where "i \<in> onq (tx_frames s)" "xd_addr d = i * unat (tx_frame_size s)"
proof -
  let ?A = "image_mset xd_addr (mset (take n (pv_subm T w)))" and ?B = "image_mset xd_addr (mset (drop n (pv_subm T w)))"
  let ?O = "image_mset (\<lambda>i. i * unat (tx_frame_size s)) (mset_set (onq (tx_frames s)))"
  have "?A + ?B = mset (cv_taken C w) + ?O"
    using link by (simp add: tx_linked_def flip: mset_append image_mset_union)
  moreover have "mset (cv_taken C w) \<subseteq># ?A" using law by (meson mset_subset_eq_add_left subset_mset.order_trans)
  then obtain X where "?A = mset (cv_taken C w) + X" by (auto simp: mset_subset_eq_exists_conv)
  ultimately have "X + ?B = ?O" by simp
  then have "xd_addr d \<in># ?O" using d by (metis image_eqI set_image_mset set_mset_mset union_iff)
  then show ?thesis using that by auto
qed

section \<open>What a path of calls carries\<close>

text \<open>
  The effect of any number of calls on the link: arrivals are appended, and together with what is still
  under way they are what was under way before and what was submitted since.
\<close>

definition moved :: "'k wire \<Rightarrow> MmapArea \<Rightarrow> ('k, xdp_desc) prod_view \<Rightarrow> 'k world \<Rightarrow> 'k world \<Rightarrow> bool" where
  "moved W m T w w' \<longleftrightarrow>
     prefix (pv_subm T w) (pv_subm T w') \<and> wi_sent W w' \<le> length (pv_subm T w') \<and>
     (\<exists>xs. wi_log W w' = wi_log W w @ xs \<and>
        passes W (map snd xs @ under_way W m T w') (under_way W m T w @ new_packets m T w w'))"

lemma moved_refl: "wi_sent W w \<le> length (pv_subm T w) \<Longrightarrow> moved W m T w w"
  by (simp add: moved_def new_packets_def)

lemma carried_moved:
  assumes car: "carried W m T w w'" and same: "\<forall>d \<in> set (pv_subm T w). desc_data m w' d = desc_data m w d"
    and sent: "wi_sent W w \<le> length (pv_subm T w)"
  shows "moved W m T w w'"
proof -
  let ?n = "wi_sent W w" and ?n' = "wi_sent W w'" and ?D = "pv_subm T w'" and ?g = "desc_data m w'"
  obtain xs where xs: "wi_log W w' = wi_log W w @ xs" "passes W (map snd xs) (map ?g (take (?n' - ?n) (drop ?n ?D)))"
    and le: "?n \<le> ?n'" "?n' \<le> length ?D" and pre: "prefix (pv_subm T w) ?D"
    using car by (auto simp: carried_def)
  obtain new where new: "?D = pv_subm T w @ new" using pre by (rule prefixE)
  have "map ?g (take (?n' - ?n) (drop ?n ?D)) @ map ?g (drop ?n' ?D) = map ?g (drop ?n ?D)"
    using le(1) append_take_drop_id [of "?n' - ?n" "drop ?n ?D"] by (simp flip: map_append)
  also have "\<dots> = map ?g (drop ?n (pv_subm T w)) @ map ?g new" using sent new by simp
  also have "map ?g (drop ?n (pv_subm T w)) = under_way W m T w"
    unfolding under_way_def using same by (intro map_cong refl) (auto dest: in_set_dropD)
  finally have "map ?g (take (?n' - ?n) (drop ?n ?D)) @ under_way W m T w' = under_way W m T w @ new_packets m T w w'"
    by (simp add: under_way_def new_packets_def new)
  moreover have "passes W (map snd xs @ under_way W m T w') (map ?g (take (?n' - ?n) (drop ?n ?D)) @ under_way W m T w')"
    using xs(2) by (rule passes_append) simp
  ultimately show ?thesis using xs(1) le pre by (auto simp: moved_def)
qed

lemma moved_trans:
  assumes a: "moved W m T w w1" and b: "moved W m T w1 w2"
    and same: "\<forall>d \<in> set (drop (length (pv_subm T w)) (pv_subm T w1)). desc_data m w2 d = desc_data m w1 d"
  shows "moved W m T w w2"
proof -
  obtain xs ys where xs: "wi_log W w1 = wi_log W w @ xs"
      "passes W (map snd xs @ under_way W m T w1) (under_way W m T w @ new_packets m T w w1)"
    and ys: "wi_log W w2 = wi_log W w1 @ ys"
      "passes W (map snd ys @ under_way W m T w2) (under_way W m T w1 @ new_packets m T w1 w2)"
    and pre: "prefix (pv_subm T w) (pv_subm T w1)" "prefix (pv_subm T w1) (pv_subm T w2)"
    and le: "wi_sent W w2 \<le> length (pv_subm T w2)"
    using a b by (auto simp: moved_def)
  obtain d1 d2 where D: "pv_subm T w1 = pv_subm T w @ d1" "pv_subm T w2 = pv_subm T w1 @ d2"
    using pre by (auto simp: prefix_def)
  have new: "new_packets m T w w2 = new_packets m T w w1 @ new_packets m T w1 w2"
    using same by (simp add: new_packets_def D)
  have "passes W (map snd xs @ map snd ys @ under_way W m T w2) (map snd xs @ under_way W m T w1 @ new_packets m T w1 w2)"
    using ys(2) by (rule passes_prefix)
  moreover have "passes W ((map snd xs @ under_way W m T w1) @ new_packets m T w1 w2)
      ((under_way W m T w @ new_packets m T w w1) @ new_packets m T w1 w2)"
    using xs(2) by (rule passes_append) simp
  ultimately have "passes W (map snd (xs @ ys) @ under_way W m T w2) (under_way W m T w @ new_packets m T w w2)"
    unfolding new using passes_trans by simp blast
  then show ?thesis using xs(1) ys(1) le prefix_order.trans [OF pre] by (auto simp: moved_def)
qed

lemma wire_lawD:
  assumes "wire_law F tq cq fq rq m m' sz J T C P R W"
  shows "f \<in> tx_calls F tq cq \<union> rx_calls F fq rq \<Longrightarrow> pv_ok T w \<Longrightarrow> pv_ok P w \<Longrightarrow> wire_step m m' sz J T P R W w (f w)"
    "pv_ok T w \<Longrightarrow> mset (cv_taken C w) + mset (cv_pend C w) \<subseteq># image_mset xd_addr (mset (take (wi_sent W w) (pv_subm T w)))"
    "pv_ok P w \<Longrightarrow> prefix (cv_taken R w) (map fst (wi_log W w))"
    "pv_ok P w \<Longrightarrow> desc_chunks sz (map fst (wi_log W w)) \<subseteq># fill_chunks sz P w"
    "kern w' = kern w \<Longrightarrow> wi_sent W w' = wi_sent W w" "kern w' = kern w \<Longrightarrow> wi_log W w' = wi_log W w"
  using assms unfolding wire_law_def by metis+

lemma wire_stepD:
  assumes "wire_step m m' sz J T P R W w w'"
  shows "pv_ok T w'" "pv_ok P w'" "carried W m T w w'" "landed m' sz J P R W w \<Longrightarrow> landed m' sz J P R W w'"
  using assms by (simp_all add: wire_step_def)

text \<open>Any number of calls, as long as they leave the memory \<open>K\<close> of the sender's frames alone.\<close>

lemma calls_moved:
  assumes via: "via ops w w'" and law: "wire_law F tq cq fq rq m m' sz J T C P R W"
    and ops: "ops \<subseteq> tx_calls F tq cq \<union> rx_calls F fq rq"
    and calm: "\<forall>f \<in> ops. \<forall>w. pv_ok T w \<longrightarrow> same_on K w (f w)"
    and ok: "pv_ok T w" "pv_ok P w" "wi_sent W w \<le> length (pv_subm T w)"
  shows "(\<forall>d \<in> set (pv_subm T w'). desc_in m K d) \<Longrightarrow> moved W m T w w'"
    "pv_ok T w' \<and> pv_ok P w' \<and> same_on K w w' \<and> prefix (wi_log W w) (wi_log W w') \<and> (landed m' sz J P R W w \<longrightarrow> landed m' sz J P R W w')"
proof -
  have "((\<forall>d \<in> set (pv_subm T w'). desc_in m K d) \<longrightarrow> moved W m T w w') \<and>
    pv_ok T w' \<and> pv_ok P w' \<and> same_on K w w' \<and> wi_sent W w' \<le> length (pv_subm T w') \<and> prefix (wi_log W w) (wi_log W w') \<and>
    (landed m' sz J P R W w \<longrightarrow> landed m' sz J P R W w')"
    using via
  proof induction
    case via_refl
    then show ?case using ok moved_refl by auto
  next
    case (via_step w1 f)
    then have w1: "pv_ok T w1" "pv_ok P w1" "same_on K w w1" "wi_sent W w1 \<le> length (pv_subm T w1)"
        "prefix (wi_log W w) (wi_log W w1)" "landed m' sz J P R W w \<longrightarrow> landed m' sz J P R W w1"
      and f: "f \<in> tx_calls F tq cq \<union> rx_calls F fq rq" "f \<in> ops" using ops by auto
    note step = wire_stepD [OF wire_lawD(1) [OF law f(1) w1(1,2)]]
    have same: "same_on K w1 (f w1)" using calm f(2) w1(1) by blast
    have grow: "prefix (pv_subm T w1) (pv_subm T (f w1))" "prefix (wi_log W w1) (wi_log W (f w1))"
        "wi_sent W (f w1) \<le> length (pv_subm T (f w1))" using step(3) by (auto simp: carried_def)
    have "moved W m T w (f w1)" if D: "\<forall>d \<in> set (pv_subm T (f w1)). desc_in m K d"
    proof -
      have D1: "\<forall>d \<in> set (pv_subm T w1). desc_in m K d" using D grow(1) set_mono_prefix by blast
      then have eq: "\<forall>d \<in> set (pv_subm T w1). desc_data m (f w1) d = desc_data m w1 d"
        using desc_data_cong same unfolding same_on_def by blast
      have "moved W m T w w1" using via_step(3) D1 by blast
      from moved_trans [OF this carried_moved [OF step(3) eq w1(4)]] show ?thesis using eq by (meson in_set_dropD)
    qed
    then show ?case
      using step(1,2,4) w1(3,5,6) same grow(2,3) same_trans(1) prefix_order.trans by blast
  qed
  then show "(\<forall>d \<in> set (pv_subm T w'). desc_in m K d) \<Longrightarrow> moved W m T w w'"
    "pv_ok T w' \<and> pv_ok P w' \<and> same_on K w w' \<and> prefix (wi_log W w) (wi_log W w') \<and> (landed m' sz J P R W w \<longrightarrow> landed m' sz J P R W w')"
    by blast+
qed

section \<open>Sending on a link\<close>

lemma tx_calls_same_on:
  assumes plat: "tx_platform F tq cq T C K" and f: "f \<in> tx_calls F tq cq" and ok: "pv_ok T w"
  shows "same_on K w (f w)"
proof -
  note P = tx_platformD [OF plat]
  consider "f \<in> tx_ops F tq" | "f \<in> comp_ops F cq" | "f = (\<lambda>w. snd (libc_sendto F (fd_id (tq_fd tq)) w))"
    using f by (auto simp: tx_calls_def)
  then show ?thesis
  proof cases
    case 1
    then have "comp_same C K w (f w)" using P(4) [of w] ok by (simp add: keeps_def)
    then show ?thesis by (simp add: comp_same_def)
  next
    case 2
    then have "tx_same T K w (f w)" using P(5) [of w] ok by (simp add: keeps_def)
    then show ?thesis by (simp add: tx_same_def)
  next
    case 3
    then have "tx_same T K w (f w)" using P(6) ok unfolding wakeup_law_def by (metis prod.collapse)
    then show ?thesis by (simp add: tx_same_def)
  qed
qed

lemma rx_calls_same_on:
  assumes "separate_rings F tq cq fq rq m sz K T C P R" "f \<in> rx_calls F fq rq" "pv_ok T w"
  shows "same_on K w (f w)"
  using separate_ringsD(2) [OF assms] by (simp add: tx_calm_def tx_same_def)

lemma tx_calls_moved:
  assumes via: "via (tx_calls F tq cq) w w'" and law: "wire_law F tq cq fq rq m m' sz J T C P R W"
    and plat: "tx_platform F tq cq T C K" and ok: "pv_ok T w" "pv_ok P w" "wi_sent W w \<le> length (pv_subm T w)"
  shows "(\<forall>d \<in> set (pv_subm T w'). desc_in m K d) \<Longrightarrow> moved W m T w w'"
    "pv_ok T w' \<and> pv_ok P w' \<and> same_on K w w' \<and> prefix (wi_log W w) (wi_log W w') \<and> (landed m' sz J P R W w \<longrightarrow> landed m' sz J P R W w')"
proof -
  have calm: "\<forall>f \<in> tx_calls F tq cq. \<forall>w. pv_ok T w \<longrightarrow> same_on K w (f w)" using tx_calls_same_on [OF plat] by blast
  note path = calls_moved [OF via law Un_upper1 calm ok]
  show "(\<forall>d \<in> set (pv_subm T w'). desc_in m K d) \<Longrightarrow> moved W m T w w'" by (rule path(1))
  show "pv_ok T w' \<and> pv_ok P w' \<and> same_on K w w' \<and> prefix (wi_log W w) (wi_log W w') \<and>
      (landed m' sz J P R W w \<longrightarrow> landed m' sz J P R W w')" by (rule path(2))
qed

text \<open>Writing to the frame at the cursor, which is not in flight, leaves everything under way as it is.\<close>

lemma store_moved:
  assumes law: "wire_law F tq cq fq rq m m' sz J T C P R W" and out: "outside_umem T C"
    and link: "tx_linked T C s w" and desc: "tx_descs T s w" and inv: "tx_inv m s" and free: "tx_cursor s \<notin> onq (tx_frames s)"
    and bs: "length bs \<le> unat (tx_frame_size s)" and sent: "wi_sent W w \<le> length (pv_subm T w)"
    and w': "w' = region_store m (tx_cursor s * unat (tx_frame_size s)) bs w"
  shows "moved W m T w w'"
proof -
  let ?sz = "unat (tx_frame_size s)"
  have kern: "kern w' = kern w" by (simp add: w')
  note same = outside_umemD(2) [OF out kern] wire_lawD(5,6) [OF law kern]
  have sz: "0 < ?sz" using inv by (simp add: tx_inv_def tx_core_def tx_frames_inv_def)
  have "desc_data m w' d = desc_data m w d" if d: "d \<in> set (drop (wi_sent W w) (pv_subm T w))" for d
  proof -
    have "pv_ok T w" using link by (simp add: tx_linked_def)
    from unsent_onq [OF wire_lawD(2) [OF law this] link d] obtain i where
      i: "i \<in> onq (tx_frames s)" "xd_addr d = i * ?sz" .
    obtain k where k: "xd_addr d = k * ?sz" "unat (xd_len d) \<le> ?sz"
      using desc d unfolding tx_descs_def by (meson in_set_dropD)
    have "i \<noteq> tx_cursor s" using i(1) free by auto
    then have eq: "\<forall>a \<in> chunk m s i. mem w' a = mem w a" using store_other_chunk [OF _ bs] w' by blast
    have "desc_in m (chunk m s i) d" using i(2) k sz by (auto simp: desc_in_def chunk_alt)
    then show ?thesis using eq by (rule desc_data_cong)
  qed
  then have "under_way W m T w' = under_way W m T w" unfolding under_way_def same(1,2) by (intro map_cong) simp_all
  then show ?thesis using same sent by (simp add: moved_def new_packets_def)
qed

text \<open>The descriptors of a batch name frames of the sender.\<close>

lemma tx_descs_batch:
  assumes "tx_descs T s w" "tx_inv m s" "length (tx_frames s') = length (tx_frames s)" "tx_frame_size s' = tx_frame_size s"
    and subm: "pv_subm T w' = pv_subm T w @ map (\<lambda>i. tx_entry (tx_frames s ! i)) ks" and "set ks \<subseteq> {..<length (tx_frames s)}"
  shows "tx_descs T s' w'"
  unfolding tx_descs_def
proof
  fix d assume "d \<in> set (pv_subm T w')"
  then consider "d \<in> set (pv_subm T w)" | i where "i < length (tx_frames s)" "d = tx_entry (tx_frames s ! i)"
    using subm assms(6) by auto
  then show "\<exists>i<length (tx_frames s'). xd_addr d = i * unat (tx_frame_size s') \<and> unat (xd_len d) \<le> unat (tx_frame_size s')"
  proof cases
    case 1
    then show ?thesis using assms(1,3,4) by (auto simp: tx_descs_def)
  next
    case (2 i)
    have ok: "tx_frame_ok m (unat (tx_frame_size s)) i (tx_frames s ! i)" using inv_frame [OF assms(2) 2(1)] .
    then have "frame_len (tx_frames s ! i) < 2 ^ 32"
      using as_usize_less [of "tx_frame_size s"] unfolding tx_frame_ok_def as_usize_def by linarith
    then show ?thesis using ok 2 assms(3,4) by (auto simp: tx_frame_ok_def placed_def tx_entry_def)
  qed
qed

lemma link_okD:
  assumes "link_ok F fuel m m' base T C P R W s r w"
  shows "tx_platform F (tx_q s) (comp_q s) T C (tx_bytes m s)" "tx_progress F (tx_q s) T (batch_size s) fuel"
    "tx_inv m s" "tx_linked T C s w" "tx_descs T s w" "rx_fifo_ok F fuel m' base P R r w"
    "\<forall>j \<in> (+) base ` {..<length (rx_frames r)}. tx_bytes m s \<inter> chunk_bytes m' (unat (rx_frame_size r)) j = {}"
    "separate_rings F (tx_q s) (comp_q s) (fill_q r) (rx_q r) m' (unat (rx_frame_size r)) (tx_bytes m s) T C P R"
    "wire_law F (tx_q s) (comp_q s) (fill_q r) (rx_q r) m m' (unat (rx_frame_size r))
       ((+) base ` {..<length (rx_frames r)}) T C P R W"
    "wi_sent W w \<le> length (pv_subm T w)"
    "landed m' (unat (rx_frame_size r)) ((+) base ` {..<length (rx_frames r)}) P R W w"
    "pv_ok T w" "pv_ok P w" "tx_counts F T C s w \<Longrightarrow> tx_ready F T C m fuel s w"
  using assms rx_fifo_okD(5) [of F fuel m' base P R r w]
  by (simp_all add: link_ok_def Let_def tx_linked_def rx_linked_def tx_ready_def)

lemma desc_in_chunk:
  assumes "xd_addr d mod sz + unat (xd_len d) \<le> sz"
  shows "desc_in m (chunk_bytes m sz (xd_addr d div sz)) d"
proof -
  have "xd_addr d = xd_addr d div sz * sz + xd_addr d mod sz" by simp
  then show ?thesis using assms unfolding desc_in_def chunk_bytes_def by (intro ivl_subset [THEN iffD2] disjI2) linarith
qed

lemma landed_store:
  assumes law: "wire_law F tq cq fq rq m m' sz J T C P R W" and sep: "separate_rings F tq cq fq rq m' sz K' T C P R"
    and f: "f \<in> stores K" and apart: "\<forall>j \<in> J. K \<inter> chunk_bytes m' sz j = {}" and ok: "pv_ok P w" "landed m' sz J P R W w"
  shows "landed m' sz J P R W (f w)" "pv_ok P (f w)"
proof -
  have kern: "kern (f w) = kern w" and mem: "\<And>a. a \<notin> K \<Longrightarrow> mem (f w) a = mem w a" using f by (simp_all add: stores_def)
  note log = wire_lawD(6) [OF law kern] and view = separate_ringsD(3) [OF sep kern]
  show "pv_ok P (f w)" using view ok(1) by simp
  have same: "unspoilt sz J P R ds (f w) i = unspoilt sz J P R ds w i" for ds i
    using view kernel_chunks_same [of P w "f w" R sz] by (simp add: unspoilt_def rx_same_def)
  have "desc_data m' (f w) (ds ! i) = desc_data m' w (ds ! i)" if "unspoilt sz J P R ds w i" for ds i
  proof -
    have j: "xd_addr (ds ! i) div sz \<in> J" "xd_addr (ds ! i) mod sz + unat (xd_len (ds ! i)) \<le> sz"
      using that by (simp_all add: unspoilt_def Let_def)
    have "\<forall>a \<in> chunk_bytes m' sz (xd_addr (ds ! i) div sz). mem (f w) a = mem w a" using apart j(1) mem by blast
    then show ?thesis using desc_in_chunk [OF j(2)] desc_data_cong by blast
  qed
  from this [of "map fst (wi_log W w)"]
  have "desc_data m' (f w) (fst (wi_log W w ! i)) = desc_data m' w (fst (wi_log W w ! i))"
    if "i < length (wi_log W w)" "unspoilt sz J P R (map fst (wi_log W w)) w i" for i
    using that by (metis nth_map)
  then show "landed m' sz J P R W (f w)" using ok(2) unfolding landed_def log same by simp
qed

lemma advance_descs:
  assumes plat: "tx_platform F (tx_q s) cq T C (tx_bytes m s)" and inv: "tx_inv m s" and link: "tx_linked T C s w"
    and desc: "tx_descs T s w" and free: "tx_cursor s \<notin> onq (tx_frames s)"
    and room: "idx_room F (length (pv_subm T w) + batch_size s)" "pkts_tx (tx_stats s) + batch_size s < 2 ^ 64"
    and prog: "tx_progress F (tx_q s) T (batch_size s) fuel" and adv: "advance F fuel s w = Ret (x, s', w')"
  shows "tx_descs T s' w'" "tx_bytes m s' = tx_bytes m s"
proof -
  let ?full = "Suc (cur_batch_size s) = batch_size s" and ?ks = "[tx_cursor s - cur_batch_size s..<Suc (tx_cursor s)]"
  let ?s' = "if ?full then handed_over (stepped s) else stepped s"
  obtain w'' where "advance F fuel s w = Ret (Inr (), ?s', w'')"
      "pv_subm T w'' = pv_subm T w @ (if ?full then map (\<lambda>i. tx_entry (tx_frames s ! i)) ?ks else [])"
    using advance_ok [OF plat inv link free room prog refl refl] by blast
  then have s': "s' = ?s'" and subm: "pv_subm T w' = pv_subm T w @ map (\<lambda>i. tx_entry (tx_frames s ! i)) (if ?full then ?ks else [])"
    using adv by simp_all
  have frames: "length (tx_frames s') = length (tx_frames s)" "tx_frame_size s' = tx_frame_size s"
    using handed_over_frames(1) [OF stepped_ready [OF inv free]] by (simp_all add: s')
  then show "tx_bytes m s' = tx_bytes m s" by (simp add: tx_bytes_def)
  have "set (if ?full then ?ks else []) \<subseteq> {..<length (tx_frames s)}" using inv by (auto simp: tx_inv_def)
  then show "tx_descs T s' w'" by (rule tx_descs_batch [OF desc inv frames subm])
qed

lemma completes_moved:
  assumes ok: "link_ok F fuel m m' base T C P R W s r w" and cf: "complete_frames F s w = Ret (length ixs, completed ixs ff s, w1)"
    and comp: "completes T C (tx_bytes m s) ixs s w w1"
  shows "moved W m T w w1" "tx_descs T (completed ixs ff s) w1"
    "landed m' (unat (rx_frame_size r)) ((+) base ` {..<length (rx_frames r)}) P R W w1"
    "pv_ok T w1" "pv_ok P w1" "pv_subm T w1 = pv_subm T w"
proof -
  note D = link_okD [OF ok]
  show subm: "pv_subm T w1 = pv_subm T w" using comp by (simp add: completes_def tx_same_def)
  then have d: "tx_descs T s w1" using D(5) by (simp add: tx_descs_def)
  then show "tx_descs T (completed ixs ff s) w1" by (simp add: tx_descs_def)
  show "moved W m T w w1" "landed m' (unat (rx_frame_size r)) ((+) base ` {..<length (rx_frames r)}) P R W w1"
      "pv_ok T w1" "pv_ok P w1"
    using tx_calls_moved [OF complete_frames_via [OF cf] D(9,1,12,13,10)] tx_descs_in [OF d, of _ m] D(11) by blast+
qed

lemma accept_moved:
  assumes ok: "link_ok F fuel m m' base T C P R W s r w" and counts: "tx_counts F T C s w"
    and cf: "complete_frames F s w = Ret (length ixs, completed ixs ff s, w1)"
    and ff: "length ff = length (free_frames s)" and comp: "completes T C (tx_bytes m s) ixs s w w1"
    and free: "tx_cursor s \<notin> onq (tx_frames (completed ixs ff s))"
    and n: "n \<le> unat (tx_frame_size s)" "length bs \<le> unat (tx_frame_size s)"
    and adv: "advance F fuel (written n (completed ixs ff s)) (region_store m (tx_cursor s * unat (tx_frame_size s)) bs w1) = Ret (x, s', w')"
  shows "moved W m T w w'" "tx_descs T s' w'"
    "landed m' (unat (rx_frame_size r)) ((+) base ` {..<length (rx_frames r)}) P R W w'"
proof -
  note D = link_okD [OF ok] and P = tx_platformD [OF link_okD(1) [OF ok]]
  let ?s = "completed ixs ff s" and ?w2 = "region_store m (tx_cursor s * unat (tx_frame_size s)) bs w1"
  let ?L = "landed m' (unat (rx_frame_size r)) ((+) base ` {..<length (rx_frames r)}) P R W"
  have core: "tx_core m s" using D(3) by (simp add: tx_inv_def)
  note s1 = completed_inv [OF comp D(3) ff] completed_linked [OF comp D(4), of ff] and seg1 = completes_moved [OF ok cf comp]
  have sent: "wi_sent W w1 \<le> length (pv_subm T w1)" using seg1(1) by (simp add: moved_def)
  have kern: "kern ?w2 = kern w1" by simp
  note out = outside_umemD [OF P(8) kern]
  have seg2: "moved W m T w1 ?w2"
    using store_moved [OF D(9) P(8) s1(2) seg1(2) s1(1) _ _ sent refl, of bs] free n(2) by simp
  note store = landed_store [OF D(9,8) cursor_store [OF D(3) n(2)] D(7) seg1(5,3)]
  have sent2: "wi_sent W ?w2 \<le> length (pv_subm T ?w2)" using seg2 by (simp add: moved_def)
  have inv2: "tx_inv m (written n ?s)" using written_inv [OF s1(1), of n] n(1) by simp
  have link2: "tx_linked T C (written n ?s) ?w2" using written_linked [OF P(8) kern s1(2)] .
  have rooms: "idx_room F (length (pv_subm T ?w2) + batch_size s)" "pkts_tx (tx_stats s) + batch_size s < 2 ^ 64"
    using counts out(2) seg1(6) by (simp_all add: tx_counts_def)
  have "tx_descs T (written n ?s) ?w2" using seg1(2) out(2) by (simp add: tx_descs_def)
  from advance_descs [OF _ inv2 link2 this, of F "comp_q s" fuel x s' w'] D(1,2) free rooms adv
  have d': "tx_descs T s' w'" "tx_bytes m s' = tx_bytes m s" by (simp_all add: tx_bytes_def)
  show "tx_descs T s' w'" by (rule d')
  have in': "\<forall>d \<in> set (pv_subm T w'). desc_in m (tx_bytes m s) d" using tx_descs_in [OF d'(1), of _ m] d'(2) by simp
  have via2: "via (tx_calls F (tx_q s) (comp_q s)) ?w2 w'" using advance_via [OF adv] by (simp add: written_def)
  have ok2: "pv_ok T ?w2" using out(1) seg1(4) by simp
  note seg3 = tx_calls_moved [OF via2 D(9,1) ok2 store(2) sent2]
  show "?L w'" using seg3(2) store(1) by blast
  have "moved W m T w ?w2" using moved_trans [OF seg1(1) seg2] seg1(6) by simp
  from moved_trans [OF this seg3(1) [OF in']] show "moved W m T w w'" using out(2) seg1(6) by simp
qed

lemma rx_fifo_ok_calm:
  assumes ok: "rx_fifo_ok F fuel m base P R s w"
    and calm: "held_calm m (unat (rx_frame_size s)) P R ((+) base ` filled (rx_frames s)) w w'"
  shows "rx_fifo_ok F fuel m base P R s w'" "rx_queue s w' = rx_queue s w" "cv_taken R w' = cv_taken R w"
proof -
  note D = rx_fifo_okD [OF ok]
  have "rx_linked P R base s w'"
    using D(5) calm by (simp add: rx_linked_def held_calm_def fill_same_def rx_same_def fill_chunks_def)
  moreover have "rx_fixed s s" by (simp add: rx_fixed_def)
  ultimately show "rx_fifo_ok F fuel m base P R s w'"
    using rx_fifo_ok_step [OF ok _ D(4)] held_calm_queue(2) [OF D(4,3) calm] by blast
  show "rx_queue s w' = rx_queue s w" using held_calm_queue(1) [OF D(4,3) calm] .
  show "cv_taken R w' = cv_taken R w" using calm by (simp add: held_calm_def rx_same_def)
qed

text \<open>The receiver's frames are neither with the kernel nor the sender's.\<close>

lemma link_held:
  assumes ok: "link_ok F fuel m m' base T C P R W s r w"
  shows "(+) base ` filled (rx_frames r) \<inter> kernel_chunks (unat (rx_frame_size r)) P R w = {}"
    "\<forall>j \<in> (+) base ` filled (rx_frames r). tx_bytes m s \<inter> chunk_bytes m' (unat (rx_frame_size r)) j = {}"
proof -
  note D = link_okD [OF ok]
  show "(+) base ` filled (rx_frames r) \<inter> kernel_chunks (unat (rx_frame_size r)) P R w = {}"
    using kernel_chunks_linked [OF rx_fifo_okD(5) [OF D(6)]] filled_lent(2) [of "rx_frames r"] by auto
  show "\<forall>j \<in> (+) base ` filled (rx_frames r). tx_bytes m s \<inter> chunk_bytes m' (unat (rx_frame_size r)) j = {}"
    using D(7) by (auto simp: filled_def)
qed

lemma log_taken:
  assumes "wire_law F tq cq fq rq m m' sz J T C P R W" "pv_ok P w"
  shows "length (cv_taken R w) \<le> length (wi_log W w)"
  using prefix_length_le [OF wire_lawD(3) [OF assms]] by simp

text \<open>A step of the sender or of the kernel, seen from the pipeline.\<close>

lemma link_tx_step:
  assumes ok: "link_ok F fuel m m' base T C P R W s r w" and mov: "moved W m T w w'" and desc: "tx_descs T s' w'"
    and land: "landed m' (unat (rx_frame_size r)) ((+) base ` {..<length (rx_frames r)}) P R W w'"
    and s': "tx_inv m s'" "tx_linked T C s' w'" "tx_fixed s s'"
    and calm: "held_calm m' (unat (rx_frame_size r)) P R ((+) base ` filled (rx_frames r)) w w'"
    and data: "new_packets m T w w' @ batch_data s' w' = batch_data s w @ d"
  shows "link_ok F fuel m m' base T C P R W s' r w' \<and> passes W (pipeline m T R W s' r w') (pipeline m T R W s r w @ d)"
proof -
  note D = link_okD [OF ok] and B = rx_fifo_ok_calm [OF link_okD(6) [OF ok] calm]
  obtain xs where xs: "wi_log W w' = wi_log W w @ xs"
      "passes W (map snd xs @ under_way W m T w') (under_way W m T w @ new_packets m T w w')"
    and sent: "wi_sent W w' \<le> length (pv_subm T w')" using mov by (auto simp: moved_def)
  have q: "tx_q s' = tx_q s" "comp_q s' = comp_q s" "batch_size s' = batch_size s" "tx_bytes m s' = tx_bytes m s"
    using s'(3) by (simp_all add: tx_fixed_def tx_bytes_def)
  then have "link_ok F fuel m m' base T C P R W s' r w'"
    using D(1,2,7-9) s'(1,2) desc B(1) sent land by (simp add: link_ok_def Let_def)
  moreover have "length (cv_taken R w) \<le> length (wi_log W w)" by (rule log_taken [OF D(9,13)])
  then have "pipeline m T R W s' r w' = (rx_queue r w @ map snd (drop (length (cv_taken R w)) (wi_log W w))) @
      (map snd xs @ under_way W m T w') @ batch_data s' w'"
    using B(2,3) xs(1) by (simp add: pipeline_def)
  moreover have "pipeline m T R W s r w @ d = (rx_queue r w @ map snd (drop (length (cv_taken R w)) (wi_log W w))) @
      (under_way W m T w @ new_packets m T w w') @ batch_data s' w'"
    using data by (simp add: pipeline_def)
  ultimately show ?thesis using passes_prefix [OF passes_append [OF xs(2) passes_refl]] by metis
qed

lemma link_send_step:
  assumes ok: "link_ok F fuel m m' base T C P R W s r w" and counts: "tx_counts F T C s w"
    and data: "length data \<le> frame_mtu (tx_frames s ! tx_cursor s)" and run: "send F fuel s data w = Ret (x, s', w')"
  shows "link_ok F fuel m m' base T C P R W s' r w' \<and>
    passes W (pipeline m T R W s' r w') (pipeline m T R W s r w @ (case x of Inl _ \<Rightarrow> [] | Inr _ \<Rightarrow> [data]))"
proof -
  note D = link_okD [OF ok]
  note calm = tx_via_calm [OF D(8) send_via [OF D(1,3,4) counts data run] D(13) link_held [OF ok]]
  have core: "tx_core m s" and c: "tx_cursor s < length (tx_frames s)" using D(3) by (simp_all add: tx_inv_def)
  have res: "tx_inv m s'" "tx_linked T C s' w'" "tx_fixed s s'"
      "new_packets m T w w' @ batch_data s' w' = batch_data s w @ (case x of Inl _ \<Rightarrow> [] | Inr _ \<Rightarrow> [data])"
    using send_ready [OF D(14) [OF counts] data] run tx_spec_send_append [of "new_packets m T w w'" "batch_data s' w'" _ data]
    by (auto split: if_splits simp del: tx_spec_send.simps)
  obtain ixs ff w1 where cf: "complete_frames F s w = Ret (length ixs, completed ixs ff s, w1)"
    and ff: "length ff = length (free_frames s)" and comp: "completes T C (tx_bytes m s) ixs s w w1"
    using complete_frames_ok [OF D(1) core D(4)] counts by (auto simp: tx_counts_def)
  let ?s = "completed ixs ff s"
  have "moved W m T w w' \<and> tx_descs T s' w' \<and>
      landed m' (unat (rx_frame_size r)) ((+) base ` {..<length (rx_frames r)}) P R W w'"
  proof (cases "tx_cursor ?s \<in> onq (tx_frames ?s)")
    case True
    then have "s' = ?s" "w' = w1" using send_blocked [OF cf True, of fuel data] run by simp_all
    then show ?thesis using completes_moved [OF ok cf comp] by simp
  next
    case False
    have n: "length data \<le> unat (tx_frame_size s)" "length data \<le> frame_mtu (tx_frames ?s ! tx_cursor ?s)"
      using data c inv_frame [OF D(3) c] by (simp_all add: nth_mark_free tx_frame_ok_def placed_def)
    have "advance F fuel (written (length data) ?s) (region_store m (tx_cursor s * unat (tx_frame_size s)) data w1) = Ret (x, s', w')"
      using send_writes [OF cf completed_inv [OF comp D(3) ff] False n(2), of fuel] run by simp
    from accept_moved [OF ok counts cf ff comp _ n(1) n(1) this] False show ?thesis by simp
  qed
  then show ?thesis using link_tx_step [OF ok _ _ _ res(1-3) calm res(4)] by blast
qed

lemma link_send_apply_step:
  assumes ok: "link_ok F fuel m m' base T C P R W s r w" and counts: "tx_counts F T C s w"
    and f: "f () (cursor_region m s w) = Ret (len, bytes, ())" "len \<le> unat (tx_frame_size s)"
    and run: "send_apply F fuel s f () w = Ret (x, s', (), w')"
  shows "link_ok F fuel m m' base T C P R W s' r w' \<and>
    passes W (pipeline m T R W s' r w') (pipeline m T R W s r w @ (case x of Inl _ \<Rightarrow> [] | Inr _ \<Rightarrow> [map bytes [0..<len]]))"
proof -
  note D = link_okD [OF ok]
  note ready = D(14) [OF counts]
  note calm = tx_via_calm [OF D(8) send_apply_via [where f = f, OF D(1,3,4) counts f(1) run] D(13) link_held [OF ok]]
  have core: "tx_core m s" and sz: "0 < unat (tx_frame_size s)"
    using D(3) by (simp_all add: tx_inv_def tx_core_def tx_frames_inv_def)
  have res: "tx_inv m s'" "tx_linked T C s' w'" "tx_fixed s s'"
      "new_packets m T w w' @ batch_data s' w' = batch_data s w @ (case x of Inl _ \<Rightarrow> [] | Inr _ \<Rightarrow> [map bytes [0..<len]])"
    using send_apply_busy [OF ready, of f "()"] send_apply_ready [where f = f, OF ready _ f] run
      tx_spec_send_append [of "new_packets m T w w'" "batch_data s' w'" _ "map bytes [0..<len]"]
    by (cases "tx_cursor s \<in> in_flight C s w"; auto simp del: tx_spec_send.simps)+
  obtain ixs ff w1 where cf: "complete_frames F s w = Ret (length ixs, completed ixs ff s, w1)"
    and ff: "length ff = length (free_frames s)" and comp: "completes T C (tx_bytes m s) ixs s w w1"
    using complete_frames_ok [OF D(1) core D(4)] counts by (auto simp: tx_counts_def)
  let ?s = "completed ixs ff s" and ?sz = "unat (tx_frame_size s)"
  have "moved W m T w w' \<and> tx_descs T s' w' \<and>
      landed m' (unat (rx_frame_size r)) ((+) base ` {..<length (rx_frames r)}) P R W w'"
  proof (cases "tx_cursor ?s \<in> onq (tx_frames ?s)")
    case True
    then have "s' = ?s" "w' = w1" using send_apply_blocked [OF cf True, of fuel f "()"] run by simp_all
    then show ?thesis using completes_moved [OF ok cf comp] by simp
  next
    case False
    have "same_on (tx_bytes m s) w w1" using comp by (simp add: completes_def tx_same_def)
    from cursor_region_same [OF D(3) this]
    have reg: "cursor_region m s w = bytes_at w1 (mem_ptr m + tx_cursor ?s * unat (tx_frame_size ?s)) (unat (tx_frame_size ?s))"
      by (simp add: frame_region_def)
    have "advance F fuel (written len ?s) (region_store m (tx_cursor s * ?sz) (map bytes [0..<?sz]) w1) = Ret (x, s', w')"
      using run [unfolded send_apply_writes [where f = f, OF cf completed_inv [OF comp D(3) ff] False reg f(1), of fuel]]
      by (auto simp: bindO_Ret_iff)
    from accept_moved [OF ok counts cf ff comp _ f(2) _ this] False show ?thesis by simp
  qed
  then show ?thesis using link_tx_step [OF ok _ _ _ res(1-3) calm res(4)] by blast
qed

section \<open>Receiving from a link\<close>

text \<open>What waits on the receive ring is in a buffer of the kernel.\<close>

lemma waiting_kernel:
  assumes law: "wire_law F tq cq fq rq m m' sz J T C P R W" and ok: "pv_ok P w"
    and k: "length (cv_taken R w) \<le> k" "k < length (wi_log W w)"
  shows "xd_addr (fst (wi_log W w ! k)) div sz \<in> kernel_chunks sz P R w"
proof -
  obtain rest where rest: "map fst (wi_log W w) = cv_taken R w @ rest" using wire_lawD(3) [OF law ok] by (rule prefixE)
  have "desc_chunks sz (cv_taken R w) + desc_chunks sz rest \<subseteq># fill_chunks sz P w"
    using wire_lawD(4) [OF law ok] unfolding rest by (simp add: desc_chunks_def)
  then have sub: "desc_chunks sz rest \<subseteq># fill_chunks sz P w - desc_chunks sz (cv_taken R w)"
    by (simp add: subseteq_mset_def) (metis add.commute add_le_imp_le_diff)
  have "rest ! (k - length (cv_taken R w)) = map fst (wi_log W w) ! k" using k(1) unfolding rest by (simp add: nth_append)
  then have "fst (wi_log W w ! k) = rest ! (k - length (cv_taken R w))" using k(2) by simp
  moreover have "k - length (cv_taken R w) < length rest" using k arg_cong [OF rest, of length] by simp
  ultimately have "fst (wi_log W w ! k) \<in> set rest" by simp
  then have "xd_addr (fst (wi_log W w ! k)) div sz \<in># desc_chunks sz rest" by (simp add: desc_chunks_def)
  then show ?thesis using sub unfolding kernel_chunks_def by (meson mset_subset_eqD)
qed

lemma tagged_apart:
  assumes "distinct (map fst (tagged base sz ds))" "i < length ds" "k < length ds" "i \<noteq> k"
  shows "xd_addr (ds ! k) div sz \<noteq> xd_addr (ds ! i) div sz"
proof
  assume "xd_addr (ds ! k) div sz = xd_addr (ds ! i) div sz"
  then have "map fst (tagged base sz ds) ! i = map fst (tagged base sz ds) ! k" using assms(2,3) by (simp add: tagged_def)
  then show False using nth_eq_iff_index_eq [OF assms(1)] assms(2-4) by simp
qed

text \<open>What was just taken off the ring is what arrived.\<close>

lemma taken_log:
  assumes law: "wire_law F tq cq fq rq m m' sz J T C P R W" and took: "rx_took F P R m' base r w q ds w1"
  shows "length (cv_taken R w) + length ds \<le> length (wi_log W w1)"
    "i < length ds \<Longrightarrow> fst (wi_log W w1 ! (length (cv_taken R w) + i)) = ds ! i"
proof -
  note K = rx_tookD [OF took]
  obtain rest where rest: "map fst (wi_log W w1) = (cv_taken R w @ ds) @ rest"
    using wire_lawD(3) [OF law K(2)] unfolding K(4) by (rule prefixE)
  then show len: "length (cv_taken R w) + length ds \<le> length (wi_log W w1)" by (metis length_append length_map le_add1)
  assume "i < length ds"
  then show "fst (wi_log W w1 ! (length (cv_taken R w) + i)) = ds ! i"
    using len arg_cong [OF rest, of "\<lambda>xs. xs ! (length (cv_taken R w) + i)"] by (simp add: nth_append)
qed

lemma taken_unspoilt:
  assumes law: "wire_law F tq cq fq rq m m' (unat (rx_frame_size r)) ((+) base ` {..<length (rx_frames r)}) T C P R W"
    and took: "rx_took F P R m' base r w q ds w1" and inv: "rx_inv m' base r" and link: "rx_linked P R base r w"
    and i: "i < length ds"
  shows "unspoilt (unat (rx_frame_size r)) ((+) base ` {..<length (rx_frames r)}) P R (map fst (wi_log W w1)) w1
    (length (cv_taken R w) + i)"
proof -
  let ?sz = "unat (rx_frame_size r)" and ?n = "length (cv_taken R w)" and ?L = "wi_log W w1" and ?j = "xd_addr (ds ! i) div unat (rx_frame_size r)"
  note K = rx_tookD [OF took] and L = taken_log [OF law took]
  have core: "rx_core m' base r" using inv by (simp add: rx_inv_def)
  note G = rx_gotD [OF K(1) core]
  have peek: "cv_peek R w1 = 0" using took by (simp add: rx_took_def)
  have ker: "kernel_chunks ?sz P R w1 = (+) base ` (lent (rx_frames r) - fst ` set (tagged base ?sz ds))"
    using kernel_chunks_linked [OF taken_in_linked [OF K(1) core link K(2-4) peek, of q]] place_filled(2) [OF G(1,6)] by simp
  have tag: "(?j - base, ds ! i) \<in> set (tagged base ?sz ds)" using i by (simp add: tagged_def)
  then have fit: "?j = base + (?j - base)" "xd_addr (ds ! i) mod ?sz + unat (xd_len (ds ! i)) \<le> ?sz" "?j - base < length (rx_frames r)"
    using G(3) by (auto simp: desc_fits_def)
  then have J: "?j \<in> (+) base ` {..<length (rx_frames r)}" by (intro rev_image_eqI [of "?j - base"]) simp_all
  have "?j - base \<in> fst ` set (tagged base ?sz ds)" using tag by (rule rev_image_eqI) simp
  then have out: "?j \<notin> kernel_chunks ?sz P R w1" unfolding ker using fit(1) by force
  have "xd_addr (fst (?L ! k)) div ?sz \<noteq> ?j" if k: "?n + i < k" "k < length ?L" for k
  proof (cases "k < ?n + length ds")
    case True
    then have "k - ?n < length ds" "i \<noteq> k - ?n" "?n + (k - ?n) = k" using k(1) by linarith+
    then show ?thesis using tagged_apart [OF G(1), of i "k - ?n"] L(2) [of "k - ?n"] i by simp
  next
    case False
    then show ?thesis using waiting_kernel [OF law K(2), of k] k(2) out K(4) by auto
  qed
  then show ?thesis using L(2) [OF i] J fit(2) out i L(1) by (simp add: unspoilt_def Let_def)
qed

lemma taken_landed:
  assumes law: "wire_law F tq cq fq rq m m' (unat (rx_frame_size r)) ((+) base ` {..<length (rx_frames r)}) T C P R W"
    and land: "landed m' (unat (rx_frame_size r)) ((+) base ` {..<length (rx_frames r)}) P R W w1"
    and took: "rx_took F P R m' base r w q ds w1" and inv: "rx_inv m' base r" and link: "rx_linked P R base r w"
  shows "map (desc_data m' w1) ds = map snd (take (length ds) (drop (length (cv_taken R w)) (wi_log W w1)))"
proof (rule nth_equalityI)
  note L = taken_log [OF law took]
  show "length (map (desc_data m' w1) ds) = length (map snd (take (length ds) (drop (length (cv_taken R w)) (wi_log W w1))))"
    using L(1) by simp
  fix i assume "i < length (map (desc_data m' w1) ds)"
  then have i: "i < length ds" by simp
  then have "desc_data m' w1 (fst (wi_log W w1 ! (length (cv_taken R w) + i))) = snd (wi_log W w1 ! (length (cv_taken R w) + i))"
    using land taken_unspoilt [OF law took inv link i] L(1) by (simp add: landed_def)
  then show "map (desc_data m' w1) ds ! i = map snd (take (length ds) (drop (length (cv_taken R w)) (wi_log W w1))) ! i"
    using L i by simp
qed

lemma link_ok_rx:
  assumes ok: "link_ok F fuel m m' base T C P R W s r w" and same: "rx_fixed r r'" and fifo: "rx_fifo_ok F fuel m' base P R r' w'"
    and tx: "tx_linked T C s w'" "pv_subm T w' = pv_subm T w" "wi_sent W w' \<le> length (pv_subm T w')"
    and land: "landed m' (unat (rx_frame_size r)) ((+) base ` {..<length (rx_frames r)}) P R W w'"
  shows "link_ok F fuel m m' base T C P R W s r' w'"
proof -
  have calls: "rx_calls F fq (rx_q r') = rx_calls F fq (rx_q r)" for fq
    using same by (simp add: rx_fixed_def rx_ops_def rx_calls_def)
  have "separate_rings F tq cq fq (rx_q r') m' sz K T C P R = separate_rings F tq cq fq (rx_q r) m' sz K T C P R"
      "wire_law F tq cq fq (rx_q r') m m' sz J T C P R W = wire_law F tq cq fq (rx_q r) m m' sz J T C P R W" for fq sz tq cq K J
    unfolding separate_rings_def wire_law_def calls by (rule refl)+
  moreover have "tx_descs T s w'" using link_okD(5) [OF ok] tx(2) by (simp add: tx_descs_def)
  ultimately show ?thesis using ok same fifo tx land by (simp add: link_ok_def rx_fixed_def Let_def)
qed

text \<open>The two halves of a receive: taking descriptors, and giving a frame back.\<close>

lemma recv_halves:
  assumes poll: "recv_poll F r w = Ret (k, r1, w1)" and run: "recv F fuel r pkt w = Ret (n, pkt', r', w')"
  shows "via (rx_calls F (fill_q r) (rx_q r)) w w1" "via (rx_calls F (fill_q r) (rx_q r)) w1 w'"
proof -
  note P = recv_poll_via [OF poll]
  then show "via (rx_calls F (fill_q r) (rx_q r)) w w1" by blast
  obtain fs where "recv_deliver F fuel (r1\<lparr>rx_frames := fs\<rparr>) pkt w1 = Ret (n, pkt', r', w')"
    using run poll by (auto simp: recv_def update_rx_frames_def bindO_Ret_iff)
  from recv_deliver_via [OF this, of "rx_q r"] show "via (rx_calls F (fill_q r) (rx_q r)) w1 w'" using P by simp
qed

lemma take_drop_log:
  assumes "n + k \<le> length xs"
  shows "map g (take k (drop n xs)) @ map g (drop (n + k) (xs @ ys)) = map g (drop n (xs @ ys))"
proof -
  have "map g (take k (drop n xs)) @ map g (drop (n + k) xs) = map g (drop n xs)"
    using append_take_drop_id [of k "drop n xs"] by (metis add.commute drop_drop map_append)
  then show ?thesis using assms by simp
qed

text \<open>A receive moves packets along the link and leaves the sender's frames and the landed packets alone.\<close>

lemma recv_path:
  assumes ok: "link_ok F fuel m m' base T C P R W s r w" and took: "rx_took F P R m' base r w q ds w1"
    and run: "recv F fuel r pkt w = Ret (n, pkt', r', w')"
  defines "land \<equiv> landed m' (unat (rx_frame_size r)) ((+) base ` {..<length (rx_frames r)}) P R W"
  shows "moved W m T w w'" "land w1" "land w'" "prefix (wi_log W w1) (wi_log W w')" "tx_calm T C (tx_bytes m s) w w'"
proof -
  note D = link_okD [OF ok]
  have calm: "\<forall>f \<in> rx_calls F (fill_q r) (rx_q r). \<forall>w. pv_ok T w \<longrightarrow> same_on (tx_bytes m s) w (f w)"
    using rx_calls_same_on [OF D(8)] by blast
  note path = calls_moved [OF _ D(9) Un_upper2 calm]
  have subm: "pv_subm T v = pv_subm T w" if "via (rx_calls F (fill_q r) (rx_q r)) w v" for v
    using rx_via_calm [OF D(8) that D(12)] by (simp add: tx_calm_def tx_same_def)
  have mov: "moved W m T w v" if "via (rx_calls F (fill_q r) (rx_q r)) w v" for v
    using path(1) [OF that D(12,13,10)] tx_descs_in [OF D(5), of _ m] subm [OF that] by simp
  have "recv_poll F r w = Ret (length ds, polled q ds r, w1)" using took by (simp add: rx_took_def)
  note half = recv_halves [OF this run]
  have w1: "pv_ok T w1" "pv_ok P w1" "land w1" using path(2) [OF half(1) D(12,13,10)] D(11) by (simp_all add: land_def)
  have sent: "wi_sent W w1 \<le> length (pv_subm T w1)" using mov [OF half(1)] by (simp add: moved_def)
  show "moved W m T w w'" using mov [OF recv_via [OF run]] .
  show "land w1" by (rule w1(3))
  show "land w'" "prefix (wi_log W w1) (wi_log W w')"
    using path(2) [OF half(2) w1(1,2) sent] w1(3) by (simp_all add: land_def)
  show "tx_calm T C (tx_bytes m s) w w'" using rx_via_calm [OF D(8) recv_via [OF run] D(12)] .
qed

lemma link_recv_step:
  assumes ok: "link_ok F fuel m m' base T C P R W s r w" and counts: "rx_counts F P R r w"
    and pkt: "unat (rx_frame_size r) \<le> length pkt" and run: "recv F fuel r pkt w = Ret (n, pkt', r', w')"
  defines "del \<equiv> (if pkts_rx_delivered (rx_stats r') = pkts_rx_delivered (rx_stats r) then [] else [take n pkt'])"
  shows "link_ok F fuel m m' base T C P R W s r' w' \<and> passes W (del @ pipeline m T R W s r' w') (pipeline m T R W s r w)"
proof -
  note D = link_okD [OF ok] and B = rx_fifo_okD [OF link_okD(6) [OF ok]]
  note keep = recv_keeps_rx [OF B(1) [OF counts] pkt run]
  let ?n = "length (cv_taken R w)"
  from B(1) [OF counts] pkt B(2,3) show ?thesis
  proof (cases rule: recv_fifo)
    case (1 q ds w1 n2 pkt2 r2 w2)
    have same: "n2 = n" "pkt2 = pkt'" "r2 = r'" "w2 = w'" using 1(1) run by simp_all
    note path = recv_path [OF ok 1(7) run]
    have subm: "pv_subm T w' = pv_subm T w" and mem: "same_on (tx_bytes m s) w w'"
      using path(5) by (simp_all add: tx_calm_def tx_same_def)
    obtain xs where xs: "wi_log W w' = wi_log W w @ xs" "passes W (map snd xs @ under_way W m T w') (under_way W m T w)"
      and sent: "wi_sent W w' \<le> length (pv_subm T w')" using path(1) subm by (auto simp: moved_def new_packets_def)
    obtain ys where ys: "wi_log W w' = wi_log W w1 @ ys" using path(4) by (rule prefixE)
    have n': "length (cv_taken R w') = ?n + length ds" using 1(3) same by simp
    have iff: "(pkts_rx_delivered (rx_stats r') = pkts_rx_delivered (rx_stats r)) = (rx_queue r w @ map (desc_data m' w1) ds = [])"
      using 1(6) same by (simp split: if_splits)
    have "del @ rx_queue r' w' = rx_queue r w @ map (desc_data m' w1) ds"
      unfolding del_def iff using fifo_recv_cases [OF 1(4), symmetric] unfolding same .
    also have "map (desc_data m' w1) ds = map snd (take (length ds) (drop ?n (wi_log W w1)))"
      by (rule taken_landed [OF D(9) path(2) 1(7) B(4,5)])
    finally have que: "del @ rx_queue r' w' = rx_queue r w @ map snd (take (length ds) (drop ?n (wi_log W w1)))" .
    have "del @ pipeline m T R W s r' w' = (del @ rx_queue r' w') @ map snd (drop (?n + length ds) (wi_log W w')) @
        under_way W m T w' @ batch_data s w"
      using batch_data_kernel [OF D(3) mem] n' by (simp add: pipeline_def)
    also have "\<dots> = rx_queue r w @ (map snd (take (length ds) (drop ?n (wi_log W w1))) @ map snd (drop (?n + length ds) (wi_log W w'))) @
        under_way W m T w' @ batch_data s w" unfolding que by simp
    also have "\<dots> = rx_queue r w @ map snd (drop ?n (wi_log W w')) @ under_way W m T w' @ batch_data s w"
      unfolding ys take_drop_log [OF taken_log(1) [OF D(9) 1(7)]] ..
    also have "\<dots> = (rx_queue r w @ map snd (drop ?n (wi_log W w))) @ (map snd xs @ under_way W m T w') @ batch_data s w"
      unfolding xs(1) using log_taken [OF D(9,13)] by simp
    also have "passes W \<dots> (pipeline m T R W s r w)"
      using passes_prefix [OF passes_append [OF xs(2) passes_refl],
          of "rx_queue r w @ map snd (drop ?n (wi_log W w))" "batch_data s w"] by (simp add: pipeline_def)
    finally have "passes W (del @ pipeline m T R W s r' w') (pipeline m T R W s r w)" .
    moreover have "rx_fifo_ok F fuel m' base P R r' w'" using rx_fifo_ok_step [OF D(6)] keep 1(5) same by simp
    ultimately show ?thesis
      using link_ok_rx [OF ok _ _ tx_linked_calm [OF D(4) path(5)] subm sent path(3)] keep by blast
  qed
qed

section \<open>Runs\<close>

lemma link_kernel_step:
  assumes ok: "link_ok F fuel m m' base T C P R W s r w" and tx: "tx_calm T C (tx_bytes m s) w w'"
    and rx: "rx_calm m' (unat (rx_frame_size r)) P R w w'"
    and step: "wire_step m m' (unat (rx_frame_size r)) ((+) base ` {..<length (rx_frames r)}) T P R W w w'"
  shows "link_ok F fuel m m' base T C P R W s r w' \<and> passes W (pipeline m T R W s r w') (pipeline m T R W s r w)"
proof -
  note D = link_okD [OF ok] and S = wire_stepD [OF step]
  have same: "same_on (tx_bytes m s) w w'" "pv_subm T w' = pv_subm T w" using tx by (simp_all add: tx_calm_def tx_same_def)
  have "\<forall>d \<in> set (pv_subm T w). desc_data m w' d = desc_data m w d"
    using desc_data_cong [OF tx_descs_in [OF D(5)]] same(1) unfolding same_on_def by blast
  from carried_moved [OF S(3) this D(10)] have mov: "moved W m T w w'" .
  have desc: "tx_descs T s w'" using D(5) same(2) by (simp add: tx_descs_def)
  have calm: "held_calm m' (unat (rx_frame_size r)) P R ((+) base ` filled (rx_frames r)) w w'"
    using rx link_held(1) [OF ok] unfolding rx_calm_def held_calm_def same_in_def by blast
  have data: "new_packets m T w w' @ batch_data s w' = batch_data s w @ []"
    using batch_data_kernel [OF D(3) same(1)] same(2) by (simp add: new_packets_def)
  have "tx_fixed s s" by (simp add: tx_fixed_def)
  from link_tx_step [OF ok mov desc S(4) [OF D(11)] D(3) tx_linked_calm [OF D(4) tx] this calm data] show ?thesis by simp
qed

text \<open>One more step: what it delivers leaves the pipeline, what it accepts enters.\<close>

lemma passes_after:
  assumes "passes W (out @ p) (q @ acc)" "passes W (del @ p') (p @ d)"
  shows "passes W ((out @ del) @ p') (q @ acc @ d)"
proof -
  have "passes W (out @ del @ p') (out @ p @ d)" using assms(2) by (rule passes_prefix)
  moreover have "passes W ((out @ p) @ d) ((q @ acc) @ d)" using assms(1) by (rule passes_append) simp
  ultimately show ?thesis using passes_trans by simp blast
qed

lemma link_run_inv:
  assumes "link_run F fuel m m' base T C P R W s0 r0 w0 s r w acc out" "link_ok F fuel m m' base T C P R W s0 r0 w0"
  shows "link_ok F fuel m m' base T C P R W s r w \<and> passes W (out @ pipeline m T R W s r w) (pipeline m T R W s0 r0 w0 @ acc)"
  using assms(1)
proof induction
  case lrun_start
  then show ?case using assms(2) by simp
next
  case (lrun_send s r w acc out data x s' w')
  then have "link_ok F fuel m m' base T C P R W s r w" by simp
  from link_send_step [OF this lrun_send.hyps(2-4)] show ?case
    using passes_after [OF conjunct2 [OF lrun_send.IH], of "[]"] by simp
next
  case (lrun_send_apply s r w acc out f len bytes x s' w')
  then have "link_ok F fuel m m' base T C P R W s r w" by simp
  from link_send_apply_step [where f = f, OF this lrun_send_apply.hyps(2-5)] show ?case
    using passes_after [OF conjunct2 [OF lrun_send_apply.IH], of "[]"] by simp
next
  case (lrun_recv s r w acc out pkt n pkt' r' w')
  then have "link_ok F fuel m m' base T C P R W s r w" by simp
  from link_recv_step [OF this lrun_recv.hyps(2-4)] show ?case
    using passes_after [OF conjunct2 [OF lrun_recv.IH], of _ _ "[]"] by simp
next
  case (lrun_kernel s r w acc out w')
  then have "link_ok F fuel m m' base T C P R W s r w" by simp
  from link_kernel_step [OF this lrun_kernel.hyps(2-4)] show ?case
    using passes_after [OF conjunct2 [OF lrun_kernel.IH], of "[]" _ "[]"] by simp
qed

end
