(* ===== verification/Loopback_Link.thy ===== *)
theory Loopback_Link
  imports Loopback_States Xsk_Link
begin

text \<open>
  The reference platform as a link. Its rings are separate and give buffers back in order. A variant,
  \<open>veth\<close>, carries a packet from the transmit ring to the receive ring at every wake-up, when there is
  one to carry and a buffer to put it in; it drops nothing.
\<close>

section \<open>Separate rings in order\<close>

lemma lb_separate: "separate_rings (loopback chk) lb_tq lb_cq lb_fq lb_rq m sz K (lb_T pr) (lb_C pr) (lb_P sz) (lb_R sz)"
  unfolding separate_rings_def
proof (intro conjI ballI allI impI)
  fix f and w :: "lb world"
  assume f: "f \<in> tx_calls (loopback chk) lb_tq lb_cq" and ok: "pv_ok (lb_P sz) w"
  have "mem (f w) = mem w \<and> fill_resvd (kern (f w)) = fill_resvd (kern w) \<and> fill_sent (kern (f w)) = fill_sent (kern w) \<and>
      rx_log (kern (f w)) = rx_log (kern w) \<and> rx_done (kern (f w)) = rx_done (kern w) \<and>
      rx_peeked (kern (f w)) = rx_peeked (kern w)"
    using f by (auto simp: tx_calls_def tx_ops_def comp_ops_def prod_ops_def cons_ops_def lb_sel lb_ops Let_def)
  then show "rx_calm m sz (lb_P sz) (lb_R sz) w (f w)"
    using ok by (simp add: rx_calm_def fill_same_def rx_same_def same_in_def lb_P_def lb_R_def lb_rx_ok_def)
next
  fix f and w :: "lb world"
  assume f: "f \<in> rx_calls (loopback chk) lb_fq lb_rq" and ok: "pv_ok (lb_T pr) w"
  have "mem (f w) = mem w \<and> prompt (kern (f w)) = prompt (kern w) \<and> tx_resvd (kern (f w)) = tx_resvd (kern w) \<and>
      tx_sent (kern (f w)) = tx_sent (kern w) \<and> tx_done (kern (f w)) = tx_done (kern w) \<and>
      tx_peeked (kern (f w)) = tx_peeked (kern w) \<and> tx_back (kern (f w)) = tx_back (kern w)"
    using f by (auto simp: rx_calls_def fill_ops_def rx_ops_def prod_ops_def cons_ops_def poll_ops_def lb_sel lb_ops Let_def
        split: if_splits)
  then show "tx_calm (lb_T pr) (lb_C pr) K w (f w)"
    using ok by (simp add: tx_calm_def tx_same_def comp_same_def same_on_def lb_T_def lb_C_def lb_tx_ok_def)
qed (simp_all add: lb_P_def lb_R_def)

lemma lb_in_order: "in_order sz (lb_P sz) (lb_R sz)"
proof -
  have "prefix (map f (take n xs)) (map f xs)" for f :: "xdp_desc \<Rightarrow> nat" and n xs
    by (simp add: take_is_prefix map_mono_prefix)
  then show ?thesis
    unfolding in_order_def lb_P_def lb_R_def lb_rx_ok_def by (auto intro: prefix_order.trans)
qed


section \<open>Definitions\<close>

text \<open>
  Carrying the first packet not yet carried: its bytes are copied from the frames of the sender, the
  first two of the area, to behind the headroom of the next buffer, one of the last two.
\<close>

definition veth_carry :: "nat \<Rightarrow> xdp_desc \<Rightarrow> lb world \<Rightarrow> lb world" where
  "veth_carry j d w =
     (let to = mem_ptr lb_area + j * 2048 + 256; k = kern w in
      w\<lparr>mem := (\<lambda>a. if to \<le> a \<and> a < to + unat (xd_len d) then mem w (mem_ptr lb_area + xd_addr d + (a - to)) else mem w a),
        kern := k\<lparr>tx_done := Suc (tx_done k),
          rx_log := rx_log k @ [\<lparr>xd_addr = j * 2048 + 256, xd_len = xd_len d, xd_options = 0\<rparr>],
          arrived := (arrived k)(length (rx_log k) := desc_data lb_area w d)\<rparr>\<rparr>)"

definition veth_fits :: "nat \<Rightarrow> xdp_desc \<Rightarrow> bool" where
  "veth_fits j d \<longleftrightarrow> xd_addr d + unat (xd_len d) \<le> 4096 \<and> unat (xd_len d) \<le> 1792 \<and> 2 \<le> j \<and> j < 4"

definition veth_deliver :: "lb world \<Rightarrow> lb world" where
  "veth_deliver w =
     (let k = kern w; d = tx_sent k ! tx_done k; j = fill_sent k ! length (rx_log k) div 2048 in
      if tx_done k < length (tx_sent k) \<and> length (rx_log k) < length (fill_sent k) \<and> veth_fits j d
      then veth_carry j d w else w)"

definition veth :: "bool \<Rightarrow> lb ffi" where
  "veth chk = (loopback chk)\<lparr>libc_sendto := (\<lambda>fd w. (0, veth_deliver w))\<rparr>"

definition veth_wire :: "lb wire" where
  "veth_wire = \<lparr>wi_lossless = True, wi_sent = (\<lambda>w. tx_done (kern w)),
     wi_log = (\<lambda>w. map (\<lambda>i. (rx_log (kern w) ! i, arrived (kern w) i)) [0..<length (rx_log (kern w))])\<rparr>"

definition veth_world :: "lb world" where
  "veth_world = \<lparr>mem = (\<lambda>_. 0), kern = (lb_kern False)\<lparr>fill_sent := [4096, 6144]\<rparr>\<rparr>"

section \<open>Everything but the wake-up is as on the reference platform\<close>

lemma veth_ops:
  "tx_ops (veth chk) q = tx_ops (loopback chk) q" "comp_ops (veth chk) cq = comp_ops (loopback chk) cq"
  "rx_calls (veth chk) fq rq = rx_calls (loopback chk) fq rq" "rx_ops (veth chk) rq = rx_ops (loopback chk) rq"
  "fill_ops (veth chk) fq = fill_ops (loopback chk) fq" "poll_ops (veth chk) = poll_ops (loopback chk)"
  by (simp_all add: veth_def tx_ops_def comp_ops_def rx_calls_def rx_ops_def fill_ops_def poll_ops_def prod_ops_def cons_ops_def)

lemma veth_contracts:
  "tx_contract (veth chk) q T = tx_contract (loopback chk) q T" "comp_contract (veth chk) cq C = comp_contract (loopback chk) cq C"
  "fill_contract (veth chk) fq P = fill_contract (loopback chk) fq P" "rx_contract (veth chk) rq R = rx_contract (loopback chk) rq R"
  "rx_poll_law (veth chk) P R = rx_poll_law (loopback chk) P R"
  by (simp_all add: veth_def tx_contract_def comp_contract_def fill_contract_def rx_contract_def prod_ring_def cons_ring_def
      reserve_law_def submit_law_def peek_law_def release_law_def rx_poll_law_def poll_law_def)

lemma veth_rx_platform:
  "rx_platform (veth chk) lb_fq lb_rq sz (lb_P sz) (lb_R sz)" "rx_memory (veth chk) lb_fq lb_rq m sz (lb_P sz) (lb_R sz)"
  using lb_rx_platform [of chk sz] lb_rx_memory [of chk m sz]
  by (simp_all add: rx_platform_def rx_memory_def veth_ops veth_contracts)

lemma veth_progress:
  "n \<le> lb_cap \<Longrightarrow> 0 < fuel \<Longrightarrow> tx_progress (veth chk) lb_tq (lb_T pr) n fuel"
  "n \<le> lb_cap \<Longrightarrow> 0 < fuel \<Longrightarrow> fill_progress (veth chk) lb_fq (lb_P sz) n fuel"
  unfolding tx_progress_def fill_progress_def by (auto simp: lb_T_def lb_P_def intro!: exI [of _ 0])

section \<open>The wake-up\<close>

lemma veth_deliver_cases:
  obtains (idle) "veth_deliver w = w"
  | (carry) j d where "veth_deliver w = veth_carry j d w" "d = tx_sent (kern w) ! tx_done (kern w)"
      "j = fill_sent (kern w) ! length (rx_log (kern w)) div 2048" "tx_done (kern w) < length (tx_sent (kern w))"
      "length (rx_log (kern w)) < length (fill_sent (kern w))" "veth_fits j d"
  unfolding veth_deliver_def Let_def by (metis (full_types))

lemma veth_carry_kern [simp]:
  "prompt (kern (veth_carry j d w)) = prompt (kern w)" "tx_resvd (kern (veth_carry j d w)) = tx_resvd (kern w)"
  "tx_sent (kern (veth_carry j d w)) = tx_sent (kern w)" "tx_back (kern (veth_carry j d w)) = tx_back (kern w)"
  "tx_peeked (kern (veth_carry j d w)) = tx_peeked (kern w)" "fill_resvd (kern (veth_carry j d w)) = fill_resvd (kern w)"
  "fill_sent (kern (veth_carry j d w)) = fill_sent (kern w)" "rx_peeked (kern (veth_carry j d w)) = rx_peeked (kern w)"
  "rx_done (kern (veth_carry j d w)) = rx_done (kern w)" "tx_done (kern (veth_carry j d w)) = Suc (tx_done (kern w))"
  "rx_log (kern (veth_carry j d w)) = rx_log (kern w) @ [\<lparr>xd_addr = j * 2048 + 256, xd_len = xd_len d, xd_options = 0\<rparr>]"
  "arrived (kern (veth_carry j d w)) = (arrived (kern w))(length (rx_log (kern w)) := desc_data lb_area w d)"
  by (simp_all add: veth_carry_def Let_def)

text \<open>It writes to the buffer only, and what it writes is the packet.\<close>

lemma veth_carry_mem:
  assumes "veth_fits j d" "a \<notin> chunk_bytes lb_area 2048 j"
  shows "mem (veth_carry j d w) a = mem w a"
  using assms by (auto simp: veth_carry_def Let_def veth_fits_def chunk_bytes_def)

lemma veth_carry_tx:
  assumes "veth_fits j d" "a < 8192"
  shows "mem (veth_carry j d w) a = mem w a"
proof (rule veth_carry_mem [OF assms(1)])
  have "2 * 2048 \<le> j * 2048" using assms(1) by (simp add: veth_fits_def)
  then show "a \<notin> chunk_bytes lb_area 2048 j" using assms(2) unfolding chunk_bytes_def by simp
qed

lemma veth_carry_data:
  assumes "veth_fits j d"
  shows "desc_data lb_area (veth_carry j d w) \<lparr>xd_addr = j * 2048 + 256, xd_len = xd_len d, xd_options = 0\<rparr> = desc_data lb_area w d"
  by (simp add: desc_data_def bytes_at_def veth_carry_def Let_def)

text \<open>The sender sees nothing but its packet gone.\<close>

lemma veth_deliver_tx:
  assumes "lb_tx_ok False (kern w)" "K \<subseteq> {..<8192}"
  shows "tx_calm (lb_T False) (lb_C False) K w (veth_deliver w)"
proof (cases rule: veth_deliver_cases [of w])
  case idle
  then show ?thesis using assms(1) by (simp add: tx_calm_def lb_T_def)
next
  case (carry j d)
  then have "same_on K w (veth_deliver w)" using assms(2) veth_carry_tx unfolding same_on_def by fastforce
  then show ?thesis using assms(1) carry by (simp add: tx_calm_def tx_same_def comp_same_def lb_T_def lb_C_def lb_tx_ok_def)
qed

lemma veth_tx_platform:
  assumes "K \<subseteq> {..<8192}"
  shows "tx_platform (veth chk) lb_tq lb_cq (lb_T False) (lb_C False) K"
proof -
  have "wakeup_law (veth chk) lb_tq (lb_T False) (lb_C False) K"
    using veth_deliver_tx [OF _ assms] by (simp add: wakeup_law_def veth_def tx_calm_def) (simp add: lb_T_def)
  then show ?thesis using lb_tx_platform [of chk False K] by (simp add: tx_platform_def veth_ops veth_contracts)
qed

text \<open>The receiver sees a packet in a buffer that was with the kernel.\<close>

lemma prefix_next:
  assumes "prefix (map f xs) (map g ys)" "length xs < length ys"
  obtains rest where "map g ys = map f xs @ g (ys ! length xs) # rest"
proof -
  have "take (length xs) (map g ys) = map f xs" using assms(1) by (auto simp: prefix_def)
  then have "map g (take (length xs) ys) = map f xs" by (simp add: take_map)
  then show ?thesis using that arg_cong [OF id_take_nth_drop [OF assms(2)], of "map g"] by simp
qed

lemma veth_buffer:
  assumes ok: "lb_rx_ok 2048 (kern w)" and free: "length (rx_log (kern w)) < length (fill_sent (kern w))"
  shows "fill_sent (kern w) ! length (rx_log (kern w)) div 2048 \<in> kernel_chunks 2048 (lb_P 2048) (lb_R 2048) w"
proof -
  let ?k = "kern w" and ?c = "map (\<lambda>a. a div 2048) (fill_sent (kern w))" and ?l = "map (\<lambda>d. xd_addr d div 2048) (rx_log (kern w))"
  let ?j = "fill_sent ?k ! length (rx_log ?k) div 2048"
  have "prefix ?l ?c" using ok by (simp add: lb_rx_ok_def)
  then obtain rest where rest: "?c = ?l @ ?j # rest" using free by (rule prefix_next)
  have "desc_chunks 2048 (take (rx_done ?k) (rx_log ?k)) \<subseteq># desc_chunks 2048 (rx_log ?k)"
    using desc_chunks_take_mono [of "rx_done ?k" "length (rx_log ?k)" 2048 "rx_log ?k"] ok by (simp add: lb_rx_ok_def)
  moreover have "image_mset (\<lambda>a. a div 2048) (mset (fill_sent ?k)) = desc_chunks 2048 (rx_log ?k) + mset (?j # rest)"
    unfolding desc_chunks_def using rest by (metis mset_append mset_map)
  ultimately have "mset (?j # rest) \<subseteq># image_mset (\<lambda>a. a div 2048) (mset (fill_sent ?k)) - desc_chunks 2048 (take (rx_done ?k) (rx_log ?k))"
    by (metis mset_subset_eq_add_right subset_mset.diff_add_assoc2)
  then show ?thesis unfolding kernel_chunks_lb by (rule mset_subset_eqD) simp
qed

lemma chunk_bytes_disjoint: "i \<noteq> j \<Longrightarrow> chunk_bytes m sz i \<inter> chunk_bytes m sz j = {}"
  using chunk_disjoint [of i j sz] chunk_disjoint [of j i sz] by (cases "i < j") (auto simp: chunk_bytes_def)

lemma veth_deliver_rx:
  assumes ok: "lb_rx_ok 2048 (kern w)"
  shows "rx_calm lb_area 2048 (lb_P 2048) (lb_R 2048) w (veth_deliver w)"
proof (cases rule: veth_deliver_cases [of w])
  case idle
  then show ?thesis using ok by (simp add: rx_calm_def lb_P_def fill_same_def rx_same_def same_in_def)
next
  case (carry j d)
  let ?k = "kern w"
  have "prefix (map (\<lambda>d. xd_addr d div 2048) (rx_log ?k)) (map (\<lambda>a. a div 2048) (fill_sent ?k))" using ok by (simp add: lb_rx_ok_def)
  from prefix_next [OF this carry(5)] obtain rest where
    "map (\<lambda>a. a div 2048) (fill_sent ?k) = map (\<lambda>d. xd_addr d div 2048) (rx_log ?k) @ j # rest" using carry(3) by blast
  then have "prefix (map (\<lambda>d. xd_addr d div 2048) (rx_log ?k) @ [j]) (map (\<lambda>a. a div 2048) (fill_sent ?k))" by simp
  then have ok': "lb_rx_ok 2048 (kern (veth_deliver w))"
    using ok carry(1,6) by (simp add: lb_rx_ok_def veth_fits_def)
  have "j \<in> kernel_chunks 2048 (lb_P 2048) (lb_R 2048) w" using veth_buffer [OF ok carry(5)] carry(3) by simp
  moreover have "mem (veth_carry j d w) a = mem w a" if "i \<noteq> j" "a \<in> chunk_bytes lb_area 2048 i" for i a
    using veth_carry_mem [OF carry(6)] that(2) chunk_bytes_disjoint [OF that(1)] by blast
  ultimately have "same_in lb_area 2048 (- kernel_chunks 2048 (lb_P 2048) (lb_R 2048) w) w (veth_deliver w)"
    unfolding same_in_def carry(1) by (metis ComplD)
  moreover have "rx_done ?k \<le> length (rx_log ?k)" using ok by (simp add: lb_rx_ok_def)
  ultimately show ?thesis using ok' carry(1) by (simp add: rx_calm_def fill_same_def rx_same_def lb_P_def lb_R_def)
qed

lemma veth_calls:
  assumes "f \<in> tx_calls (veth chk) lb_tq lb_cq \<union> rx_calls (veth chk) fq rq"
  obtains (ring) "f \<in> tx_calls (loopback chk) lb_tq lb_cq \<union> rx_calls (loopback chk) fq rq" | (wake) "f = veth_deliver"
  using assms unfolding veth_ops by (auto simp: tx_calls_def veth_ops) (simp add: veth_def)

lemma veth_separate:
  assumes "K \<subseteq> {..<8192}"
  shows "separate_rings (veth chk) lb_tq lb_cq lb_fq lb_rq lb_area 2048 K (lb_T False) (lb_C False) (lb_P 2048) (lb_R 2048)"
proof -
  note S = lb_separate [of chk lb_area 2048 K False]
  show ?thesis unfolding separate_rings_def veth_ops
  proof (intro conjI ballI allI impI)
    fix f and w :: "lb world" assume f: "f \<in> tx_calls (veth chk) lb_tq lb_cq" and ok: "pv_ok (lb_P 2048) w"
    have "f \<in> tx_calls (loopback chk) lb_tq lb_cq \<or> f = veth_deliver"
      using f by (auto simp: tx_calls_def veth_ops) (simp add: veth_def)
    then show "rx_calm lb_area 2048 (lb_P 2048) (lb_R 2048) w (f w)"
      using separate_ringsD(1) [OF S _ ok] veth_deliver_rx ok by (auto simp: lb_P_def)
  next
    fix f and w :: "lb world" assume "f \<in> rx_calls (loopback chk) lb_fq lb_rq" "pv_ok (lb_T False) w"
    then show "tx_calm (lb_T False) (lb_C False) K w (f w)" by (rule separate_ringsD(2) [OF S])
  qed (simp_all add: lb_P_def lb_R_def)
qed

section \<open>The link\<close>

text \<open>The calls on the rings, one by one.\<close>

lemma lb_tx_op:
  assumes "f \<in> tx_ops (loopback chk) lb_tq"
  shows "f w = w \<or> (\<exists>n \<le> lb_cap. f w = on_kern (tx_resvd_update (\<lambda>_. n)) w) \<or> (\<exists>g. f w = on_kern (tx_slots_update g) w) \<or>
    (\<exists>xs. f w = on_kern (\<lambda>k. k\<lparr>tx_sent := tx_sent k @ xs, tx_resvd := 0\<rparr>) w)"
proof -
  consider nb i where "f = (\<lambda>w. snd (lb_reserve 4 nb i w))" | i e where "f = lb_tx_desc 4 i e" | nb where "f = lb_submit 4 nb"
    using assms by (auto simp: tx_ops_def prod_ops_def lb_tq_def loopback_def)
  then show ?thesis by cases (auto simp: lb_reserve_def lb_tx_desc_def lb_submit_def on_kern_def not_less)
qed

lemma lb_fill_op:
  assumes "f \<in> fill_ops (loopback chk) lb_fq"
  shows "f w = w \<or> (\<exists>n \<le> lb_cap. f w = on_kern (fill_resvd_update (\<lambda>_. n)) w) \<or> (\<exists>g. f w = on_kern (fill_slots_update g) w) \<or>
    (\<exists>xs. f w = on_kern (\<lambda>k. k\<lparr>fill_sent := fill_sent k @ xs, fill_resvd := 0\<rparr>) w)"
proof -
  consider nb i where "f = (\<lambda>w. snd (lb_reserve 1 nb i w))" | i e where "f = lb_fill_addr 1 i e" | nb where "f = lb_submit 1 nb"
    using assms by (auto simp: fill_ops_def prod_ops_def lb_fq_def loopback_def)
  then show ?thesis by cases (auto simp: lb_reserve_def lb_fill_addr_def lb_submit_def on_kern_def not_less)
qed

lemma lb_cons_op:
  "f \<in> comp_ops (loopback chk) lb_cq \<Longrightarrow> (\<exists>n. f w = on_kern (tx_peeked_update (\<lambda>_. n)) w) \<or>
     (\<exists>n. f w = on_kern (\<lambda>k. k\<lparr>tx_back := tx_back k @ take n (tx_waiting k), tx_peeked := 0\<rparr>) w)"
  "f \<in> rx_ops (loopback chk) lb_rq \<Longrightarrow> (\<exists>n. f w = on_kern (rx_peeked_update (\<lambda>_. n)) w) \<or>
     (\<exists>n. f w = on_kern (\<lambda>k. k\<lparr>rx_done := rx_done k + min n (length (rx_waiting k)), rx_peeked := 0\<rparr>) w)"
  by (auto simp: comp_ops_def rx_ops_def cons_ops_def lb_cq_def lb_rq_def loopback_def lb_peek_def lb_release_def on_kern_def Let_def)

text \<open>They write to no buffer, carry nothing and keep what has arrived.\<close>

lemma lb_ring_call:
  assumes f: "f \<in> tx_calls (loopback chk) lb_tq lb_cq \<union> rx_calls (loopback chk) lb_fq lb_rq"
  shows "mem (f w) = mem w \<and> prefix (tx_sent (kern w)) (tx_sent (kern (f w))) \<and> tx_done (kern (f w)) = tx_done (kern w) \<and>
    rx_log (kern (f w)) = rx_log (kern w) \<and> arrived (kern (f w)) = arrived (kern w) \<and>
    rx_done (kern w) \<le> rx_done (kern (f w)) \<and> prefix (fill_sent (kern w)) (fill_sent (kern (f w))) \<and>
    (lb_tx_ok pr (kern w) \<longrightarrow> lb_tx_ok pr (kern (f w))) \<and> (lb_rx_ok sz (kern w) \<longrightarrow> lb_rx_ok sz (kern (f w)))"
proof -
  consider "f \<in> tx_ops (loopback chk) lb_tq" | "f \<in> comp_ops (loopback chk) lb_cq" | "f \<in> rx_ops (loopback chk) lb_rq"
    | "f \<in> fill_ops (loopback chk) lb_fq" | "f w = w"
    using f by (auto simp: tx_calls_def rx_calls_def poll_ops_def loopback_def)
  then show ?thesis
  proof cases
    case 1
    from lb_tx_op [OF this, of w] show ?thesis by (auto simp: on_kern_def lb_tx_ok_def lb_rx_ok_def intro: prefix_prefix)
  next
    case 2
    from lb_cons_op(1) [OF this, of w] show ?thesis using lb_tx_ok_release [of pr "kern w"]
      by (auto simp: on_kern_def lb_rx_ok_def) (auto simp: lb_tx_ok_def)
  next
    case 3
    from lb_cons_op(2) [OF this, of w] show ?thesis by (auto simp: on_kern_def lb_tx_ok_def lb_rx_ok_def rx_waiting_def)
  next
    case 4
    from lb_fill_op [OF this, of w] show ?thesis by (auto simp: on_kern_def lb_tx_ok_def lb_rx_ok_def intro: prefix_prefix)
  qed simp
qed

lemma veth_log_length [simp]: "length (wi_log veth_wire w) = length (rx_log (kern w))" "map fst (wi_log veth_wire w) = rx_log (kern w)"
  by (simp_all add: veth_wire_def o_def map_nth)

lemma desc_chunks_append: "desc_chunks sz (xs @ ys) = desc_chunks sz xs + desc_chunks sz ys"
  by (simp add: desc_chunks_def)

text \<open>A chunk leaves the kernel only when a descriptor of it is taken.\<close>

lemma lb_chunk_taken:
  assumes log: "rx_log (kern w') = rx_log (kern w)" and le: "rx_done (kern w) \<le> rx_done (kern w')"
    and fill: "prefix (fill_sent (kern w)) (fill_sent (kern w'))"
    and j: "j \<in> kernel_chunks sz (lb_P sz) (lb_R sz) w" "j \<notin> kernel_chunks sz (lb_P sz) (lb_R sz) w'"
  obtains k where "rx_done (kern w) \<le> k" "k < length (rx_log (kern w))" "xd_addr (rx_log (kern w) ! k) div sz = j"
proof -
  let ?l = "rx_log (kern w)" and ?a = "rx_done (kern w)" and ?b = "rx_done (kern w')"
  let ?mid = "take (?b - ?a) (drop ?a ?l)"
  have split: "take ?b ?l = take ?a ?l @ ?mid" using le by (metis le_add_diff_inverse take_add)
  have "j \<in># desc_chunks sz ?mid"
  proof (rule ccontr)
    assume "j \<notin># desc_chunks sz ?mid"
    then have "count (desc_chunks sz (take ?b ?l)) j = count (desc_chunks sz (take ?a ?l)) j"
      unfolding split desc_chunks_append by (simp add: not_in_iff)
    moreover have "count (image_mset (\<lambda>a. a div sz) (mset (fill_sent (kern w)))) j \<le>
        count (image_mset (\<lambda>a. a div sz) (mset (fill_sent (kern w')))) j"
      using fill by (auto simp: prefix_def)
    ultimately show False using j unfolding kernel_chunks_lb log by (simp add: in_diff_count)
  qed
  then obtain d where d: "d \<in> set ?mid" "xd_addr d div sz = j" by (auto simp: desc_chunks_def)
  then obtain i where i: "i < length ?mid" "d = ?mid ! i" by (metis in_set_conv_nth)
  show ?thesis by (rule that [of "?a + i"]) (use i d(2) in auto)
qed

lemma lb_landed:
  assumes log: "rx_log (kern w') = rx_log (kern w)" "arrived (kern w') = arrived (kern w)" "mem w' = mem w"
    and le: "rx_done (kern w) \<le> rx_done (kern w')" "rx_done (kern w) \<le> length (rx_log (kern w))"
      "rx_done (kern w') \<le> length (rx_log (kern w))"
    and fill: "prefix (fill_sent (kern w)) (fill_sent (kern w'))"
    and land: "landed m sz J (lb_P sz) (lb_R sz) veth_wire w"
  shows "landed m sz J (lb_P sz) (lb_R sz) veth_wire w'"
  unfolding landed_def
proof (intro allI impI)
  fix i assume i: "i < length (wi_log veth_wire w')" and un: "unspoilt sz J (lb_P sz) (lb_R sz) (map fst (wi_log veth_wire w')) w' i"
  have taken: "length (cv_taken (lb_R sz) w) = rx_done (kern w)" "length (cv_taken (lb_R sz) w') = rx_done (kern w')"
    using le log(1) by (simp_all add: lb_R_def)
  have wire: "wi_log veth_wire w' = wi_log veth_wire w" using log by (simp add: veth_wire_def)
  have "unspoilt sz J (lb_P sz) (lb_R sz) (map fst (wi_log veth_wire w)) w i"
  proof -
    let ?j = "xd_addr (rx_log (kern w) ! i) div sz"
    have "?j \<notin> kernel_chunks sz (lb_P sz) (lb_R sz) w" if d: "i < rx_done (kern w)"
    proof
      assume j: "?j \<in> kernel_chunks sz (lb_P sz) (lb_R sz) w"
      have "?j \<notin> kernel_chunks sz (lb_P sz) (lb_R sz) w'"
        using un d le(1) unfolding unspoilt_def Let_def veth_log_length log(1) taken by simp
      from lb_chunk_taken [OF log(1) le(1) fill j this] obtain k where
        "rx_done (kern w) \<le> k" "k < length (rx_log (kern w))" "xd_addr (rx_log (kern w) ! k) div sz = ?j" .
      then show False using un d unfolding unspoilt_def Let_def veth_log_length log(1) by auto
    qed
    then show ?thesis using un unfolding unspoilt_def Let_def veth_log_length log(1) taken by blast
  qed
  then have "desc_data m w (fst (wi_log veth_wire w ! i)) = snd (wi_log veth_wire w ! i)"
    using land i wire unfolding landed_def by metis
  moreover have "desc_data m w' d = desc_data m w d" for d using log(3) by (simp add: desc_data_def bytes_at_def)
  ultimately show "desc_data m w' (fst (wi_log veth_wire w' ! i)) = snd (wi_log veth_wire w' ! i)" unfolding wire by simp
qed

lemma veth_carry_log:
  "wi_log veth_wire (veth_carry j d w) =
     wi_log veth_wire w @ [(\<lparr>xd_addr = j * 2048 + 256, xd_len = xd_len d, xd_options = 0\<rparr>, desc_data lb_area w d)]"
  by (simp add: veth_wire_def nth_append)

lemma veth_carry_landed:
  assumes fits: "veth_fits j d" and land: "landed lb_area 2048 J (lb_P 2048) (lb_R 2048) veth_wire w"
    and le: "rx_done (kern w) \<le> length (rx_log (kern w))"
  shows "landed lb_area 2048 J (lb_P 2048) (lb_R 2048) veth_wire (veth_carry j d w)"
  unfolding landed_def
proof (intro allI impI)
  let ?w = "veth_carry j d w" and ?l = "rx_log (kern w)" and ?L = "wi_log veth_wire w"
  fix i assume i: "i < length (wi_log veth_wire ?w)"
    and un: "unspoilt 2048 J (lb_P 2048) (lb_R 2048) (map fst (wi_log veth_wire ?w)) ?w i"
  show "desc_data lb_area ?w (fst (wi_log veth_wire ?w ! i)) = snd (wi_log veth_wire ?w ! i)"
  proof (cases "i < length ?l")
    case True
    have "kernel_chunks 2048 (lb_P 2048) (lb_R 2048) ?w = kernel_chunks 2048 (lb_P 2048) (lb_R 2048) w"
      using le by (simp add: kernel_chunks_lb)
    moreover have "cv_taken (lb_R 2048) ?w = cv_taken (lb_R 2048) w" using le by (simp add: lb_R_def)
    ultimately have U: "unspoilt 2048 J (lb_P 2048) (lb_R 2048) ?l w i" and ne: "xd_addr (?l ! i) div 2048 \<noteq> j"
      using un True unfolding unspoilt_def Let_def veth_log_length by (auto simp: nth_append)
    have at: "wi_log veth_wire ?w ! i = ?L ! i" "fst (?L ! i) = ?l ! i"
      using True veth_log_length(2) [of w] by (simp_all add: veth_carry_log nth_append del: veth_log_length(2)) (metis nth_map veth_log_length(1))
    have "mem ?w a = mem w a" if "a \<in> chunk_bytes lb_area 2048 (xd_addr (?l ! i) div 2048)" for a
      using veth_carry_mem [OF fits] that chunk_bytes_disjoint [OF ne] by blast
    moreover have "xd_addr (?l ! i) mod 2048 + unat (xd_len (?l ! i)) \<le> 2048" using U by (simp add: unspoilt_def Let_def)
    ultimately have "desc_data lb_area ?w (?l ! i) = desc_data lb_area w (?l ! i)"
      using desc_data_cong [OF desc_in_chunk] by blast
    moreover have "desc_data lb_area w (fst (?L ! i)) = snd (?L ! i)" using land True U by (simp add: landed_def)
    ultimately show ?thesis using at by simp
  next
    case False
    then have "i = length ?l" using i by simp
    then show ?thesis using veth_carry_data [OF fits, of w] by (simp add: veth_carry_log nth_append)
  qed
qed

lemma veth_step:
  assumes f: "f \<in> tx_calls (veth chk) lb_tq lb_cq \<union> rx_calls (veth chk) lb_fq lb_rq"
    and ok: "pv_ok (lb_T False) w" "pv_ok (lb_P 2048) w"
  shows "wire_step lb_area lb_area 2048 J (lb_T False) (lb_P 2048) (lb_R 2048) veth_wire w (f w)"
proof -
  have le: "tx_done (kern w) \<le> length (tx_sent (kern w))" "rx_done (kern w) \<le> length (rx_log (kern w))"
    using ok by (simp_all add: lb_T_def lb_P_def lb_tx_ok_def lb_rx_ok_def)
  from f show ?thesis
  proof (cases rule: veth_calls)
    case ring
    note E = lb_ring_call [OF ring, of w False 2048]
    have "lb_rx_ok 2048 (kern (f w))" using E ok(2) by (simp add: lb_P_def)
    then have "rx_done (kern (f w)) \<le> length (rx_log (kern w))" using E by (simp add: lb_rx_ok_def)
    then have "landed lb_area 2048 J (lb_P 2048) (lb_R 2048) veth_wire w \<Longrightarrow> landed lb_area 2048 J (lb_P 2048) (lb_R 2048) veth_wire (f w)"
      using lb_landed [of "f w" w lb_area 2048 J] E le(2) by blast
    moreover have "carried veth_wire lb_area (lb_T False) w (f w)"
      using E le(1) prefix_length_le [of "tx_sent (kern w)"] by (auto simp: carried_def veth_wire_def lb_T_def dest: order.trans)
    ultimately show ?thesis using E ok by (simp add: wire_step_def lb_T_def lb_P_def)
  next
    case wake
    have calm: "tx_calm (lb_T False) (lb_C False) {..<8192} w (f w)" "rx_calm lb_area 2048 (lb_P 2048) (lb_R 2048) w (f w)"
      using veth_deliver_tx [of w "{..<8192}"] veth_deliver_rx [of w] ok wake by (simp_all add: lb_T_def lb_P_def)
    show ?thesis
    proof (cases rule: veth_deliver_cases [of w])
      case idle
      then show ?thesis using wake ok le by (simp add: wire_step_def carried_def)
        (auto simp: veth_wire_def lb_T_def passes_def)
    next
      case (carry j d)
      have in_tx: "desc_in lb_area {..<8192} d" using carry(6) by (auto simp: desc_in_def veth_fits_def)
      have "\<forall>a \<in> {..<8192}. mem (veth_carry j d w) a = mem w a" using veth_carry_tx [OF carry(6)] by simp
      from desc_data_cong [OF in_tx this] have data: "desc_data lb_area (veth_carry j d w) d = desc_data lb_area w d" .
      have "drop (tx_done (kern w)) (tx_sent (kern w)) = d # drop (Suc (tx_done (kern w))) (tx_sent (kern w))"
        using carry(2,4) by (simp add: Cons_nth_drop_Suc)
      then have "carried veth_wire lb_area (lb_T False) w (veth_carry j d w)"
        using carry(4) data veth_carry_log [of j d w] by (simp add: carried_def lb_T_def) (simp add: veth_wire_def passes_def)
      then show ?thesis
        using carry(1) wake calm veth_carry_landed [OF carry(6) _ le(2)] by (simp add: wire_step_def tx_calm_def rx_calm_def)
    qed
  qed
qed

lemma veth_wire_law:
  "wire_law (veth chk) lb_tq lb_cq lb_fq lb_rq lb_area lb_area 2048 J (lb_T False) (lb_C False) (lb_P 2048) (lb_R 2048) veth_wire"
  unfolding wire_law_def
proof (intro conjI allI ballI impI)
  fix w :: "lb world" assume ok: "pv_ok (lb_T False) w"
  let ?k = "kern w"
  have k: "lb_tx_ok False ?k" using ok by (simp add: lb_T_def)
  have "length (tx_back ?k @ tx_waiting ?k) \<le> tx_done ?k"
  proof -
    have "length (tx_waiting ?k) \<le> tx_done ?k - length (tx_back ?k)" "length (tx_back ?k) \<le> tx_done ?k"
      using k by (simp_all add: lb_tx_ok_def tx_waiting_def Let_def)
    then show ?thesis by simp
  qed
  then have "prefix (tx_back ?k @ tx_waiting ?k) (take (tx_done ?k) (map xd_addr (tx_sent ?k)))"
    using tx_waiting_prefix [OF k] by (auto simp: prefix_def)
  then have "mset (tx_back ?k @ tx_waiting ?k) \<subseteq># mset (map xd_addr (take (tx_done ?k) (tx_sent ?k)))"
    by (auto simp: prefix_def take_map simp flip: mset_map)
  then show "mset (cv_taken (lb_C False) w) + mset (cv_pend (lb_C False) w) \<subseteq>#
      image_mset xd_addr (mset (take (wi_sent veth_wire w) (pv_subm (lb_T False) w)))"
    by (simp add: lb_C_def lb_T_def veth_wire_def)
next
  fix w :: "lb world" assume ok: "pv_ok (lb_P 2048) w"
  show "prefix (cv_taken (lb_R 2048) w) (map fst (wi_log veth_wire w))" by (simp add: lb_R_def take_is_prefix)
  show "desc_chunks 2048 (map fst (wi_log veth_wire w)) \<subseteq># fill_chunks 2048 (lb_P 2048) w"
    using lb_log_chunks [of 2048 "kern w"] ok by (simp add: fill_chunks_def lb_P_def)
next
  fix f and w :: "lb world"
  assume "f \<in> tx_calls (veth chk) lb_tq lb_cq \<union> rx_calls (veth chk) lb_fq lb_rq" "pv_ok (lb_T False) w" "pv_ok (lb_P 2048) w"
  then show "wire_step lb_area lb_area 2048 J (lb_T False) (lb_P 2048) (lb_R 2048) veth_wire w (f w)" by (rule veth_step)
qed (simp_all add: veth_wire_def)

section \<open>A sender and a receiver on the link\<close>

lemma veth_rx_ok: "rx_fifo_ok (veth True) 1 lb_area 2 (lb_P 2048) (lb_R 2048) lb_rx veth_world" "rx_queue lb_rx veth_world = []"
proof -
  have sz: "unat (rx_frame_size lb_rx) = 2048" "length (rx_frames lb_rx) = 2" by (simp_all add: lb_rx_def)
  have "rx_linked (lb_P 2048) (lb_R 2048) 2 lb_rx veth_world"
    by (simp add: rx_linked_def sz lent_lb_rx fill_chunks_def desc_chunks_def lb_P_def lb_R_def veth_world_def
        lb_kern_def lb_rx_ok_def lb_cap_def)
  moreover have "rx_cyclic (lb_P 2048) (lb_R 2048) 2 lb_rx veth_world"
    using lent_lb_rx(2)
    by (simp add: rx_cyclic_def lb_P_def lb_R_def veth_world_def lb_kern_def Let_def) (simp add: lb_rx_def upt_rec)
  moreover have "fill_progress (veth True) lb_fq (lb_P 2048) 2 1" by (rule veth_progress) (simp_all add: lb_cap_def)
  ultimately show "rx_fifo_ok (veth True) 1 lb_area 2 (lb_P 2048) (lb_R 2048) lb_rx veth_world"
    using veth_rx_platform lb_in_order lb_rx_inv(1) by (simp add: rx_fifo_ok_def sz)
  show "rx_queue lb_rx veth_world = []" by (simp add: rx_queue_def lb_rx_def)
qed

lemma veth_link_ok:
  "link_ok (veth True) 1 lb_area lb_area 2 (lb_T False) (lb_C False) (lb_P 2048) (lb_R 2048) veth_wire (lb_tx False 1) lb_rx veth_world"
proof -
  have sz: "unat (rx_frame_size lb_rx) = 2048" "length (rx_frames lb_rx) = 2" by (simp_all add: lb_rx_def)
  have K: "tx_bytes lb_area (lb_tx False b) = {4096..<8192}" for b by (simp add: tx_bytes_def)
  have "tx_linked (lb_T False) (lb_C False) (lb_tx False 1) veth_world" "tx_descs (lb_T False) (lb_tx False 1) veth_world"
    by (simp_all add: tx_linked_def tx_descs_def lb_T_def lb_C_def lb_tx_ok_def veth_world_def lb_kern_def)
  moreover have "\<forall>j \<in> (+) 2 ` {..<2 :: nat}. {4096..<8192} \<inter> chunk_bytes lb_area 2048 j = {}"
    by (auto simp: chunk_bytes_def)
  moreover have "landed lb_area 2048 J (lb_P 2048) (lb_R 2048) veth_wire veth_world" "wi_sent veth_wire veth_world = 0" for J
    by (simp_all add: landed_def veth_wire_def veth_world_def lb_kern_def)
  moreover have "tx_progress (veth True) lb_tq (lb_T False) 1 1" by (rule veth_progress) (simp_all add: lb_cap_def)
  moreover have "{4096..<8192} \<subseteq> {..<8192 :: nat}" by auto
  ultimately show ?thesis
    using veth_tx_platform [of "{4096..<8192}"] veth_separate [of "{4096..<8192}"] lb_tx_inv [of 1] veth_rx_ok(1) veth_wire_law
    by (simp add: link_ok_def Let_def sz K)
qed

text \<open>One packet goes all the way.\<close>

lemmas veth_send_run = send_def complete_frames_def CompQueue_consume_def update_tx_frames_def write_to_umem_checked_def
  is_data_valid_def write_to_umem_def mem_range_mut_def region_store_def advance_def put_batch_on_tx_queue_def batch_range_def
  map_range_def TxQueue_produce_and_wakeup_def TxQueue_produce_def TxQueue_needs_wakeup_def TxQueue_wakeup_def tx_entry_def
  tx_waiting_def TxStats_new_def lb_world_def

lemma veth_send_one:
  "\<exists>s w. send (veth True) 1 (lb_tx False 1) [1, 2, 3] veth_world = Ret (Inr (), s, w) \<and>
     rx_log (kern w) = [\<lparr>xd_addr = 4352, xd_len = 3, xd_options = 0\<rparr>] \<and> fill_sent (kern w) = [4096, 6144] \<and>
     rx_done (kern w) = 0 \<and> fill_resvd (kern w) = 0 \<and> mem w 8448 = 1 \<and> mem w 8449 = 2 \<and> mem w 8450 = 3"
  by (simp add: lb_tx_def XskTx_new_def umem_frames_def veth_world_def veth_def veth_send_run lb_recv_run veth_deliver_def
      veth_fits_def veth_carry_def)

lemma veth_recv_one:
  assumes "rx_log (kern w) = [\<lparr>xd_addr = 4352, xd_len = 3, xd_options = 0\<rparr>]" "fill_sent (kern w) = [4096, 6144]"
    "rx_done (kern w) = 0" "fill_resvd (kern w) = 0" "mem w 8448 = 1" "mem w 8449 = 2" "mem w 8450 = 3"
  shows "\<exists>r w'. recv (veth True) 1 lb_rx (replicate 2048 0) w = Ret (3, [1, 2, 3] @ replicate 2045 0, r, w') \<and>
     pkts_rx_delivered (rx_stats r) = 1"
  using assms by (simp add: lb_rx_def veth_def lb_recv_run)

end
