(* ===== verification/Rx_Props.thy ===== *)
theory Rx_Props
  imports Loopback_Link Xsk_Rx_Cases Xsk_Rx_Fifo
begin

text \<open>
  The properties of the receive end (\<^verbatim>\<open>src/src/xsk/rx.rs\<close>), each with a concrete
  instance on the reference platform.
\<close>

section \<open>Receiving into a buffer\<close>

text \<open>
  C7: On a well-formed receive end whose platform keeps its contract, \<open>recv\<close> with a buffer as
  large as a frame always returns (no panic, no access outside the UMEM, no endless loop) and keeps
  the invariant: every frame is either held by the program and marked \<open>Filled\<close>, or its chunk is
  with the kernel exactly once; and the counters agree with the frames.
\<close>

theorem recv_total:
  assumes "rx_ready F P R m base fuel s w" "unat (rx_frame_size s) \<le> length pkt"
  shows "\<exists>n pkt' s' w'. recv F fuel s pkt w = Ret (n, pkt', s', w') \<and> rx_inv m base s' \<and>
    rx_linked P R base s' w' \<and> length pkt' = length pkt"
  using assms
proof (cases rule: recv_outcome)
  case (deliver q ds w1 fd w' f)
  have inv: "rx_inv m base s" using assms(1) by (simp add: rx_ready_def)
  then have "rx_cursor s < length (rx_frames s)" by (simp add: rx_inv_def rx_core_def)
  then have "rx_frame_ok m (unat (rx_frame_size s)) (base + rx_cursor s) f"
    using rx_inv_frame [OF taken_in_inv [OF deliver(1) inv], of "rx_cursor s" q] deliver(4) by simp
  then have "frame_len f \<le> length pkt" using assms(2) by (simp add: rx_frame_ok_def)
  then show ?thesis using deliver(6-8) by (simp add: frame_data_def)
qed auto

theorem recv_total_witness:
  "\<exists>n pkt' s' w'. recv (loopback True) 1 lb_rx (replicate 2048 0) lb_rx_world = Ret (n, pkt', s', w') \<and>
     rx_inv lb_area 2 s' \<and> rx_linked (lb_P 2048) (lb_R 2048) 2 s' w' \<and> length pkt' = 2048"
proof -
  have "rx_ready (loopback True) (lb_P 2048) (lb_R 2048) lb_area 2 1 lb_rx lb_rx_world" by (simp add: lb_rx_ready)
  moreover have "unat (rx_frame_size lb_rx) \<le> length (replicate 2048 (0 :: u8))" by (simp add: lb_rx_def)
  ultimately show ?thesis using recv_total by (metis length_replicate)
qed

text \<open>
  C10: A packet the program holds at the cursor is delivered by the next \<open>recv\<close>, whatever the
  kernel does meanwhile: the length and the bytes are those in memory before the call, the rest of
  the buffer is untouched, the cursor moves to the next frame and the frame is no longer held.
\<close>

theorem recv_delivers_held:
  assumes "rx_ready F P R m base fuel s w" "unat (rx_frame_size s) \<le> length pkt"
    and "rx_cursor s \<in> filled (rx_frames s)"
  shows "\<exists>s' w'. recv F fuel s pkt w =
      Ret (frame_len (rx_frames s ! rx_cursor s),
           frame_data w (rx_frames s ! rx_cursor s) @ drop (frame_len (rx_frames s ! rx_cursor s)) pkt, s', w') \<and>
    rx_cursor s' = Suc (rx_cursor s) mod length (rx_frames s) \<and>
    pkts_rx_delivered (rx_stats s') = pkts_rx_delivered (rx_stats s) + 1 \<and>
    rx_cursor s \<notin> filled (rx_frames s')"
proof -
  have inv: "rx_inv m base s" "rx_core m base s" using assms(1) by (simp_all add: rx_ready_def rx_inv_def)
  have c: "rx_cursor s < length (rx_frames s)" "frame_status (rx_frames s ! rx_cursor s) = Filled"
    using assms(3) by (simp_all add: filled_def)
  show ?thesis
    using assms(1,2)
  proof (cases rule: recv_outcome)
    case (deliver q ds w1 fd w' f)
    have f: "f = rx_frames s ! rx_cursor s" using held_frame [OF deliver(1) inv(2) assms(3)] deliver(4) by simp
    have "frame_data w1 f = frame_data w f"
      using held_data [OF rx_inv_frame [OF inv(1) c(1)] _ deliver(3)] assms(3) f by simp
    then show ?thesis using deliver(6) c(1) f by (simp add: delivered_def filled_def)
  next
    case (none q ds w1)
    then show ?thesis using held_frame [OF none(1) inv(2) assms(3), of q] c(2) by simp
  qed
qed

theorem recv_delivers_held_witness:
  "\<exists>s' w'. recv (loopback True) 1 lb_rx_held (replicate 2048 0) lb_held_world =
     Ret (3, [7, 7, 7] @ replicate 2045 0, s', w') \<and> rx_cursor s' = 1"
proof -
  have "rx_ready (loopback True) (lb_P 2048) (lb_R 2048) lb_area 2 1 lb_rx_held lb_held_world" by (simp add: lb_rx_ready)
  moreover have "unat (rx_frame_size lb_rx_held) \<le> length (replicate 2048 (0 :: u8))"
    by (simp add: lb_rx_held_def lb_rx_def)
  moreover have "rx_cursor lb_rx_held \<in> filled (rx_frames lb_rx_held)"
    using lent_lb_rx(4) by (simp add: lb_rx_held_def lb_rx_def)
  moreover have "rx_cursor lb_rx_held = 0" "length (rx_frames lb_rx_held) = 2" "frame_len (rx_frames lb_rx_held ! 0) = 3"
      "frame_data lb_held_world (rx_frames lb_rx_held ! 0) = [7, 7, 7]"
    by (simp_all add: lb_rx_held_def lb_rx_def lb_held_world_def frame_data_def bytes_at_def upt_rec)
  ultimately show ?thesis
    using recv_delivers_held [of "loopback True" "lb_P 2048" "lb_R 2048" lb_area 2 1 lb_rx_held lb_held_world "replicate 2048 0"]
    by auto
qed

text \<open>
  When the program holds no packet at the cursor, \<open>recv\<close> either takes descriptors off the
  ring one of which belongs to the frame at the cursor, and delivers the bytes that descriptor names,
  or returns 0 and leaves the buffer and the cursor as they are.
\<close>

theorem recv_delivers_new:
  assumes "rx_ready F P R m base fuel s w" "unat (rx_frame_size s) \<le> length pkt"
    and "rx_cursor s \<notin> filled (rx_frames s)"
  shows "\<exists>n pkt' s' w' w1 ds. recv F fuel s pkt w = Ret (n, pkt', s', w') \<and> cv_taken R w1 = cv_taken R w @ ds \<and>
    ((\<exists>d \<in> set ds. xd_addr d div unat (rx_frame_size s) = base + rx_cursor s \<and> n = unat (xd_len d) \<and>
        pkt' = desc_data m w1 d @ drop n pkt \<and> rx_cursor s' = Suc (rx_cursor s) mod length (rx_frames s)) \<or>
     n = 0 \<and> pkt' = pkt \<and> rx_cursor s' = rx_cursor s)"
proof -
  let ?sz = "unat (rx_frame_size s)"
  have inv: "rx_inv m base s" "rx_core m base s" using assms(1) by (simp_all add: rx_ready_def rx_inv_def)
  have c: "rx_cursor s < length (rx_frames s)" using inv(2) by (simp add: rx_core_def)
  show ?thesis
    using assms(1,2)
  proof (cases rule: recv_outcome)
    case (deliver q ds w1 fd w' f)
    note G = rx_gotD [OF deliver(1) inv(2)]
    have "rx_cursor s \<in> fst ` set (tagged base ?sz ds)"
    proof (rule ccontr)
      assume "rx_cursor s \<notin> fst ` set (tagged base ?sz ds)"
      from place_other [OF this] show False using deliver(4,5) assms(3) c by (simp add: filled_def)
    qed
    then obtain d where d: "(rx_cursor s, d) \<in> set (tagged base ?sz ds)" by force
    then have f: "f = (set_desc (rx_entry d) (rx_frames s ! rx_cursor s))\<lparr>frame_status := Filled\<rparr>"
      using place_nth [OF G(1) d c, of "frame_status_update (\<lambda>_. Filled)"] deliver(4) by simp
    have fields: "frame_len f = unat (xd_len d)" "frame_addr f = xd_addr d" "frame_mmap f = m"
      using f rx_inv_frame [OF inv(1) c]
      by (simp_all add: set_desc_def rx_entry_def set_defs as_usize_def rx_frame_ok_def)
    have "d \<in> set ds" using d by (auto simp: tagged_def)
    moreover have "xd_addr d div ?sz = base + rx_cursor s" using G(3) d by (auto simp: desc_fits_def)
    moreover have "frame_data w1 f = desc_data m w1 d" using fields by (simp add: frame_data_def desc_data_def)
    moreover have "rx_cursor (delivered fd (taken_in base q ds s)) = Suc (rx_cursor s) mod length (rx_frames s)"
      by (simp add: delivered_def)
    ultimately show ?thesis using deliver(2,6) fields(1) by metis
  next
    case (none q ds w1)
    then show ?thesis by (metis taken_in_simps(2))
  qed
qed

theorem recv_delivers_new_witness:
  "\<exists>n pkt' s' w' w1 ds. recv (loopback True) 1 lb_rx (replicate 2048 0) lb_rx_world = Ret (n, pkt', s', w') \<and>
     cv_taken (lb_R 2048) w1 = ds \<and>
     ((\<exists>d \<in> set ds. xd_addr d div 2048 = 2 \<and> n = unat (xd_len d) \<and>
         pkt' = desc_data lb_area w1 d @ drop n (replicate 2048 0) \<and> rx_cursor s' = 1) \<or>
      n = 0 \<and> pkt' = replicate 2048 0 \<and> rx_cursor s' = 0)"
proof -
  have "rx_ready (loopback True) (lb_P 2048) (lb_R 2048) lb_area 2 1 lb_rx lb_rx_world" by (simp add: lb_rx_ready)
  moreover have "unat (rx_frame_size lb_rx) = 2048" "rx_cursor lb_rx = 0" "length (rx_frames lb_rx) = 2"
    by (simp_all add: lb_rx_def)
  moreover have "cv_taken (lb_R 2048) lb_rx_world = []" by (simp add: lb_R_def lb_rx_world_def lb_kern_def)
  ultimately show ?thesis
    using recv_delivers_new [of "loopback True" "lb_P 2048" "lb_R 2048" lb_area 2 1 lb_rx lb_rx_world "replicate 2048 0"]
      lent_lb_rx(2) by simp
qed

text \<open>
  C11: Packets held for later are safe: a frame the program holds beside the one at the cursor is
  still held after \<open>recv\<close>, with the same descriptor and the same bytes.
\<close>

theorem recv_keeps_held:
  assumes "rx_ready F P R m base fuel s w" "unat (rx_frame_size s) \<le> length pkt"
    and "recv F fuel s pkt w = Ret (n, pkt', s', w')" "i \<in> filled (rx_frames s)" "i \<noteq> rx_cursor s"
  shows "rx_frames s' ! i = rx_frames s ! i \<and> frame_data w' (rx_frames s ! i) = frame_data w (rx_frames s ! i)"
proof -
  have inv: "rx_inv m base s" "rx_core m base s" using assms(1) by (simp_all add: rx_ready_def rx_inv_def)
  have i: "i < length (rx_frames s)" using assms(4) by (simp add: filled_def)
  note ok = rx_inv_frame [OF inv(1) i]
  show ?thesis
    using assms(1,2)
  proof (cases rule: recv_outcome)
    case (deliver q ds w1 fd w2 f)
    have st: "rx_frames (taken_in base q ds s) ! i = rx_frames s ! i"
      using held_frame [OF deliver(1) inv(2) assms(4)] .
    then have "i \<in> filled (rx_frames (taken_in base q ds s))" using assms(4) by (simp add: filled_def)
    then have "frame_data w2 (rx_frames s ! i) = frame_data w1 (rx_frames s ! i)"
      using held_data [OF ok _ deliver(9)] assms(5) by blast
    moreover have "frame_data w1 (rx_frames s ! i) = frame_data w (rx_frames s ! i)"
      using held_data [OF ok _ deliver(3)] assms(4) by blast
    moreover have "rx_frames s' ! i = rx_frames s ! i" "w' = w2"
      using assms(3,5) deliver(6) st by (auto simp: delivered_def)
    ultimately show ?thesis by simp
  next
    case (none q ds w1)
    then show ?thesis
      using held_frame [OF none(1) inv(2) assms(4), of q] held_data [OF ok _ none(3)] assms(3,4) by auto
  qed
qed

theorem recv_keeps_held_witness:
  "\<exists>n pkt' s' w'. recv (loopback True) 1 (lb_rx_held\<lparr>rx_cursor := 1\<rparr>) (replicate 2048 0) lb_held_world = Ret (n, pkt', s', w') \<and>
     frame_data w' (rx_frames s' ! 0) = [7, 7, 7]"
proof -
  let ?s = "lb_rx_held\<lparr>rx_cursor := 1\<rparr>"
  have ready: "rx_ready (loopback True) (lb_P 2048) (lb_R 2048) lb_area 2 1 ?s lb_held_world"
    using lb_rx_ready(2) [of 1] lent_lb_rx(3)
    by (simp add: rx_ready_def rx_inv_def rx_core_def rx_linked_def rx_counts_def) (simp add: lb_rx_held_def lb_rx_def)
  have len: "unat (rx_frame_size ?s) \<le> length (replicate 2048 (0 :: u8))" by (simp add: lb_rx_held_def lb_rx_def)
  obtain n pkt' s' w' where run: "recv (loopback True) 1 ?s (replicate 2048 0) lb_held_world = Ret (n, pkt', s', w')"
    using ready len by (cases rule: recv_outcome) blast+
  have "0 \<in> filled (rx_frames ?s)" using lent_lb_rx(4) by simp
  moreover have "frame_data lb_held_world (rx_frames lb_rx_held ! 0) = [7, 7, 7]"
    by (simp add: lb_rx_held_def lb_rx_def lb_held_world_def frame_data_def bytes_at_def upt_rec)
  ultimately show ?thesis using recv_keeps_held [OF ready len run, of 0] run by simp
qed

text \<open>
  A packet longer than the caller's buffer makes \<open>recv\<close> panic in the slice of the buffer;
  the packet is not truncated and not reported as an error.
\<close>

theorem recv_small_buffer_panics:
  assumes "rx_ready F P R m base fuel s w" "rx_cursor s \<in> filled (rx_frames s)"
    and "length pkt < frame_len (rx_frames s ! rx_cursor s)"
  shows "recv F fuel s pkt w = Panic OutOfRange"
proof -
  have A: "rx_platform F (fill_q s) (rx_q s) (unat (rx_frame_size s)) P R" "rx_inv m base s"
      "rx_linked P R base s w" "rx_counts F P R s w" "rx_core m base s"
    using assms(1) by (simp_all add: rx_ready_def rx_inv_def)
  obtain q ds w1 where poll: "recv_poll F s w = Ret (length ds, polled q ds s, w1)" and got: "rx_got base s ds"
    using recv_poll_ok [OF A(1-4), of "\<lambda>_. True"] by (auto simp: keeps_def)
  let ?s = "taken_in base q ds s" and ?f = "rx_frames s ! rx_cursor s"
  have run: "recv F fuel s pkt w = recv_deliver F fuel ?s pkt w1"
    using poll update_rx_frames_ok [OF got A(5)] by (simp add: recv_def)
  have c: "rx_cursor s < length (rx_frames s)" "frame_status ?f = Filled" using assms(2) by (simp_all add: filled_def)
  have f: "rx_frames ?s ! rx_cursor ?s = ?f" "rx_cursor ?s < length (rx_frames ?s)"
    using held_frame [OF got A(5) assms(2)] c(1) by simp_all
  have "in_area (frame_mmap ?f) (frame_addr ?f) (frame_len ?f)"
    using rx_frame_in_area [of m base "unat (rx_frame_size s)" "rx_frames s"] A(5) c(1) by (simp add: rx_core_def)
  then have "read_from_umem_checked ?f (frame_len ?f) w1 = Ret (Inr (frame_data w1 ?f))"
    by (simp add: read_checked_ok frame_data_def)
  then show ?thesis
    using run f c(2) assms(3) by (simp add: recv_deliver_def Let_def sliceO_def del: taken_in_simps)
qed

theorem recv_small_buffer_panics_witness:
  "recv (loopback True) 1 lb_rx_held [0, 0] lb_held_world = Panic OutOfRange"
proof -
  have "rx_ready (loopback True) (lb_P 2048) (lb_R 2048) lb_area 2 1 lb_rx_held lb_held_world" by (simp add: lb_rx_ready)
  moreover have "rx_cursor lb_rx_held = 0" "frame_len (rx_frames lb_rx_held ! 0) = 3"
    by (simp_all add: lb_rx_held_def lb_rx_def)
  ultimately show ?thesis
    using recv_small_buffer_panics [of "loopback True" "lb_P 2048" "lb_R 2048" lb_area 2 1 lb_rx_held lb_held_world "[0, 0]"]
      lent_lb_rx(4) by simp
qed

section \<open>The receive end is a queue\<close>

text \<open>
  C8: \<open>recv\<close> refines taking the head of a queue of packets. Let the kernel fill buffers in the order
  of the fill ring, and let the frames be in their cyclic order, which \<open>XskRx::new\<close> establishes.
  Then the packets of the descriptors \<open>recv\<close> took off the ring, with the bytes they had when its
  poll returned, go to the end of the queue of held packets; if the queue is then empty, \<open>recv\<close>
  returns 0, leaves the buffer alone and counts no delivery; otherwise it delivers the oldest packet
  (which may have length 0) and counts one. The cyclic order is kept.
\<close>

theorem recv_refines:
  assumes "rx_ready F P R m base fuel s w" "unat (rx_frame_size s) \<le> length pkt"
    and "in_order (unat (rx_frame_size s)) P R" "rx_cyclic P R base s w"
  shows "\<exists>ds s1 w1 n pkt' s' w'. recv F fuel s pkt w = Ret (n, pkt', s', w') \<and>
    recv_poll F s w = Ret (length ds, s1, w1) \<and> cv_taken R w1 = cv_taken R w @ ds \<and> cv_taken R w' = cv_taken R w @ ds \<and>
    fifo_recv (rx_queue s w @ map (desc_data m w1) ds) pkt = (n, pkt', rx_queue s' w') \<and>
    pkts_rx_delivered (rx_stats s') =
      pkts_rx_delivered (rx_stats s) + (if rx_queue s w @ map (desc_data m w1) ds = [] then 0 else 1) \<and>
    rx_cyclic P R base s' w'"
proof -
  obtain q ds w1 n pkt' s' w' where "recv F fuel s pkt w = Ret (n, pkt', s', w')"
      "cv_taken R w1 = cv_taken R w @ ds" "cv_taken R w' = cv_taken R w @ ds"
      "fifo_recv (rx_queue s w @ map (desc_data m w1) ds) pkt = (n, pkt', rx_queue s' w')" "rx_cyclic P R base s' w'"
      "pkts_rx_delivered (rx_stats s') =
         pkts_rx_delivered (rx_stats s) + (if rx_queue s w @ map (desc_data m w1) ds = [] then 0 else 1)"
      "rx_took F P R m base s w q ds w1"
    using recv_fifo [OF assms] .
  then show ?thesis unfolding rx_took_def by blast
qed

lemma lb_rx_cyclic: "rx_cyclic (lb_P 2048) (lb_R 2048) 2 lb_rx lb_rx_world" "rx_queue lb_rx lb_rx_world = []"
  using lent_lb_rx(2)
  by (simp_all add: rx_cyclic_def rx_queue_def lb_P_def lb_R_def lb_rx_world_def lb_kern_def Let_def)
    (simp_all add: lb_rx_def upt_rec)

lemma lb_recv_first:
  "\<exists>s w. recv (loopback True) 1 lb_rx (replicate 2048 0) lb_rx_world = Ret (3, [7, 7, 7] @ replicate 2045 0, s, w) \<and>
     pkts_rx_delivered (rx_stats s) = 1"
  by (simp add: lb_rx_def lb_rx_world_def lb_recv_run)

theorem recv_refines_witness:
  "\<exists>ds s1 w1 s' w'. recv (loopback True) 1 lb_rx (replicate 2048 0) lb_rx_world = Ret (3, [7, 7, 7] @ replicate 2045 0, s', w') \<and>
     recv_poll (loopback True) lb_rx lb_rx_world = Ret (length ds, s1, w1) \<and> cv_taken (lb_R 2048) w' = ds \<and>
     fifo_recv (map (desc_data lb_area w1) ds) (replicate 2048 0) = (3, [7, 7, 7] @ replicate 2045 0, rx_queue s' w')"
proof -
  have "rx_ready (loopback True) (lb_P 2048) (lb_R 2048) lb_area 2 1 lb_rx lb_rx_world" by (simp add: lb_rx_ready)
  moreover have "unat (rx_frame_size lb_rx) = 2048" by (simp add: lb_rx_def)
  moreover have "cv_taken (lb_R 2048) lb_rx_world = []" by (simp add: lb_R_def lb_rx_world_def lb_kern_def)
  ultimately show ?thesis
    using recv_refines [of "loopback True" "lb_P 2048" "lb_R 2048" lb_area 2 1 lb_rx lb_rx_world "replicate 2048 0"]
      lb_in_order lb_rx_cyclic lb_recv_first by fastforce
qed

text \<open>
  C9: Over any sequence of calls of \<open>recv\<close>, with the kernel and the transmit end acting in between,
  packets come out in the order of the receive ring and each exactly once: what was delivered followed
  by what is held is what was held at the start followed by one packet for each descriptor taken off
  the ring since, of the length the descriptor says.
\<close>

theorem rx_run_fifo:
  assumes "rx_run F fuel m base P R s0 w0 s w out" "rx_fifo_ok F fuel m base P R s0 w0"
  shows "\<exists>ds xs. cv_taken R w = cv_taken R w0 @ ds \<and> out @ rx_queue s w = rx_queue s0 w0 @ xs \<and> carries ds xs \<and>
    rx_inv m base s \<and> rx_cyclic P R base s w"
  using rx_run_inv [OF assms] rx_fifo_okD(3,4) by blast

theorem rx_run_fifo_witness:
  "\<exists>s w ds xs. rx_run (loopback True) 1 lb_area 2 (lb_P 2048) (lb_R 2048) lb_rx lb_rx_world s w [[7, 7, 7]] \<and>
     cv_taken (lb_R 2048) w = ds \<and> [[7, 7, 7]] @ rx_queue s w = xs \<and> carries ds xs"
proof -
  have ready: "rx_ready (loopback True) (lb_P 2048) (lb_R 2048) lb_area 2 1 lb_rx lb_rx_world" by (simp add: lb_rx_ready)
  then have counts: "rx_counts (loopback True) (lb_P 2048) (lb_R 2048) lb_rx lb_rx_world" by (simp add: rx_ready_def)
  have sz: "unat (rx_frame_size lb_rx) = 2048" by (simp add: lb_rx_def)
  have ok: "rx_fifo_ok (loopback True) 1 lb_area 2 (lb_P 2048) (lb_R 2048) lb_rx lb_rx_world"
    using ready lb_in_order [of 2048] lb_rx_cyclic(1) sz by (simp add: rx_fifo_ok_def rx_ready_def)
  have len: "unat (rx_frame_size lb_rx) \<le> length (replicate 2048 (0 :: u8))" by (simp add: lb_rx_def)
  obtain s w where run: "recv (loopback True) 1 lb_rx (replicate 2048 0) lb_rx_world = Ret (3, [7, 7, 7] @ replicate 2045 0, s, w)"
      "pkts_rx_delivered (rx_stats s) = 1" using lb_recv_first by blast
  have "pkts_rx_delivered (rx_stats lb_rx) = 0" by (simp add: lb_rx_def)
  then have "rx_run (loopback True) 1 lb_area 2 (lb_P 2048) (lb_R 2048) lb_rx lb_rx_world s w [[7, 7, 7]]"
    using rrun_recv [OF rrun_start counts len run(1)] run(2) by simp
  moreover have "cv_taken (lb_R 2048) lb_rx_world = []" by (simp add: lb_R_def lb_rx_world_def lb_kern_def)
  ultimately show ?thesis using rx_run_fifo [OF _ ok] lb_rx_cyclic(2) by (metis append_Nil)
qed

section \<open>Receiving with a closure\<close>

text \<open>
  C12: \<open>recv_apply\<close> shows every packet it takes off the receive ring to the closure exactly once
  and in ring order, and returns unless the closure panics on one of them. It gives the frames of all
  of them back to the kernel in the same order, counts them, and keeps the invariant. The closure
  sees the bytes of the frames as they are when the poll for packets has returned. It does not move
  the cursor of \<open>recv\<close>.
\<close>

theorem recv_apply_delivers:
  assumes "rx_ready F P R m base fuel s w"
  shows "\<exists>ds s1 w1 s' w'. recv_apply F fuel s f c w =
      bindO (foldO f c (map (desc_data m w1) ds)) (\<lambda>c'. Ret (c', s', w')) \<and>
    recv_poll F s w = Ret (length ds, s1, w1) \<and>
    cv_taken R w1 = cv_taken R w @ ds \<and> cv_taken R w' = cv_taken R w @ ds \<and>
    pv_subm P w' = pv_subm P w @ map xd_addr ds \<and> rx_inv m base s' \<and> rx_linked P R base s' w' \<and>
    pkts_rx_delivered (rx_stats s') = pkts_rx_delivered (rx_stats s) + length ds \<and> rx_cursor s' = rx_cursor s"
proof -
  obtain q ds s1 w1 w' where "recv_apply F fuel s f c w =
        bindO (foldO f c (map (desc_data m w1) ds)) (\<lambda>c'. Ret (c', applied base q ds s, w'))"
      "recv_poll F s w = Ret (length ds, s1, w1)"
      "cv_taken R w1 = cv_taken R w @ ds" "cv_taken R w' = cv_taken R w @ ds"
      "pv_subm P w' = pv_subm P w @ map xd_addr ds"
      "rx_inv m base (applied base q ds s)" "rx_linked P R base (applied base q ds s) w'"
    using recv_apply_core [of F s P R m base w fuel f c] assms by (auto simp: rx_ready_def)
  moreover have "pkts_rx_delivered (rx_stats (applied base q ds s)) = pkts_rx_delivered (rx_stats s) + length ds"
      "rx_cursor (applied base q ds s) = rx_cursor s" by (simp_all add: applied_def)
  ultimately show ?thesis by metis
qed

theorem recv_apply_delivers_witness:
  "\<exists>ds (w1 :: lb world) s' w'. recv_apply (loopback True) 1 lb_rx (\<lambda>c data. Ret (c @ [data])) [] lb_rx_world =
      Ret (map (desc_data lb_area w1) ds, s', w') \<and>
     cv_taken (lb_R 2048) w' = ds \<and> pkts_rx_delivered (rx_stats s') = length ds"
proof -
  have snoc: "foldO (\<lambda>c data. Ret (c @ [data])) c xs = Ret (c @ xs)" for c xs :: "u8 list list"
    by (induction xs arbitrary: c) simp_all
  have "rx_ready (loopback True) (lb_P 2048) (lb_R 2048) lb_area 2 1 lb_rx lb_rx_world" by (simp add: lb_rx_ready)
  from recv_apply_delivers [OF this, of "\<lambda>c data. Ret (c @ [data])" "[]"]
  obtain ds s' w' and w1 :: "lb world" where run: "recv_apply (loopback True) 1 lb_rx (\<lambda>c data. Ret (c @ [data])) [] lb_rx_world =
      Ret (map (desc_data lb_area w1) ds, s', w')"
    and res: "cv_taken (lb_R 2048) w' = cv_taken (lb_R 2048) lb_rx_world @ ds"
      "pkts_rx_delivered (rx_stats s') = pkts_rx_delivered (rx_stats lb_rx) + length ds" by (auto simp: snoc)
  have "cv_taken (lb_R 2048) lb_rx_world = []" "pkts_rx_delivered (rx_stats lb_rx) = 0"
    by (simp_all add: lb_R_def lb_rx_world_def lb_kern_def lb_rx_def)
  with run res show ?thesis by (metis append_Nil add_0)
qed

text \<open>
  The cursor does not follow the packets \<open>recv_apply\<close> handles: a \<open>recv\<close> after it looks at the wrong
  frame. Here the packet that arrives next is taken off the ring and held, and \<open>recv\<close> returns 0.
\<close>

theorem recv_after_apply_starves:
  "\<exists>s1 w1 s2 w2. recv_apply (loopback True) 1 lb_rx (\<lambda>c data. Ret (c @ [data])) [] lb_rx_world = Ret ([[7, 7, 7]], s1, w1) \<and>
     recv (loopback True) 1 s1 (replicate 2048 0)
       (w1\<lparr>kern := (kern w1)\<lparr>rx_log := rx_log (kern w1) @ [\<lparr>xd_addr = 6400, xd_len = 5, xd_options = 0\<rparr>]\<rparr>\<rparr>) =
       Ret (0, replicate 2048 0, s2, w2) \<and>
     filled (rx_frames s2) = {1} \<and> pkts_rx (rx_stats s2) = 2 \<and> pkts_rx_delivered (rx_stats s2) = 1"
  by (simp add: recv_apply_def apply_batch_def read_from_umem_def lb_rx_def lb_rx_world_def lb_recv_run lent_pair)

section \<open>Failures\<close>

text \<open>
  The frame of a received descriptor is found with 32-bit arithmetic: for a descriptor
  \<open>2 ^ 32\<close> bytes above a frame of the list, the index of that other frame comes out, so in a UMEM
  of more than 4 GiB a packet is attributed to the wrong frame.
\<close>

theorem rx_index_truncates:
  assumes "rx_frame_offset s = 0" "0 < unat (rx_frame_size s)" "a < 2 ^ 32"
  shows "rx_frame_index chk s (2 ^ 32 + a) = rx_frame_index chk s a \<and>
    rx_frame_index chk s a = Ret (a div unat (rx_frame_size s))"
proof -
  have "as_u32 (2 ^ 32 + a) = as_u32 a"
    by (rule word_unat_eq_iff [THEN iffD2]) (simp add: unat_as_u32)
  moreover have "unat (as_u32 a div rx_frame_size s) = a div unat (rx_frame_size s)"
    using assms(3) by (simp add: unat_div)
  moreover have "rx_frame_size s \<noteq> 0" "as_u32 0 = 0" using assms(2) by (auto simp: as_u32_def)
  ultimately show ?thesis using assms(1) by (simp add: rx_frame_index_def sub32_def div32_def as_usize_def)
qed

theorem rx_index_truncates_witness:
  "rx_frame_index True (lb_rx\<lparr>rx_frame_offset := 0\<rparr>) (2 ^ 32 + 4096) = Ret 2"
  using rx_index_truncates [of "lb_rx\<lparr>rx_frame_offset := 0\<rparr>" 4096 True] by (simp add: lb_rx_def)

text \<open>
  \<open>XskRx::new\<close> ignores how many frames the fill ring took: when the ring has no room for
  all of them, none is submitted, and the receive end is returned all the same, counting on every
  frame being with the kernel.
\<close>

theorem rx_new_ignores_full_ring:
  assumes "fill_contract F fq P" "pv_ok P w" "pv_resv P w = 0" "pv_free P w < length frames"
  shows "\<exists>s w'. XskRx_new F rq fq frames sz w = Ret (s, w') \<and> pv_subm P w' = pv_subm P w \<and>
    n_frames_to_be_filled s = length frames"
proof -
  have "keeps (pv_ok P) (\<lambda>_. True) (fill_ops F fq)" by (simp add: keeps_def)
  then obtain w' where "FillQueue_produce F fq frames w = Ret (0, w')" "pv_subm P w' = pv_subm P w"
    using FillQueue_produce_full [OF assms] by blast
  moreover have "frames \<noteq> []" using assms(4) by auto
  ultimately show ?thesis by (simp add: XskRx_new_def)
qed

theorem rx_new_ignores_full_ring_witness:
  "\<exists>s w'. XskRx_new (loopback True) lb_rq lb_fq (replicate 65 (frame_at lb_area 2048 1792 0)) 2048 (lb_world True) = Ret (s, w') \<and>
     fill_sent (kern w') = [] \<and> n_frames_to_be_filled s = 65"
proof -
  have "pv_ok (lb_P 2048) (lb_world True)" "pv_resv (lb_P 2048) (lb_world True) = 0"
      "pv_free (lb_P 2048) (lb_world True) < length (replicate 65 (frame_at lb_area 2048 1792 0))"
    by (simp_all add: lb_P_def lb_world_def lb_kern_def lb_rx_ok_def lb_cap_def desc_chunks_def)
  from rx_new_ignores_full_ring [OF lb_fill_contract this] show ?thesis
    by (simp add: lb_P_def lb_world_def lb_kern_def)
qed

text \<open>
  \<open>RxQueue::consume\<close> asked for more descriptors than the caller's slice holds returns the
  number taken off the ring, which can exceed the slice, although its comment bounds it by the
  slice; the descriptors that do not fit are gone from the ring and from the program.
\<close>

theorem consume_loses_descriptors:
  assumes "rx_contract F q V" "cv_ok V w" "cv_peek V w = 0" "length buf < n" "n \<le> length (cv_pend V w)"
    and "idx_room F (length (cv_taken V w) + n)"
  shows "\<exists>w'. RxQueue_consume F q n buf w = Ret (n, map rx_entry (take (length buf) (cv_pend V w)), w') \<and>
    cv_taken V w' = cv_taken V w @ take n (cv_pend V w)"
proof -
  have "n = min n (length (cv_pend V w))" "keeps (cv_ok V) (\<lambda>_. True) (rx_ops F q)"
    using assms(5) by (simp_all add: keeps_def)
  from RxQueue_consume_gen [OF assms(1-3) this(1) assms(6) this(2) TrueI, of buf] show ?thesis
    using assms(4) by (auto simp: min_absorb2)
qed

theorem consume_loses_descriptors_witness:
  "\<exists>w'. RxQueue_consume (loopback True) lb_rq 1 [] lb_rx_world = Ret (1, [], w')"
proof -
  have "cv_ok (lb_R 2048) lb_rx_world" "cv_peek (lb_R 2048) lb_rx_world = 0"
      "length ([] :: (usize \<times> usize \<times> u32) list) < 1" "1 \<le> length (cv_pend (lb_R 2048) lb_rx_world)"
      "idx_room (loopback True) (length (cv_taken (lb_R 2048) lb_rx_world) + 1)"
    using lb_rx_linked(1)
    by (simp_all add: rx_linked_def lb_P_def lb_R_def lb_rx_world_def lb_kern_def rx_waiting_def lb_cap_def idx_room_def)
  from consume_loses_descriptors [OF lb_rx_contract this] show ?thesis by auto
qed

end
