(* ===== verification/Link_Props.thy ===== *)
theory Link_Props
  imports Loopback_Link
begin

text \<open>
  The property of a sending and a receiving socket on one link, with a concrete run on the lossless
  link of \<open>Loopback_Link\<close>.
\<close>

section \<open>From one socket to another\<close>

text \<open>
  C4: A sender and a receiver on one link, over any interleaving of their calls with steps of the
  kernel, are one first-in first-out queue: what the calls of \<open>recv\<close> delivered, followed by what
  is still between the two (held by the receiver, on its ring, in flight, or in the batch of the
  sender), is in order and byte for byte what was there at the start followed by what \<open>send\<close> and
  \<open>send_apply\<close> accepted. On a link that drops packets some are missing; nothing is duplicated,
  reordered or altered. Both ends keep their invariants.
\<close>

theorem link_end_to_end:
  assumes "link_run F fuel m m' base T C P R W s0 r0 w0 s r w acc out"
    and "link_ok F fuel m m' base T C P R W s0 r0 w0"
  shows "subseq (out @ pipeline m T R W s r w) (pipeline m T R W s0 r0 w0 @ acc) \<and>
    (wi_lossless W \<longrightarrow> out @ pipeline m T R W s r w = pipeline m T R W s0 r0 w0 @ acc) \<and>
    tx_inv m s \<and> rx_inv m' base r"
proof -
  have "link_ok F fuel m m' base T C P R W s r w"
    and through: "passes W (out @ pipeline m T R W s r w) (pipeline m T R W s0 r0 w0 @ acc)"
    using link_run_inv [OF assms] by simp_all
  then have "tx_inv m s" "rx_inv m' base r" by (auto dest: link_okD(3,6) rx_fifo_okD(4))
  then show ?thesis using through by (auto simp: passes_def split: if_splits)
qed

theorem link_end_to_end_witness:
  "\<exists>s w r w'. send (veth True) 1 (lb_tx False 1) [1, 2, 3] veth_world = Ret (Inr (), s, w) \<and>
     recv (veth True) 1 lb_rx (replicate 2048 0) w = Ret (3, [1, 2, 3] @ replicate 2045 0, r, w') \<and>
     pipeline lb_area (lb_T False) (lb_R 2048) veth_wire s r w' = [] \<and> tx_inv lb_area s \<and> rx_inv lb_area 2 r"
proof -
  let ?run = "link_run (veth True) 1 lb_area lb_area 2 (lb_T False) (lb_C False) (lb_P 2048) (lb_R 2048) veth_wire
    (lb_tx False 1) lb_rx veth_world"
  have start: "pipeline lb_area (lb_T False) (lb_R 2048) veth_wire (lb_tx False 1) lb_rx veth_world = []"
    using veth_rx_ok(2)
    by (simp add: pipeline_def under_way_def batch_data_def veth_wire_def veth_world_def lb_kern_def lb_T_def lb_R_def)
  obtain s w where sent: "send (veth True) 1 (lb_tx False 1) [1, 2, 3] veth_world = Ret (Inr (), s, w)"
    and w: "rx_log (kern w) = [\<lparr>xd_addr = 4352, xd_len = 3, xd_options = 0\<rparr>]" "fill_sent (kern w) = [4096, 6144]"
      "rx_done (kern w) = 0" "fill_resvd (kern w) = 0" "mem w 8448 = 1" "mem w 8449 = 2" "mem w 8450 = 3"
    using veth_send_one by blast
  obtain r w' where got: "recv (veth True) 1 lb_rx (replicate 2048 0) w = Ret (3, [1, 2, 3] @ replicate 2045 0, r, w')"
    and one: "pkts_rx_delivered (rx_stats r) = 1"
    using veth_recv_one [OF w] by blast
  have "tx_counts (veth True) (lb_T False) (lb_C False) (lb_tx False 1) veth_world"
    by (simp add: tx_counts_def idx_room_def lb_T_def lb_C_def veth_world_def lb_kern_def)
  moreover have "length [1, 2, 3 :: u8] \<le> frame_mtu (tx_frames (lb_tx False 1) ! tx_cursor (lb_tx False 1))" by simp
  ultimately have "?run s lb_rx w [[1, 2, 3]] []" using lrun_send [OF lrun_start] sent by force
  moreover have "rx_counts (veth True) (lb_P 2048) (lb_R 2048) lb_rx w"
    using w by (simp add: rx_counts_def idx_room_def lb_P_def lb_R_def) (simp add: lb_rx_def)
  moreover have "unat (rx_frame_size lb_rx) \<le> length (replicate 2048 (0 :: u8))" "pkts_rx_delivered (rx_stats lb_rx) = 0"
    by (simp_all add: lb_rx_def)
  ultimately have "?run s r w' [[1, 2, 3]] [[1, 2, 3]]" using lrun_recv [OF _ _ _ got] one by force
  from link_end_to_end [OF this veth_link_ok] show ?thesis
    using sent got start by (simp add: veth_wire_def)
qed

end
