(* ===== verification/Unit_Tests.thy ===== *)
theory Unit_Tests
  imports Umem_Build Socket_Config
begin

text \<open>
  The unit tests the crate keeps beside its code (the \<open>tests\<close> modules of
  \<^verbatim>\<open>src/src/util.rs\<close>, \<^verbatim>\<open>src/src/umem/umem.rs\<close>, \<^verbatim>\<open>src/src/umem/config.rs\<close> and
  \<^verbatim>\<open>src/src/socket/config.rs\<close>), as executable definitions: a test passes if it returns and
  fails if it panics. The random bytes are an argument, \<open>rnd k i\<close> being the \<open>i\<close>-th byte of the
  \<open>k\<close>-th call; the releases at the end of a test are left out.
\<close>

section \<open>Definitions\<close>

subsection \<open>Powers of two\<close>

definition check_powers_of_two :: "unit outcome" where
  "check_powers_of_two =
     bindO (assertO (is_pow_of_two 0 = False)) (\<lambda>_.
       bindO (assertO (is_pow_of_two 1 = True)) (\<lambda>_.
         bindO (assertO (is_pow_of_two 2 = True)) (\<lambda>_. assertO (is_pow_of_two 13 = False))))"

subsection \<open>The configurations\<close>

definition umem_len_doesnt_panic_when_frame_count_and_size_are_u32_max :: "unit outcome" where
  "umem_len_doesnt_panic_when_frame_count_and_size_are_u32_max =
     bindO (unwrapR (UmemConfig_new (- 1) (- 1) 8 8 0 False)) (\<lambda>c. bindO (umem_len c) (\<lambda>_. Ret ()))"

definition umem_config_builder_test :: "abi_consts \<Rightarrow> unit outcome" where
  "umem_config_builder_test A =
     (let d = UmemConfig_default A in
      bindO (expectR ''failed to build umem config''
        (UmemConfigBuilder_build
          (UmemConfigBuilder_use_huge_pages (use_huge_pages d)
            (UmemConfigBuilder_frame_headroom (frame_headroom d)
              (UmemConfigBuilder_comp_queue_size (comp_queue_size d)
                (UmemConfigBuilder_fill_queue_size (fill_queue_size d)
                  (UmemConfigBuilder_frame_size (frame_size d)
                    (UmemConfigBuilder_frame_count (frame_count d) (UmemConfigBuilder_new A)))))))))
        (\<lambda>c. assertO (d = c)))"

definition socket_config_builder_test :: "abi_consts \<Rightarrow> unit outcome" where
  "socket_config_builder_test A =
     (let d = SocketConfig_default A in
      bindO (expectR ''failed to create socket config''
        (SocketConfigBuilder_build
          (SocketConfigBuilder_bind_flags (bind_flags d)
            (SocketConfigBuilder_xdp_flags (xdp_flags d)
              (SocketConfigBuilder_libbpf_flags (libbpf_flags d)
                (SocketConfigBuilder_tx_queue_size (tx_queue_size d)
                  (SocketConfigBuilder_rx_queue_size (rx_queue_size d) (SocketConfigBuilder_new A))))))))
        (\<lambda>c. assertO (d = c)))"

subsection \<open>The UMEM\<close>

definition FRAME_COUNT :: u32 where
  "FRAME_COUNT = 8"

definition FRAME_SIZE :: u32 where
  "FRAME_SIZE = 2048"

definition generate_random_bytes :: "(nat \<Rightarrow> u8) \<Rightarrow> u32 \<Rightarrow> u8 list" where
  "generate_random_bytes rnd len = map rnd [0..<unat len]"

text \<open>\<open>Umem::builder(config).create_mmap().expect(...).create_umem().expect(...)\<close>\<close>

definition build_umem ::
    "'k ffi \<Rightarrow> UmemConfig \<Rightarrow> 'k world \<Rightarrow> ((Umem \<times> FillQueue \<times> CompQueue \<times> Frame list) \<times> 'k world) outcome" where
  "build_umem F config w =
     bindO (create_mmap F (Umem_builder config) w) (\<lambda>(r, w1).
       bindO (expectR ''Failed to create mmap region'' r) (\<lambda>b.
         bindO (create_umem F b w1) (\<lambda>(r', w2).
           bindO (expectR ''Failed to create UMEM'' r') (\<lambda>parts. Ret (parts, w2)))))"

definition umem_config_fixture :: "UmemConfig outcome" where
  "umem_config_fixture = unwrapR (UmemConfig_new FRAME_COUNT FRAME_SIZE 4 4 0 False)"

definition umem_fixture ::
    "'k ffi \<Rightarrow> 'k world \<Rightarrow> ((Umem \<times> FillQueue \<times> CompQueue \<times> Frame list) \<times> 'k world) outcome" where
  "umem_fixture F w = bindO umem_config_fixture (\<lambda>config. build_umem F config w)"

definition umem_create_succeeds_when_frame_count_is_one :: "'k ffi \<Rightarrow> 'k world \<Rightarrow> 'k world outcome" where
  "umem_create_succeeds_when_frame_count_is_one F w =
     bindO (unwrapR (UmemConfig_new 1 4096 4 4 0 False)) (\<lambda>config.
       bindO (build_umem F config w) (\<lambda>(_, w'). Ret w'))"

definition umem_create_succeeds_when_fill_size_is_one :: "'k ffi \<Rightarrow> 'k world \<Rightarrow> 'k world outcome" where
  "umem_create_succeeds_when_fill_size_is_one F w =
     bindO (unwrapR (UmemConfig_new 16 4096 1 4 0 False)) (\<lambda>config.
       bindO (build_umem F config w) (\<lambda>(_, w'). Ret w'))"

definition umem_create_succeeds_when_comp_size_is_one :: "'k ffi \<Rightarrow> 'k world \<Rightarrow> 'k world outcome" where
  "umem_create_succeeds_when_comp_size_is_one F w =
     bindO (unwrapR (UmemConfig_new 16 4096 4 1 0 False)) (\<lambda>config.
       bindO (build_umem F config w) (\<lambda>(_, w'). Ret w'))"

text \<open>This one is marked \<open>should_panic\<close>.\<close>

definition umem_create_fails_when_frame_size_is_lt_2048 :: "'k ffi \<Rightarrow> 'k world \<Rightarrow> 'k world outcome" where
  "umem_create_fails_when_frame_size_is_lt_2048 F w =
     bindO (unwrapR (UmemConfig_new 1 2047 4 4 0 False)) (\<lambda>config.
       bindO (build_umem F config w) (\<lambda>(_, w'). Ret w'))"

definition mtu_is_correct :: "'k ffi \<Rightarrow> 'k world \<Rightarrow> 'k world outcome" where
  "mtu_is_correct F w =
     (let chk = overflow_checks F in
      bindO (unwrapR (UmemConfig_new 1 2048 4 4 512 False)) (\<lambda>config.
        bindO (build_umem F config w) (\<lambda>((umem, _, _, _), w1).
          bindO (sub32 chk 2048 (XDP_PACKET_HEADROOM (abi F))) (\<lambda>a.
            bindO (sub32 chk a 512) (\<lambda>mtu.
              bindO (assertO (umem_mtu umem = as_usize mtu)) (\<lambda>_. Ret w1))))))"

text \<open>The body of this test is a comment.\<close>

definition umem_access_checks_ok :: "'k world \<Rightarrow> 'k world outcome" where
  "umem_access_checks_ok w = Ret w"

fun is_ok :: "'e + 'a \<Rightarrow> bool" where
  "is_ok (Inl _) = False"
| "is_ok (Inr _) = True"

definition data_checks_ok :: "'k ffi \<Rightarrow> (nat \<Rightarrow> nat \<Rightarrow> u8) \<Rightarrow> 'k world \<Rightarrow> 'k world outcome" where
  "data_checks_ok F rnd w =
     (let chk = overflow_checks F in
      bindO (umem_fixture F w) (\<lambda>((_, _, _, frames), w1).
        bindO (nthO frames 0) (\<lambda>f.
          bindO (assertO (is_ok (is_data_valid f []))) (\<lambda>_.
            bindO (sub32 chk FRAME_SIZE (XDP_PACKET_HEADROOM (abi F))) (\<lambda>mtu.
              bindO (sub32 chk mtu 1) (\<lambda>less.
                bindO (assertO (is_ok (is_data_valid f (generate_random_bytes (rnd 0) less)))) (\<lambda>_.
                  bindO (assertO (is_ok (is_data_valid f (generate_random_bytes (rnd 1) mtu)))) (\<lambda>_.
                    bindO (add32 chk mtu 1) (\<lambda>more.
                      bindO (assertO (case is_data_valid f (generate_random_bytes (rnd 2) more) of
                                        Inl (SizeExceedsMtu _ _) \<Rightarrow> True | Inr _ \<Rightarrow> False)) (\<lambda>_.
                        Ret w1))))))))))"

definition write_no_data_to_umem :: "'k ffi \<Rightarrow> 'k world \<Rightarrow> 'k world outcome" where
  "write_no_data_to_umem F w =
     bindO (umem_fixture F w) (\<lambda>((_, _, _, frames), w1).
       bindO (nthO frames 0) (\<lambda>f.
         bindO (write_to_umem_checked f [] w1) (\<lambda>(r, f', w2).
           bindO (unwrapR r) (\<lambda>_.
             bindO (assertO (frame_len f' = 0)) (\<lambda>_. Ret w2)))))"

text \<open>\<open>[b'H', b'e', b'l', b'l', b'o']\<close>\<close>

definition write_to_umem_frame_then_read_small_byte_array :: "'k ffi \<Rightarrow> 'k world \<Rightarrow> 'k world outcome" where
  "write_to_umem_frame_then_read_small_byte_array F w =
     bindO (umem_fixture F w) (\<lambda>((_, _, _, frames), w1).
       let data = [72, 101, 108, 108, 111] in
       bindO (nthO frames 0) (\<lambda>f.
         bindO (write_to_umem_checked f data w1) (\<lambda>(r, f', w2).
           bindO (unwrapR r) (\<lambda>_.
             bindO (assertO (frame_len f' = 5)) (\<lambda>_.
               bindO (read_from_umem_checked f' (frame_len f') w2) (\<lambda>r'.
                 bindO (unwrapR r') (\<lambda>umem_region.
                   bindO (sliceO umem_region 0 (length data)) (\<lambda>got.
                     bindO (assertO (data = got)) (\<lambda>_. Ret w2)))))))))"

text \<open>
  \<open>frames[i].umem_region_mut_checked(n).unwrap().copy_from_slice(data); frames[i].set_len(n)\<close>; the
  copy panics unless both slices have the same length.
\<close>

definition write_region ::
    "nat \<Rightarrow> usize \<Rightarrow> u8 list \<Rightarrow> Frame list \<Rightarrow> 'k world \<Rightarrow> (Frame list \<times> 'k world) outcome" where
  "write_region i n data frames w =
     bindO (nthO frames i) (\<lambda>f.
       bindO (umem_region_mut_checked f n w) (\<lambda>r.
         bindO (unwrapR r) (\<lambda>umem_region.
           if length umem_region \<noteq> length data then Panic OutOfRange
           else Ret (frames[i := set_len n f], region_store (frame_mmap f) (frame_addr f) data w))))"

definition write_max_bytes_to_neighbouring_umem_frames ::
    "'k ffi \<Rightarrow> (nat \<Rightarrow> nat \<Rightarrow> u8) \<Rightarrow> 'k world \<Rightarrow> 'k world outcome" where
  "write_max_bytes_to_neighbouring_umem_frames F rnd w =
     bindO (umem_fixture F w) (\<lambda>((_, _, _, frames0), w0).
       let data_len = FRAME_SIZE;
           fst_data = generate_random_bytes (rnd 0) data_len;
           snd_data = generate_random_bytes (rnd 1) data_len in
       bindO (write_region 0 (as_usize data_len) fst_data frames0 w0) (\<lambda>(frames1, w1).
         bindO (write_region 1 (as_usize data_len) snd_data frames1 w1) (\<lambda>(frames, w2).
           bindO (nthO frames 0) (\<lambda>f0.
             bindO (nthO frames 1) (\<lambda>f1.
               bindO (read_from_umem f0 (frame_len f0) w2) (\<lambda>fst_frame_ref.
                 bindO (read_from_umem f1 (frame_len f1) w2) (\<lambda>snd_frame_ref.
                   bindO (bindO (sliceO fst_frame_ref 0 (length fst_data)) (\<lambda>got. assertO (fst_data = got))) (\<lambda>_.
                     bindO (bindO (sliceO snd_frame_ref 0 (length snd_data)) (\<lambda>got. assertO (snd_data = got))) (\<lambda>_.
                       bindO (mem_range (frame_mmap f0) 0 (as_usize (FRAME_SIZE * 2)) w2) (\<lambda>range.
                         bindO (assertO (fst_data @ snd_data = range)) (\<lambda>_. Ret w2)))))))))))"

text \<open>The tests of the UMEM that are expected to pass, in the order of the source.\<close>

definition umem_tests :: "'k ffi \<Rightarrow> (nat \<Rightarrow> nat \<Rightarrow> u8) \<Rightarrow> ('k world \<Rightarrow> 'k world outcome) list" where
  "umem_tests F rnd =
     [umem_create_succeeds_when_frame_count_is_one F, umem_create_succeeds_when_fill_size_is_one F,
      umem_create_succeeds_when_comp_size_is_one F, mtu_is_correct F, umem_access_checks_ok,
      data_checks_ok F rnd, write_no_data_to_umem F, write_to_umem_frame_then_read_small_byte_array F,
      write_max_bytes_to_neighbouring_umem_frames F rnd]"

text \<open>What the tests need of the machine they run on: memory, and the right to create a UMEM.\<close>

definition umem_sys_ok :: "'k ffi \<Rightarrow> bool" where
  "umem_sys_ok F \<longleftrightarrow>
     XDP_PACKET_HEADROOM (abi F) = 256 \<and>
     (\<forall>n prot flags w. fst (libc_mmap F n prot flags w) \<noteq> MAP_FAILED (abi F)) \<and>
     (\<forall>p n cfg w. fst (fst (xsk_umem__create F p n cfg w)) = 0)"

section \<open>Lemmas\<close>

lemma assertO_simps [simp]: "assertO True = Ret ()" "assertO False = Panic Assertion"
  by (simp_all add: assertO_def)

lemma create_mmap_sys:
  assumes "umem_sys_ok F"
  obtains m w1 where "create_mmap F (Umem_builder c) w = Ret (Inr \<lparr>ubm_config = c, ubm_mmap_area = m\<rparr>, w1)"
    "area_len m = unat (frame_count c) * unat (frame_size c)"
proof -
  let ?len = "unat (frame_count c) * unat (frame_size c)"
  obtain e w1 where new: "MmapArea_new F ?len (use_huge_pages c) w = (e, w1)" by (meson surj_pair)
  then obtain m where "e = Inr m" "area_len m = ?len"
    using assms by (auto simp: umem_sys_ok_def MmapArea_new_def Let_def split: prod.splits if_splits) (metis fst_conv)+
  then show thesis using that new by (simp add: create_mmap_def Umem_builder_def umem_len_total)
qed

lemma build_umem_ok:
  assumes sys: "umem_sys_ok F" and fits: "256 + unat (frame_headroom c) \<le> unat (frame_size c)"
    and mtu: "mtu = unat (frame_size c) - (256 + unat (frame_headroom c))"
  shows "\<exists>m up fq cq w'. build_umem F c w =
      Ret ((\<lparr>umem_config = c, umem_mtu = mtu, umem_inner = up\<rparr>, fq, cq, umem_frames m c mtu), w') \<and>
    area_len m = unat (frame_count c) * unat (frame_size c)"
proof -
  obtain m w1 where m: "create_mmap F (Umem_builder c) w = Ret (Inr \<lparr>ubm_config = c, ubm_mmap_area = m\<rparr>, w1)"
      "area_len m = unat (frame_count c) * unat (frame_size c)" using create_mmap_sys [OF sys] .
  obtain up fr cr w2 where "xsk_umem__create F (mem_ptr m) (area_len m)
      \<lparr>uc_fill_size = fill_queue_size c, uc_comp_size = comp_queue_size c, uc_frame_size = frame_size c,
       uc_frame_headroom = frame_headroom c, uc_flags = 0\<rparr> w1 = ((0, up, fr, cr), w2)"
    using sys unfolding umem_sys_ok_def by (metis prod.collapse)
  then have "create_umem F \<lparr>ubm_config = c, ubm_mmap_area = m\<rparr> w1 =
      Ret (Inr (\<lparr>umem_config = c, umem_mtu = mtu, umem_inner = up\<rparr>,
          \<lparr>fq_size = fill_queue_size c, fq_inner = fr\<rparr>, \<lparr>cq_size = comp_queue_size c, cq_inner = cr\<rparr>,
          umem_frames m c mtu), w2)"
    using create_umem_ok [of F "\<lparr>ubm_config = c, ubm_mmap_area = m\<rparr>" w1] sys fits mtu by (simp add: umem_sys_ok_def)
  then show ?thesis using m by (simp add: build_umem_def) blast
qed

text \<open>The fixture: eight frames of 2048 bytes, 256 of which are headroom.\<close>

lemma pow_of_two_small [simp]: "is_pow_of_two 1" "is_pow_of_two 4" "is_pow_of_two 8"
  by (simp_all add: is_pow_of_two_def)

lemma umem_fixture_ok:
  assumes "umem_sys_ok F"
  obtains m u fq cq w' where "umem_fixture F w = Ret ((u, fq, cq, map (frame_at m 2048 1792) [0..<8]), w')"
    "area_len m = 16384"
proof -
  let ?c = "\<lparr>frame_count = 8, frame_size = 2048, fill_queue_size = 4, comp_queue_size = 4, frame_headroom = 0,
      use_huge_pages = False\<rparr>"
  have cfg: "umem_config_fixture = Ret ?c"
    by (simp add: umem_config_fixture_def UmemConfig_new_def FRAME_COUNT_def FRAME_SIZE_def)
  obtain m up fq cq w' where "build_umem F ?c w = Ret ((\<lparr>umem_config = ?c, umem_mtu = 1792, umem_inner = up\<rparr>, fq, cq,
      umem_frames m ?c 1792), w')" "area_len m = 16384"
    using build_umem_ok [OF assms, of ?c 1792 w] by auto
  then have "umem_fixture F w = Ret ((\<lparr>umem_config = ?c, umem_mtu = 1792, umem_inner = up\<rparr>, fq, cq,
      map (frame_at m 2048 1792) [0..<8]), w')" "area_len m = 16384"
    unfolding umem_fixture_def cfg by (simp_all add: umem_frames_def)
  then show thesis by (rule that)
qed

lemma length_random [simp]: "length (generate_random_bytes rnd len) = unat len"
  by (simp add: generate_random_bytes_def)

lemma write_region_ok:
  assumes "i < length frames" "in_area (frame_mmap (frames ! i)) (frame_addr (frames ! i)) (length data)" "n = length data"
  shows "write_region i n data frames w =
    Ret (frames[i := (frames ! i)\<lparr>frame_len := n\<rparr>],
         region_store (frame_mmap (frames ! i)) (frame_addr (frames ! i)) data w)"
  using assms by (simp add: write_region_def umem_region_mut_checked_def mem_range_mut_eq mem_range_in set_len_def)

lemma bytes_at_append: "bytes_at w p (m + n) = bytes_at w p m @ bytes_at w (p + m) n"
  by (rule nth_equalityI) (simp_all add: nth_append)

lemma neighbours_pass:
  assumes "umem_sys_ok F"
  shows "\<exists>w'. write_max_bytes_to_neighbouring_umem_frames F rnd w = Ret w'"
proof -
  obtain m u fq cq w0 where fix0: "umem_fixture F w = Ret ((u, fq, cq, map (frame_at m 2048 1792) [0..<8]), w0)"
    and len: "area_len m = 16384" using umem_fixture_ok [OF assms] .
  let ?frames = "map (frame_at m 2048 1792) [0..<8]"
  let ?a = "generate_random_bytes (rnd 0) FRAME_SIZE" and ?b = "generate_random_bytes (rnd 1) FRAME_SIZE"
  have dl: "length ?a = 2048" "length ?b = 2048" by (simp_all add: FRAME_SIZE_def)
  let ?f0 = "(frame_at m 2048 1792 0)\<lparr>frame_len := 2048\<rparr>" and ?f1 = "(frame_at m 2048 1792 1)\<lparr>frame_len := 2048\<rparr>"
  let ?w1 = "region_store m 0 ?a w0" let ?w2 = "region_store m 2048 ?b ?w1"
  have area: "in_area m 0 2048" "in_area m 2048 2048" "in_area m 0 4096" using len by (simp_all add: in_area_def)
  have w1: "write_region 0 2048 ?a ?frames w0 = Ret (?frames[0 := ?f0], ?w1)"
    using write_region_ok [of 0 ?frames ?a 2048 w0] dl area by simp
  have w2: "write_region 1 2048 ?b (?frames[0 := ?f0]) ?w1 = Ret (?frames[0 := ?f0, 1 := ?f1], ?w2)"
    using write_region_ok [of 1 "?frames[0 := ?f0]" ?b 2048 ?w1] dl area by simp
  have b: "bytes_at ?w2 (mem_ptr m + 2048) 2048 = ?b" using bytes_at_store_same [of m 2048 ?b ?w1] dl(2) by simp
  have "bytes_at ?w2 (mem_ptr m + 0) 2048 = bytes_at ?w1 (mem_ptr m + 0) 2048"
    by (rule bytes_at_store_other) simp
  also have "\<dots> = ?a" using bytes_at_store_same [of m 0 ?a w0] dl(1) by simp
  finally have a: "bytes_at ?w2 (mem_ptr m) 2048 = ?a" by simp
  have ab: "bytes_at ?w2 (mem_ptr m) 4096 = ?a @ ?b"
    using bytes_at_append [of ?w2 "mem_ptr m" 2048 2048] a b by simp
  have sz: "as_usize FRAME_SIZE = 2048" "as_usize (FRAME_SIZE * 2) = 4096" by (simp_all add: FRAME_SIZE_def as_usize_def)
  have "write_max_bytes_to_neighbouring_umem_frames F rnd w = Ret ?w2"
    using fix0 w1 w2 a b ab area dl
    by (simp add: write_max_bytes_to_neighbouring_umem_frames_def Let_def sz read_from_umem_def mem_range_in)
  then show ?thesis by blast
qed

lemma created_pass:
  assumes "umem_sys_ok F"
  shows "\<exists>w'. umem_create_succeeds_when_frame_count_is_one F w = Ret w'"
    "\<exists>w'. umem_create_succeeds_when_fill_size_is_one F w = Ret w'"
    "\<exists>w'. umem_create_succeeds_when_comp_size_is_one F w = Ret w'"
    "\<exists>w'. mtu_is_correct F w = Ret w'"
proof -
  have new: "UmemConfig_new n sz fill cmpl h False = Inr \<lparr>frame_count = n, frame_size = sz, fill_queue_size = fill,
      comp_queue_size = cmpl, frame_headroom = h, use_huge_pages = False\<rparr>"
    if "n \<noteq> 0" "is_pow_of_two fill" "is_pow_of_two cmpl" "2048 \<le> sz" for n sz fill cmpl h
    using that by (simp add: UmemConfig_new_def not_less)
  note build = build_umem_ok [OF assms, where w = w]
  show "\<exists>w'. umem_create_succeeds_when_frame_count_is_one F w = Ret w'"
    using build [of "\<lparr>frame_count = 1, frame_size = 4096, fill_queue_size = 4, comp_queue_size = 4, frame_headroom = 0,
      use_huge_pages = False\<rparr>" 3840]
    by (auto simp: umem_create_succeeds_when_frame_count_is_one_def new)
  show "\<exists>w'. umem_create_succeeds_when_fill_size_is_one F w = Ret w'"
    using build [of "\<lparr>frame_count = 16, frame_size = 4096, fill_queue_size = 1, comp_queue_size = 4, frame_headroom = 0,
      use_huge_pages = False\<rparr>" 3840]
    by (auto simp: umem_create_succeeds_when_fill_size_is_one_def new)
  show "\<exists>w'. umem_create_succeeds_when_comp_size_is_one F w = Ret w'"
    using build [of "\<lparr>frame_count = 16, frame_size = 4096, fill_queue_size = 4, comp_queue_size = 1, frame_headroom = 0,
      use_huge_pages = False\<rparr>" 3840]
    by (auto simp: umem_create_succeeds_when_comp_size_is_one_def new)
  show "\<exists>w'. mtu_is_correct F w = Ret w'"
    using assms build [of "\<lparr>frame_count = 1, frame_size = 2048, fill_queue_size = 4, comp_queue_size = 4,
      frame_headroom = 512, use_huge_pages = False\<rparr>" 1280]
    by (auto simp: mtu_is_correct_def new umem_sys_ok_def sub32_def as_usize_def Let_def)
qed

lemma data_checks_pass:
  assumes "umem_sys_ok F"
  shows "\<exists>w'. data_checks_ok F rnd w = Ret w'"
proof -
  obtain m u fq cq w0 where fix0: "umem_fixture F w = Ret ((u, fq, cq, map (frame_at m 2048 1792) [0..<8]), w0)"
    using umem_fixture_ok [OF assms] by metis
  have "XDP_PACKET_HEADROOM (abi F) = 256" using assms by (simp add: umem_sys_ok_def)
  then have "data_checks_ok F rnd w = Ret w0"
    using fix0 by (simp add: data_checks_ok_def Let_def is_data_valid_def sub32_def add32_def FRAME_SIZE_def)
  then show ?thesis by blast
qed

lemma small_writes_pass:
  assumes "umem_sys_ok F"
  shows "\<exists>w'. write_no_data_to_umem F w = Ret w'"
    "\<exists>w'. write_to_umem_frame_then_read_small_byte_array F w = Ret w'"
proof -
  obtain m u fq cq w0 where fix0: "umem_fixture F w = Ret ((u, fq, cq, map (frame_at m 2048 1792) [0..<8]), w0)"
    and len: "area_len m = 16384" using umem_fixture_ok [OF assms] .
  show "\<exists>w'. write_no_data_to_umem F w = Ret w'"
    using fix0 by (simp add: write_no_data_to_umem_def write_to_umem_checked_def set_len_def)
  let ?data = "[72, 101, 108, 108, 111] :: u8 list"
  have "bytes_at (region_store m 0 ?data w0) (mem_ptr m) (length ?data) = ?data"
    using bytes_at_store_same [of m 0 ?data w0] by simp
  moreover have "in_area m 0 (length ?data)" using len by (simp add: in_area_def)
  ultimately show "\<exists>w'. write_to_umem_frame_then_read_small_byte_array F w = Ret w'"
    using fix0
    by (simp add: write_to_umem_frame_then_read_small_byte_array_def write_to_umem_checked_def set_len_def Let_def
        is_data_valid_def read_from_umem_checked_def is_access_valid_def mem_range_mut_eq mem_range_in)
qed

end
