(* ===== verification/Umem_Props.thy ===== *)
theory Umem_Props
  imports Loopback_States Unit_Tests
begin

text \<open>
  The properties of the UMEM, its frames, the configurations, the queues and the socket, each with
  a concrete instance.
\<close>

section \<open>Definitions\<close>

text \<open>A platform whose next transmit slot has the last index before the 32-bit wrap.\<close>

definition lb_last_index :: "lb ffi" where
  "lb_last_index = (loopback True)\<lparr>xsk_ring_prod__reserve := (\<lambda>r nb idx w. ((nb, 4294967295), w))\<rparr>"

text \<open>A platform whose socket has no descriptor.\<close>

definition lb_no_fd :: "lb ffi" where
  "lb_no_fd = (loopback True)\<lparr>xsk_socket__fd := (\<lambda>s w. - 1)\<rparr>"

text \<open>A platform on which every wake-up fails with the error number \<open>e\<close>.\<close>

definition lb_failing :: "int \<Rightarrow> lb ffi" where
  "lb_failing e = (loopback True)\<lparr>libc_sendto := (\<lambda>fd w. (- 1, w)), libc_errno := (\<lambda>w. e)\<rparr>"

definition lb_umem :: Umem where
  "lb_umem = \<lparr>umem_config = lb_uc, umem_mtu = 1792, umem_inner = 1\<rparr>"

section \<open>Configurations\<close>

text \<open>
  C30: The bit trick of \<open>is_pow_of_two\<close> is right for every 32-bit value: it accepts exactly the
  powers of two, 0 not among them.
\<close>

theorem is_pow_of_two_correct: "is_pow_of_two v \<longleftrightarrow> (\<exists>k. unat v = 2 ^ k)"
  by (rule is_pow_of_two_unat)

text \<open>
  C28: The UMEM builder is exact. Six values set on any builder, whatever it held, build either the
  configuration with these six values in their own fields, or the error of the first check that
  fails, with its message: no frame, a fill ring or a completion ring whose size is not a power of
  two, frames of less than 2048 bytes. Nothing is rounded or left from before.
\<close>

theorem umem_builder_exact:
  "UmemConfigBuilder_build
     (UmemConfigBuilder_use_huge_pages huge (UmemConfigBuilder_frame_headroom headroom
       (UmemConfigBuilder_comp_queue_size cmpl (UmemConfigBuilder_fill_queue_size fill
         (UmemConfigBuilder_frame_size sz (UmemConfigBuilder_frame_count n b)))))) =
   (if n = 0 then Inl (FrameCountInvalid ''frame count must be greater than 0'')
    else if \<nexists>k. unat fill = 2 ^ k then Inl (FillSizeInvalid ''fill queue size must be a power of two'')
    else if \<nexists>k. unat cmpl = 2 ^ k then Inl (CompSizeInvalid ''comp queue size must be a power of two'')
    else if unat sz < 2048 then Inl (FrameSizeInvalid ''frame size must be greater than or equal to 2048'')
    else Inr \<lparr>frame_count = n, frame_size = sz, fill_queue_size = fill, comp_queue_size = cmpl,
               frame_headroom = headroom, use_huge_pages = huge\<rparr>)"
  by (simp add: UmemConfigBuilder_build_def UmemConfigBuilder_setters UmemConfig_new_def is_pow_of_two_unat frame_size_2048)

text \<open>
  C29: The socket builder is exact. Five values set on any builder build either the configuration with
  these values in their own fields, or the error of the first of the two ring sizes that is not a
  power of two, the receive ring's before the transmit ring's. The flags are passed on unchanged.
\<close>

theorem socket_builder_exact:
  "SocketConfigBuilder_build
     (SocketConfigBuilder_bind_flags bf (SocketConfigBuilder_xdp_flags xf (SocketConfigBuilder_libbpf_flags lf
       (SocketConfigBuilder_tx_queue_size tx (SocketConfigBuilder_rx_queue_size rx b))))) =
   (if \<nexists>k. unat rx = 2 ^ k then Inl (RxSizeInvalid ''rx queue size must be a power of two'')
    else if \<nexists>k. unat tx = 2 ^ k then Inl (TxSizeInvalid ''tx queue size must be a power of two'')
    else Inr \<lparr>rx_queue_size = rx, tx_queue_size = tx, libbpf_flags = lf, xdp_flags = xf, bind_flags = bf\<rparr>)"
  by (simp add: SocketConfigBuilder_build_def SocketConfigBuilder_setters SocketConfig_new_def is_pow_of_two_unat)

section \<open>The unit tests\<close>

text \<open>
  C31: The crate's own unit tests hold of the model, on every machine that grants memory and the
  creation of a UMEM, in every state and for all random bytes: creating UMEMs of the sizes tried, the
  MTU, the checks of the data length, writing and reading back, and the two neighbouring frames that
  are filled completely and lie next to each other. The test marked \<open>should_panic\<close> panics; the
  length of the largest UMEM does not overflow, and both builders rebuild the default configurations;
  \<open>is_pow_of_two\<close> gives the four values the test lists.
\<close>

theorem unit_tests_pass:
  assumes "umem_sys_ok F" "UmemConfig_valid (UmemConfig_default (abi F))" "SocketConfig_valid (SocketConfig_default (abi F))"
  shows "(\<forall>t \<in> set (umem_tests F rnd). \<exists>w'. t w = Ret w') \<and>
    (\<exists>c. umem_create_fails_when_frame_size_is_lt_2048 F w = Panic c) \<and>
    umem_len_doesnt_panic_when_frame_count_and_size_are_u32_max = Ret () \<and>
    umem_config_builder_test (abi F) = Ret () \<and> socket_config_builder_test (abi F) = Ret () \<and>
    check_powers_of_two = Ret ()"
proof (intro conjI)
  show "check_powers_of_two = Ret ()" by (simp add: check_powers_of_two_def assertO_def is_pow_of_two_def)
  show "\<forall>t \<in> set (umem_tests F rnd). \<exists>w'. t w = Ret w'"
    using created_pass [OF assms(1)] data_checks_pass [OF assms(1)] small_writes_pass [OF assms(1)]
      neighbours_pass [OF assms(1)]
    by (simp add: umem_tests_def umem_access_checks_ok_def)
  show "\<exists>c. umem_create_fails_when_frame_size_is_lt_2048 F w = Panic c"
    by (simp add: umem_create_fails_when_frame_size_is_lt_2048_def UmemConfig_new_def)
  show "umem_len_doesnt_panic_when_frame_count_and_size_are_u32_max = Ret ()"
    by (simp add: umem_len_doesnt_panic_when_frame_count_and_size_are_u32_max_def UmemConfig_new_def umem_len_total)
  show "umem_config_builder_test (abi F) = Ret ()"
    using umem_cfg.build_load [OF assms(2), of "UmemConfigBuilder_new (abi F)"]
    by (simp add: umem_config_builder_test_def Let_def UmemConfigBuilder_load_def)
  show "socket_config_builder_test (abi F) = Ret ()"
    using socket_cfg.build_load [OF assms(3), of "SocketConfigBuilder_new (abi F)"]
    by (simp add: socket_config_builder_test_def Let_def SocketConfigBuilder_load_def)
qed

theorem unit_tests_pass_witness:
  "\<exists>w'. write_max_bytes_to_neighbouring_umem_frames (loopback True) (\<lambda>k i. word_of_nat (k + i)) (lb_world True) = Ret w'"
proof -
  have "umem_sys_ok (loopback True)" by (simp add: umem_sys_ok_def loopback_def lb_abi_def)
  moreover have "\<exists>k. (2048 :: nat) = 2 ^ k" by (rule exI [of _ 11]) simp
  then have "UmemConfig_valid (UmemConfig_default (abi (loopback True)))"
      "SocketConfig_valid (SocketConfig_default (abi (loopback True)))"
    by (simp_all add: UmemConfig_valid_def UmemConfig_default_def SocketConfig_valid_def SocketConfig_default_def
        loopback_def lb_abi_def)
  ultimately show ?thesis
    using unit_tests_pass [of "loopback True" "\<lambda>k i. word_of_nat (k + i)" "lb_world True"] by (simp add: umem_tests_def)
qed

text \<open>
  The test of the access checks is commented out in the source; what it asserts does not hold: the
  check compares with the length of the data in the frame, which is 0 for a new frame, and not with
  the frame size.
\<close>

theorem access_check_fresh_fails:
  "0 < n \<Longrightarrow> is_access_valid (frame_at m sz mtu i) n = Inl (CrossesFrameBoundary (i * sz) n)"
  by (simp add: is_access_valid_def)

section \<open>The UMEM\<close>

text \<open>
  C24: \<open>create_umem\<close> on a mapping of the configured size returns one frame per configured frame,
  all of them inside the mapping, no two overlapping, with the MTU that is left of a frame after the
  headrooms.
\<close>

theorem create_umem_partitions:
  assumes "xsk_umem__create F (mem_ptr m) (area_len m)
      \<lparr>uc_fill_size = fill_queue_size c, uc_comp_size = comp_queue_size c, uc_frame_size = frame_size c,
       uc_frame_headroom = frame_headroom c, uc_flags = 0\<rparr> w = ((0, p, fq, cq), w1)"
    and "unat (XDP_PACKET_HEADROOM (abi F)) + unat (frame_headroom c) \<le> unat (frame_size c)"
    and "umem_len c = Ret (area_len m)" "area_len m < 2 ^ 63"
  shows "\<exists>umem fill compl frames. create_umem F \<lparr>ubm_config = c, ubm_mmap_area = m\<rparr> w =
      Ret (Inr (umem, fill, compl, frames), w1) \<and> length frames = unat (frame_count c) \<and>
    (\<forall>i < length frames. placed (frames ! i) (i * unat (frame_size c)) (unat (frame_size c)) \<and>
       frame_mtu (frames ! i) + unat (XDP_PACKET_HEADROOM (abi F)) + unat (frame_headroom c) = unat (frame_size c)) \<and>
    (\<forall>i < length frames. \<forall>j < i. frame_addr (frames ! j) + unat (frame_size c) \<le> frame_addr (frames ! i))"
proof -
  have area: "area_len m = unat (frame_count c) * unat (frame_size c)" using assms(3) by (simp add: umem_len_total)
  have mtu: "the_mtu F c \<le> unat (frame_size c)"
      "the_mtu F c + unat (XDP_PACKET_HEADROOM (abi F)) + unat (frame_headroom c) = unat (frame_size c)"
    using assms(2) by (simp_all add: the_mtu_def)
  note run = create_umem_ok [of F "\<lparr>ubm_config = c, ubm_mmap_area = m\<rparr>" w p fq cq w1 "the_mtu F c"]
  have "placed (umem_frames m c (the_mtu F c) ! i) (i * unat (frame_size c)) (unat (frame_size c))"
    if "i < unat (frame_count c)" for i using umem_frames_placed [OF area assms(4) mtu(1) that] .
  then show ?thesis using run assms(1,2) mtu(2) by (auto simp: the_mtu_def chunk_disjoint)
qed

theorem create_umem_partitions_witness:
  "\<exists>umem fill compl frames. create_umem (loopback True) \<lparr>ubm_config = lb_uc, ubm_mmap_area = lb_area\<rparr> (lb_world True) =
      Ret (Inr (umem, fill, compl, frames), lb_world True) \<and> length frames = 4 \<and>
     (\<forall>i < 4. frame_mtu (frames ! i) = 1792)"
proof -
  have "umem_len lb_uc = Ret (area_len lb_area)" by (simp add: umem_len_total)
  from create_umem_partitions [OF _ _ this, of "loopback True" "lb_world True" 1 1 2 "lb_world True"]
  show ?thesis by (auto simp: loopback_def lb_abi_def)
qed

text \<open>
  When the headrooms do not fit the frame, which the configuration does not check,
  \<open>create_umem\<close> panics in a build with overflow checks.
\<close>

theorem headroom_panics:
  assumes "xsk_umem__create F (mem_ptr m) (area_len m)
      \<lparr>uc_fill_size = fill_queue_size c, uc_comp_size = comp_queue_size c, uc_frame_size = frame_size c,
       uc_frame_headroom = frame_headroom c, uc_flags = 0\<rparr> w = ((0, p, fq, cq), w1)"
    and "unat (frame_size c) < unat (XDP_PACKET_HEADROOM (abi F)) + unat (frame_headroom c)" "overflow_checks F"
  shows "create_umem F \<lparr>ubm_config = c, ubm_mmap_area = m\<rparr> w = Panic ArithOverflow"
  using create_umem_headroom_panics [of F "\<lparr>ubm_config = c, ubm_mmap_area = m\<rparr>"] assms by simp

theorem headroom_panics_witness:
  "UmemConfig_valid (lb_uc\<lparr>frame_headroom := 2048\<rparr>) \<and>
   create_umem (loopback True) \<lparr>ubm_config = lb_uc\<lparr>frame_headroom := 2048\<rparr>, ubm_mmap_area = lb_area\<rparr> (lb_world True) =
     Panic ArithOverflow"
proof
  show "UmemConfig_valid (lb_uc\<lparr>frame_headroom := 2048\<rparr>)"
    by (simp add: UmemConfig_valid_def exI [of _ 6])
  show "create_umem (loopback True) \<lparr>ubm_config = lb_uc\<lparr>frame_headroom := 2048\<rparr>, ubm_mmap_area = lb_area\<rparr> (lb_world True) =
      Panic ArithOverflow"
    by (rule headroom_panics [where p = 1 and fq = 1 and cq = 2 and ?w1.0 = "lb_world True"])
      (simp_all add: loopback_def lb_abi_def)
qed

section \<open>Frames\<close>

text \<open>
  C25: Writing a packet to a placed frame and reading its length back gives the packet, exactly when
  the packet fits the MTU; a larger one is refused with its size and the MTU, and nothing changes.
\<close>

theorem write_read_roundtrip:
  assumes "placed f a sz"
  shows "if length data \<le> frame_mtu f
    then \<exists>f' w'. write_to_umem_checked f data w = Ret (Inr (), f', w') \<and> frame_len f' = length data \<and>
      read_from_umem_checked f' (length data) w' = Ret (Inr data)
    else write_to_umem_checked f data w =
      Ret (Inl (WE_Data (SizeExceedsMtu (length data) (frame_mtu f))), f, w)"
proof (cases "length data \<le> frame_mtu f")
  case True
  then have area: "in_area (frame_mmap f) (frame_addr f) (length data)"
    using assms by (auto simp: placed_def intro: in_area_mono [of _ _ sz])
  let ?w = "region_store (frame_mmap f) (frame_addr f) data w"
  have "read_from_umem_checked (set_len (length data) f) (length data) ?w = Ret (Inr data)"
    using area by (subst read_checked_ok) (simp_all add: set_len_def bytes_at_store_same)
  then show ?thesis using True write_checked_ok [OF area True, of w] by (simp add: set_len_def)
next
  case False
  then show ?thesis using write_checked_too_big [of f data w] by simp
qed

theorem write_read_roundtrip_witness:
  "\<exists>f' w'. write_to_umem_checked (frame_at lb_area 2048 1792 1) [1, 2, 3] (lb_world True) = Ret (Inr (), f', w') \<and>
     frame_len f' = 3 \<and> read_from_umem_checked f' 3 w' = Ret (Inr [1, 2, 3])"
proof -
  have "placed (frame_at lb_area 2048 1792 1) 2048 2048" by (simp add: placed_def in_area_def)
  from write_read_roundtrip [OF this, of "[1, 2, 3]" "lb_world True"] show ?thesis by (simp add: eval_nat_numeral)
qed

text \<open>
  C26: Frames are isolated: a write to one frame of a UMEM leaves what every other frame of it holds
  as it was, whatever its length.
\<close>

theorem write_isolated:
  assumes "placed f (i * sz) sz" "placed g (j * sz) sz" "i \<noteq> j" "frame_mmap f = frame_mmap g"
    and "write_to_umem_checked f data w = Ret (r, f', w')" "n \<le> sz"
  shows "read_from_umem g n w' = read_from_umem g n w"
proof (cases "length data \<le> frame_mtu f")
  case True
  then have len: "length data \<le> sz" "in_area (frame_mmap f) (frame_addr f) (length data)"
    using assms(1) by (auto simp: placed_def intro: in_area_mono)
  have w': "w' = region_store (frame_mmap g) (i * sz) data w"
    using write_checked_ok [OF len(2) True, of w] assms(1,4,5) by (simp add: placed_def)
  have "i * sz + sz \<le> j * sz \<or> j * sz + sz \<le> i * sz" using assms(3) chunk_disjoint by (metis nat_neq_iff)
  then have "i * sz + length data \<le> j * sz \<or> j * sz + n \<le> i * sz" using len(1) assms(6) by linarith
  then show ?thesis
    using mmap_bytes.read_store_other [of "i * sz" data "j * sz" n "frame_mmap g" w] assms(2) w'
    by (simp add: read_from_umem_def placed_def)
next
  case False
  then show ?thesis using write_checked_too_big [of f data w] assms(5) by simp
qed

theorem write_isolated_witness:
  "\<exists>r f' w'. write_to_umem_checked (frame_at lb_area 2048 1792 1) [1, 2, 3] (lb_world True) = Ret (r, f', w') \<and>
     read_from_umem (frame_at lb_area 2048 1792 0) 2048 w' = read_from_umem (frame_at lb_area 2048 1792 0) 2048 (lb_world True)"
proof -
  have pl: "placed (frame_at lb_area 2048 1792 1) (1 * 2048) 2048" "placed (frame_at lb_area 2048 1792 0) (0 * 2048) 2048"
    by (simp_all add: placed_def in_area_def)
  obtain r f' w' where run: "write_to_umem_checked (frame_at lb_area 2048 1792 1) [1, 2, 3] (lb_world True) = Ret (r, f', w')"
    using write_checked_ok [of "frame_at lb_area 2048 1792 1" "[1, 2, 3]"] by (auto simp: in_area_def)
  show ?thesis using write_isolated [OF pl _ _ run, of 2048] run by auto
qed

section \<open>Queues\<close>

text \<open>
  \<open>FillQueue::produce\<close> is all or nothing: with room for all frames it appends their
  addresses to the ring in order and returns their number; otherwise it submits none and returns 0.
\<close>

theorem fill_all_or_nothing:
  assumes "fill_contract F q V" "pv_ok V w" "pv_resv V w = 0" "idx_room F (length (pv_subm V w) + length ds)"
  shows "\<exists>w'. FillQueue_produce F q ds w = Ret (if length ds \<le> pv_free V w then length ds else 0, w') \<and>
    pv_subm V w' = pv_subm V w @ (if length ds \<le> pv_free V w then map frame_addr ds else [])"
  using fill.produce_total [OF assms, of "\<lambda>_. True"] by (auto simp: keeps_def)

theorem fill_all_or_nothing_witness:
  "\<exists>w'. FillQueue_produce (loopback True) lb_fq [frame_at lb_area 2048 1792 2, frame_at lb_area 2048 1792 3] (lb_world True) =
     Ret (2, w') \<and> fill_sent (kern w') = [4096, 6144]"
proof -
  have "pv_ok (lb_P 2048) (lb_world True)" "pv_resv (lb_P 2048) (lb_world True) = 0"
      "idx_room (loopback True) (length (pv_subm (lb_P 2048) (lb_world True)) +
         length [frame_at lb_area 2048 1792 2, frame_at lb_area 2048 1792 3])"
    by (simp_all add: lb_P_def lb_world_def lb_kern_def lb_rx_ok_def desc_chunks_def idx_room_def)
  from fill_all_or_nothing [OF lb_fill_contract this] show ?thesis
    by (simp add: lb_P_def lb_world_def lb_kern_def lb_cap_def numeral_2_eq_2)
qed

text \<open>
  The ring index is advanced with checked 32-bit arithmetic although the rings count modulo
  \<open>2 ^ 32\<close>: in a build with overflow checks, \<open>TxQueue::produce\<close> panics when it fills the slot
  with the last index, after the slot was reserved.
\<close>

theorem ring_index_overflow:
  assumes "xsk_ring_prod__reserve F (tq_inner q) (length ds) 0 w = ((length ds, 2 ^ 32 - 1), w1)" "ds \<noteq> []"
    and "overflow_checks F"
  shows "TxQueue_produce F q ds w = Panic ArithOverflow"
  using assms by (cases ds) (simp_all add: TxQueue_produce_def Let_def add32_def)

theorem ring_index_overflow_witness:
  "TxQueue_produce lb_last_index lb_tq [frame_at lb_area 2048 1792 0] (lb_world True) = Panic ArithOverflow"
  by (rule ring_index_overflow [where ?w1.0 = "lb_world True"]) (simp_all add: lb_last_index_def loopback_def)

text \<open>
  \<open>TxQueue::wakeup\<close> swallows exactly the four errors that mean the kernel will get to it
  (no buffers, try again, busy, network down) and reports every other one with its number.
\<close>

theorem wakeup_errors:
  assumes "libc_sendto F (fd_id (tq_fd q)) w = (ret, w')"
  shows "TxQueue_wakeup F q w =
    (if ret < 0 \<and> libc_errno F w' \<notin> {ENOBUFS (abi F), EAGAIN (abi F), EBUSY (abi F), ENETDOWN (abi F)}
     then Inl (OsErrno (libc_errno F w')) else Inr (), w')"
  using assms by (auto simp: TxQueue_wakeup_def Let_def)

theorem wakeup_errors_witness:
  "TxQueue_wakeup (lb_failing 1) lb_tq (lb_world True) = (Inl (OsErrno 1), lb_world True) \<and>
   TxQueue_wakeup (lb_failing 11) lb_tq (lb_world True) = (Inr (), lb_world True)"
  using wakeup_errors [of "lb_failing 1" lb_tq "lb_world True" "- 1" "lb_world True"]
    wakeup_errors [of "lb_failing 11" lb_tq "lb_world True" "- 1" "lb_world True"]
  by (simp add: lb_failing_def loopback_def lb_abi_def)

section \<open>The socket\<close>

text \<open>
  When the socket has no valid descriptor, \<open>Socket::new\<close> deletes it and reports the return
  code of the earlier, successful call as the error number: always 0, never the failure's.
\<close>

theorem socket_fd_error_zero:
  assumes "CHR 0x00 \<notin> set name" "umem_inner umem \<noteq> 0"
    and "xsk_socket__create F name queue_id (umem_inner umem)
      \<lparr>sc_rx_size = rx_queue_size sc, sc_tx_size = tx_queue_size sc, sc_xdp_flags = xdp_flags sc,
       sc_bind_flags = bind_flags sc, sc_libbpf_flags = libbpf_flags sc\<rparr> w = ((0, xsk, rx_r, tx_r), w1)"
    and "xsk_socket__fd F xsk w1 < 0"
  shows "Socket_new F sc umem name queue_id w =
    Ret (Inl (OsError ''could not retrieve AF_XDP socket file descriptor via xsk_socket__fd()'' (OsErrno 0)),
         xsk_socket__delete F xsk w1)"
  using assms by (simp add: Socket_new_def CString_new_ok Umem_as_mut_ptr_def Let_def)

theorem socket_fd_error_zero_witness:
  "Socket_new lb_no_fd lb_sc lb_umem ''veth0'' 0 (lb_world True) =
     Ret (Inl (OsError ''could not retrieve AF_XDP socket file descriptor via xsk_socket__fd()'' (OsErrno 0)),
          lb_world True)"
  using socket_fd_error_zero [of "''veth0''" lb_umem lb_no_fd 0 lb_sc "lb_world True" 1 3 4 "lb_world True"]
  by (simp add: lb_no_fd_def lb_umem_def loopback_def)

end
