(* ===== verification/Queue_Tests.thy ===== *)
theory Queue_Tests
  imports Xsk_Tx_Ops Xsk Unit_Tests
begin

text \<open>
  The integration tests of the transmit, fill and completion queues (\<^verbatim>\<open>src/tests/tx_queue_tests.rs\<close>,
  \<^verbatim>\<open>src/tests/fill_queue_tests.rs\<close>, \<^verbatim>\<open>src/tests/comp_queue_tests.rs\<close> and \<open>run_test\<close> of
  \<^verbatim>\<open>src/tests/setup/mod.rs\<close>) as executable definitions: a test passes if it returns and fails if it
  panics. The names of the two virtual interfaces and what happens during \<open>thread::sleep\<close> are
  arguments; the releases at the end of a test are left out. The tests pass on every platform whose
  new sockets have empty rings of the configured size.
\<close>

section \<open>Definitions\<close>

type_synonym 'k xsk_test = "Xsk \<Rightarrow> Xsk \<Rightarrow> 'k world \<Rightarrow> 'k world outcome"

definition unwrap_or :: "'a \<Rightarrow> 'a option \<Rightarrow> 'a" where
  "unwrap_or d x = (case x of None \<Rightarrow> d | Some y \<Rightarrow> y)"

definition run_test ::
    "'k ffi \<Rightarrow> string \<Rightarrow> string \<Rightarrow> UmemConfig option \<Rightarrow> SocketConfig option \<Rightarrow> UmemConfig option \<Rightarrow> SocketConfig option \<Rightarrow>
     'k xsk_test \<Rightarrow> 'k world \<Rightarrow> 'k world outcome" where
  "run_test F dev1_if_name dev2_if_name u1 s1 u2 s2 test w =
     (let dev1_umem_config = unwrap_or (UmemConfig_default (abi F)) u1;
          dev2_umem_config = unwrap_or (UmemConfig_default (abi F)) u2;
          dev1_socket_config = unwrap_or (SocketConfig_default (abi F)) s1;
          dev2_socket_config = unwrap_or (SocketConfig_default (abi F)) s2;
          dev1_n_tx_frames = frame_count dev1_umem_config div 2;
          dev2_n_tx_frames = frame_count dev2_umem_config div 2 in
      bindO (Xsk_new F dev1_if_name 0 dev1_umem_config dev1_socket_config (as_usize dev1_n_tx_frames) w) (\<lambda>(xsk1, w1).
        bindO (Xsk_new F dev2_if_name 0 dev2_umem_config dev2_socket_config (as_usize dev2_n_tx_frames) w1) (\<lambda>(xsk2, w2).
          test xsk1 xsk2 w2)))"

text \<open>The end of every test: the configurations for both devices, then \<open>run_test\<close>.\<close>

definition with_configs ::
    "(UmemConfig option \<times> SocketConfig option) outcome \<Rightarrow> 'k ffi \<Rightarrow> string \<Rightarrow> string \<Rightarrow> 'k xsk_test \<Rightarrow> 'k world \<Rightarrow>
     'k world outcome" where
  "with_configs cfg F if1 if2 test w =
     bindO cfg (\<lambda>(u1, s1). bindO cfg (\<lambda>(u2, s2). run_test F if1 if2 u1 s1 u2 s2 test w))"

subsection \<open>The transmit queue\<close>

definition tx_build_configs :: "abi_consts \<Rightarrow> (UmemConfig option \<times> SocketConfig option) outcome" where
  "tx_build_configs A =
     bindO (expectR ''failed to build umem config''
         (UmemConfigBuilder_build (UmemConfigBuilder_frame_count 16 (UmemConfigBuilder_new A)))) (\<lambda>umem_config.
       bindO (expectR ''failed to build socket config''
           (SocketConfigBuilder_build (SocketConfigBuilder_tx_queue_size 4 (SocketConfigBuilder_new A)))) (\<lambda>socket_config.
         Ret (Some umem_config, Some socket_config)))"

text \<open>\<open>assert_eq!(q.produce(&frames[a..b]), n)\<close>, for both queues that submit frames\<close>

definition assert_produce ::
    "('k ffi \<Rightarrow> 'q \<Rightarrow> Frame list \<Rightarrow> 'k world \<Rightarrow> (usize \<times> 'k world) outcome) \<Rightarrow> 'k ffi \<Rightarrow> 'q \<Rightarrow> Frame list \<Rightarrow> nat \<Rightarrow> nat \<Rightarrow> nat \<Rightarrow>
     'k world \<Rightarrow> 'k world outcome" where
  "assert_produce produce F q frames a b n w =
     bindO (sliceO frames a b) (\<lambda>fs. bindO (produce F q fs w) (\<lambda>(k, w'). bindO (assertO (k = n)) (\<lambda>_. Ret w')))"

definition tx_queue_produce_tx_size_frames :: "'k ffi \<Rightarrow> string \<Rightarrow> string \<Rightarrow> 'k world \<Rightarrow> 'k world outcome" where
  "tx_queue_produce_tx_size_frames F if1 if2 =
     with_configs (tx_build_configs (abi F)) F if1 if2 (\<lambda>dev1 _.
       assert_produce TxQueue_produce F (xs_tx_q dev1) (xs_tx_frames dev1) 0 4 4)"

definition tx_queue_produce_gt_tx_size_frames :: "'k ffi \<Rightarrow> string \<Rightarrow> string \<Rightarrow> 'k world \<Rightarrow> 'k world outcome" where
  "tx_queue_produce_gt_tx_size_frames F if1 if2 =
     with_configs (tx_build_configs (abi F)) F if1 if2 (\<lambda>dev1 _.
       assert_produce TxQueue_produce F (xs_tx_q dev1) (xs_tx_frames dev1) 0 5 0)"

definition tx_queue_produce_frames_until_tx_queue_full :: "'k ffi \<Rightarrow> string \<Rightarrow> string \<Rightarrow> 'k world \<Rightarrow> 'k world outcome" where
  "tx_queue_produce_frames_until_tx_queue_full F if1 if2 =
     with_configs (tx_build_configs (abi F)) F if1 if2 (\<lambda>dev1 _ w.
       let frame_descs = xs_tx_frames dev1; q = xs_tx_q dev1 in
       bindO (assert_produce TxQueue_produce F q frame_descs 0 2 2 w) (\<lambda>w1.
         bindO (assert_produce TxQueue_produce F q frame_descs 2 3 1 w1) (\<lambda>w2.
           bindO (assert_produce TxQueue_produce F q frame_descs 3 8 0 w2) (\<lambda>w3.
             assert_produce TxQueue_produce F q frame_descs 3 4 1 w3))))"

subsection \<open>The fill queue\<close>

definition fill_build_configs :: "abi_consts \<Rightarrow> (UmemConfig option \<times> SocketConfig option) outcome" where
  "fill_build_configs A =
     bindO (expectR ''failed to build umem config''
         (UmemConfigBuilder_build (UmemConfigBuilder_fill_queue_size 4
           (UmemConfigBuilder_frame_count 16 (UmemConfigBuilder_new A))))) (\<lambda>umem_config.
       Ret (Some umem_config, None))"

definition fill_queue_produce_tx_size_frames :: "'k ffi \<Rightarrow> string \<Rightarrow> string \<Rightarrow> 'k world \<Rightarrow> 'k world outcome" where
  "fill_queue_produce_tx_size_frames F if1 if2 =
     with_configs (fill_build_configs (abi F)) F if1 if2 (\<lambda>dev1 _.
       assert_produce FillQueue_produce F (xs_fill_q dev1) (xs_rx_frames dev1) 0 4 4)"

definition fill_queue_produce_gt_tx_size_frames :: "'k ffi \<Rightarrow> string \<Rightarrow> string \<Rightarrow> 'k world \<Rightarrow> 'k world outcome" where
  "fill_queue_produce_gt_tx_size_frames F if1 if2 =
     with_configs (fill_build_configs (abi F)) F if1 if2 (\<lambda>dev1 _.
       assert_produce FillQueue_produce F (xs_fill_q dev1) (xs_rx_frames dev1) 0 5 0)"

definition fill_queue_produce_frames_until_full :: "'k ffi \<Rightarrow> string \<Rightarrow> string \<Rightarrow> 'k world \<Rightarrow> 'k world outcome" where
  "fill_queue_produce_frames_until_full F if1 if2 =
     with_configs (fill_build_configs (abi F)) F if1 if2 (\<lambda>dev1 _ w.
       let frames = xs_rx_frames dev1; q = xs_fill_q dev1 in
       bindO (assert_produce FillQueue_produce F q frames 0 2 2 w) (\<lambda>w1.
         bindO (assert_produce FillQueue_produce F q frames 2 3 1 w1) (\<lambda>w2.
           bindO (assert_produce FillQueue_produce F q frames 3 8 0 w2) (\<lambda>w3.
             assert_produce FillQueue_produce F q frames 3 4 1 w3))))"

subsection \<open>The completion queue\<close>

definition comp_build_configs :: "abi_consts \<Rightarrow> (UmemConfig option \<times> SocketConfig option) outcome" where
  "comp_build_configs A =
     bindO (unwrapR (UmemConfigBuilder_build (UmemConfigBuilder_comp_queue_size 8
         (UmemConfigBuilder_frame_count 8 (UmemConfigBuilder_new A))))) (\<lambda>umem_config.
       bindO (unwrapR (SocketConfigBuilder_build (SocketConfigBuilder_tx_queue_size 4 (SocketConfigBuilder_new A))))
         (\<lambda>socket_config. Ret (Some umem_config, Some socket_config)))"

definition comp_queue_consumes_nothing_if_tx_q_unused :: "'k ffi \<Rightarrow> string \<Rightarrow> string \<Rightarrow> 'k world \<Rightarrow> 'k world outcome" where
  "comp_queue_consumes_nothing_if_tx_q_unused F if1 if2 =
     with_configs (comp_build_configs (abi F)) F if1 if2 (\<lambda>dev1 _ w.
       let free_frames = replicate (length (xs_tx_frames dev1)) 0 in
       bindO (nthO (xs_tx_frames dev1) 1) (\<lambda>_.
         bindO (CompQueue_consume F (xs_comp_q dev1) 4 free_frames w) (\<lambda>(n_free_frames, _, w1).
           bindO (assertO (n_free_frames = 0)) (\<lambda>_. Ret w1))))"

definition comp_queue_num_frames_consumed_match_those_produced ::
    "(nat \<Rightarrow> 'k world \<Rightarrow> 'k world) \<Rightarrow> 'k ffi \<Rightarrow> string \<Rightarrow> string \<Rightarrow> 'k world \<Rightarrow> 'k world outcome" where
  "comp_queue_num_frames_consumed_match_those_produced sleep F if1 if2 =
     with_configs (comp_build_configs (abi F)) F if1 if2 (\<lambda>dev1 _ w.
       let free_frames = replicate (length (xs_tx_frames dev1)) 0 in
       bindO (sliceO (xs_tx_frames dev1) 0 2) (\<lambda>fs.
         bindO (TxQueue_produce_and_wakeup F (xs_tx_q dev1) fs w) (\<lambda>(r, w1).
           bindO (unwrapR r) (\<lambda>n.
             bindO (assertO (n = 2)) (\<lambda>_.
               bindO (CompQueue_consume F (xs_comp_q dev1) 4 free_frames (sleep 5 w1)) (\<lambda>(n_free_frames, _, w2).
                 bindO (assertO (n_free_frames = 2)) (\<lambda>_. Ret w2)))))))"

definition comp_queue_addr_of_frames_consumed_match_addr_of_those_produced ::
    "(nat \<Rightarrow> 'k world \<Rightarrow> 'k world) \<Rightarrow> 'k ffi \<Rightarrow> string \<Rightarrow> string \<Rightarrow> 'k world \<Rightarrow> 'k world outcome" where
  "comp_queue_addr_of_frames_consumed_match_addr_of_those_produced sleep F if1 if2 =
     with_configs (comp_build_configs (abi F)) F if1 if2 (\<lambda>dev1 _ w.
       let free_frames = replicate (length (xs_tx_frames dev1)) 0 in
       bindO (sliceO (xs_tx_frames dev1) 2 4) (\<lambda>fs.
         let produced_addrs = map frame_addr fs in
         bindO (TxQueue_produce_and_wakeup F (xs_tx_q dev1) fs w) (\<lambda>(r, w1).
           bindO (unwrapR r) (\<lambda>_.
             bindO (CompQueue_consume F (xs_comp_q dev1) 2 free_frames (sleep 5 w1)) (\<lambda>(n_free_frames, free_frames, w2).
               bindO (assertO (n_free_frames = 2)) (\<lambda>_.
                 bindO (sliceO free_frames 0 n_free_frames) (\<lambda>got.
                   bindO (assertO (got = produced_addrs)) (\<lambda>_. Ret w2))))))))"

text \<open>All of them.\<close>

definition queue_tests ::
    "(nat \<Rightarrow> 'k world \<Rightarrow> 'k world) \<Rightarrow> ('k ffi \<Rightarrow> string \<Rightarrow> string \<Rightarrow> 'k world \<Rightarrow> 'k world outcome) list" where
  "queue_tests sleep =
     [tx_queue_produce_tx_size_frames, tx_queue_produce_gt_tx_size_frames, tx_queue_produce_frames_until_tx_queue_full,
      fill_queue_produce_tx_size_frames, fill_queue_produce_gt_tx_size_frames, fill_queue_produce_frames_until_full,
      comp_queue_consumes_nothing_if_tx_q_unused, comp_queue_num_frames_consumed_match_those_produced sleep,
      comp_queue_addr_of_frames_consumed_match_addr_of_those_produced sleep]"

subsection \<open>What the tests need of the machine they run on\<close>

text \<open>
  A ring with \<open>cap\<close> entries has never more than \<open>cap\<close> of them free, and an entry is free unless
  something was submitted in it; a new ring is empty.
\<close>

definition empty_ring :: "nat \<Rightarrow> ('k, 'e) prod_view \<Rightarrow> 'k world \<Rightarrow> bool" where
  "empty_ring cap V w \<longleftrightarrow>
     (\<forall>v. pv_ok V v \<longrightarrow> pv_resv V v = 0 \<longrightarrow> pv_free V v \<le> cap \<and> cap \<le> pv_free V v + length (pv_subm V v)) \<and>
     pv_ok V w \<and> pv_resv V w = 0 \<and> pv_subm V w = []"

text \<open>The kernel grants two sockets; the rings are those of the first.\<close>

definition new_sockets ::
    "'k ffi \<Rightarrow> string \<Rightarrow> string \<Rightarrow> UmemConfig \<Rightarrow> SocketConfig \<Rightarrow> 'k world \<Rightarrow> FillQueue \<Rightarrow> CompQueue \<Rightarrow> TxQueue \<Rightarrow> 'k world \<Rightarrow> bool" where
  "new_sockets F if1 if2 uc sc w fq cq tq w2 \<longleftrightarrow>
     (\<exists>p up fr cr sp rr tr fd w1 p' up' fr' cr' sp' rr' tr' fd'.
        sys_setup F if1 0 uc sc w p up fr cr sp rr tr fd w1 \<and> sys_setup F if2 0 uc sc w1 p' up' fr' cr' sp' rr' tr' fd' w2 \<and>
        fq = \<lparr>fq_size = fill_queue_size uc, fq_inner = fr\<rparr> \<and> cq = \<lparr>cq_size = comp_queue_size uc, cq_inner = cr\<rparr> \<and>
        tq = \<lparr>tq_inner = tr, tq_fd = Fd_new (abi F) fd, tq_socket = \<lparr>sock_inner = sp\<rparr>\<rparr>)"

definition new_tx_ring :: "'k ffi \<Rightarrow> string \<Rightarrow> string \<Rightarrow> UmemConfig \<Rightarrow> SocketConfig \<Rightarrow> 'k world \<Rightarrow> bool" where
  "new_tx_ring F if1 if2 uc sc w \<longleftrightarrow>
     (\<exists>fq cq tq w2 T. new_sockets F if1 if2 uc sc w fq cq tq w2 \<and> tx_contract F tq T \<and>
        empty_ring (unat (tx_queue_size sc)) T w2)"

definition new_fill_ring :: "'k ffi \<Rightarrow> string \<Rightarrow> string \<Rightarrow> UmemConfig \<Rightarrow> SocketConfig \<Rightarrow> 'k world \<Rightarrow> bool" where
  "new_fill_ring F if1 if2 uc sc w \<longleftrightarrow>
     (\<exists>fq cq tq w2 P. new_sockets F if1 if2 uc sc w fq cq tq w2 \<and> fill_contract F fq P \<and>
        empty_ring (unat (fill_queue_size uc)) P w2)"

text \<open>
  The transmit pair of a new socket. During the sleep the kernel sends what was submitted and completes
  it in order, as long as the completion ring has room for all of it.
\<close>

definition completes :: "nat \<Rightarrow> ('k world \<Rightarrow> 'k world) \<Rightarrow> ('k, xdp_desc) prod_view \<Rightarrow> ('k, u64) cons_view \<Rightarrow> bool" where
  "completes cap nap T C \<longleftrightarrow>
     (\<forall>w. pv_ok T w \<longrightarrow> length (pv_subm T w) \<le> cap \<longrightarrow>
        pv_ok T (nap w) \<and> cv_peek C (nap w) = cv_peek C w \<and> cv_taken C (nap w) = cv_taken C w \<and>
        cv_taken C w @ cv_pend C (nap w) = map xd_addr (pv_subm T w))"

definition new_tx_pair ::
    "(nat \<Rightarrow> 'k world \<Rightarrow> 'k world) \<Rightarrow> 'k ffi \<Rightarrow> string \<Rightarrow> string \<Rightarrow> UmemConfig \<Rightarrow> SocketConfig \<Rightarrow> 'k world \<Rightarrow> bool" where
  "new_tx_pair sleep F if1 if2 uc sc w \<longleftrightarrow>
     (\<exists>fq cq tq w2 T C. new_sockets F if1 if2 uc sc w fq cq tq w2 \<and> tx_platform F tq cq T C {} \<and>
        empty_ring (unat (tx_queue_size sc)) T w2 \<and> tx_idle T C w2 \<and>
        completes (unat (comp_queue_size uc)) (sleep 5) T C)"

text \<open>The constants of libbpf make a configuration that the crate accepts.\<close>

definition defaults_ok :: "abi_consts \<Rightarrow> bool" where
  "defaults_ok A \<longleftrightarrow>
     UmemConfig_valid (UmemConfig_default A) \<and> SocketConfig_valid (SocketConfig_default A) \<and>
     unat (XDP_PACKET_HEADROOM A) + unat (XSK_UMEM__DEFAULT_FRAME_HEADROOM A) \<le> unat (XSK_UMEM__DEFAULT_FRAME_SIZE A)"

section \<open>The sockets are built\<close>

lemma Xsk_new_ok:
  assumes sys: "sys_setup F name queue_id uc sc w p up fr cr sp rr tr fd w1" and n: "n \<le> unat (frame_count uc)"
    and fits: "unat (XDP_PACKET_HEADROOM (abi F)) + unat (frame_headroom uc) \<le> unat (frame_size uc)"
  shows "\<exists>x m. Xsk_new F name queue_id uc sc n w = Ret (x, w1) \<and>
    xs_tx_frames x = take n (umem_frames m uc (the_mtu F uc)) \<and> xs_rx_frames x = drop n (umem_frames m uc (the_mtu F uc)) \<and>
    xs_fill_q x = \<lparr>fq_size = fill_queue_size uc, fq_inner = fr\<rparr> \<and>
    xs_comp_q x = \<lparr>cq_size = comp_queue_size uc, cq_inner = cr\<rparr> \<and>
    xs_tx_q x = \<lparr>tq_inner = tr, tq_fd = Fd_new (abi F) fd, tq_socket = \<lparr>sock_inner = sp\<rparr>\<rparr>"
  using xsk_setup_ok [OF sys fits refl] n by (simp add: Xsk_new_def) blast

lemma with_configs_ok:
  assumes cfg: "cfg = Ret (u, s)" "uc = unwrap_or (UmemConfig_default (abi F)) u" "sc = unwrap_or (SocketConfig_default (abi F)) s"
    and new: "new_sockets F if1 if2 uc sc w fq cq tq w2"
    and fits: "unat (XDP_PACKET_HEADROOM (abi F)) + unat (frame_headroom uc) \<le> unat (frame_size uc)"
  obtains x1 x2 where "\<And>test. with_configs cfg F if1 if2 test w = test x1 x2 w2"
    "xs_fill_q x1 = fq" "xs_comp_q x1 = cq" "xs_tx_q x1 = tq"
    "length (xs_tx_frames x1) = unat (frame_count uc) div 2"
    "length (xs_rx_frames x1) = unat (frame_count uc) - unat (frame_count uc) div 2"
proof -
  obtain p up fr cr sp rr tr fd w1 p' up' fr' cr' sp' rr' tr' fd' where
    sys: "sys_setup F if1 0 uc sc w p up fr cr sp rr tr fd w1" "sys_setup F if2 0 uc sc w1 p' up' fr' cr' sp' rr' tr' fd' w2"
    and q: "fq = \<lparr>fq_size = fill_queue_size uc, fq_inner = fr\<rparr>" "cq = \<lparr>cq_size = comp_queue_size uc, cq_inner = cr\<rparr>"
      "tq = \<lparr>tq_inner = tr, tq_fd = Fd_new (abi F) fd, tq_socket = \<lparr>sock_inner = sp\<rparr>\<rparr>"
    using new unfolding new_sockets_def by blast
  let ?n = "as_usize (frame_count uc div 2)"
  have n: "?n = unat (frame_count uc) div 2" by (simp add: as_usize_def unat_div)
  then have le: "?n \<le> unat (frame_count uc)" by simp
  obtain x1 m where x1: "Xsk_new F if1 0 uc sc ?n w = Ret (x1, w1)" "xs_tx_frames x1 = take ?n (umem_frames m uc (the_mtu F uc))"
      "xs_rx_frames x1 = drop ?n (umem_frames m uc (the_mtu F uc))" "xs_fill_q x1 = fq" "xs_comp_q x1 = cq" "xs_tx_q x1 = tq"
    using Xsk_new_ok [OF sys(1) le fits] q by blast
  obtain x2 where "Xsk_new F if2 0 uc sc ?n w1 = Ret (x2, w2)" using Xsk_new_ok [OF sys(2) le fits] by blast
  then have "with_configs cfg F if1 if2 test w = test x1 x2 w2" for test
    using x1(1) cfg by (simp add: with_configs_def run_test_def Let_def)
  then show thesis using that x1 n le by simp
qed

lemma build_configs_ok:
  assumes "defaults_ok A"
  shows "tx_build_configs A = Ret (Some ((UmemConfig_default A)\<lparr>frame_count := 16\<rparr>), Some ((SocketConfig_default A)\<lparr>tx_queue_size := 4\<rparr>))"
    "fill_build_configs A = Ret (Some ((UmemConfig_default A)\<lparr>frame_count := 16, fill_queue_size := 4\<rparr>), None)"
    "comp_build_configs A =
       Ret (Some ((UmemConfig_default A)\<lparr>frame_count := 8, comp_queue_size := 8\<rparr>), Some ((SocketConfig_default A)\<lparr>tx_queue_size := 4\<rparr>))"
proof -
  have pow: "\<exists>k. (4 :: nat) = 2 ^ k" "\<exists>k. (8 :: nat) = 2 ^ k" by (rule exI [of _ 2], simp) (rule exI [of _ 3], simp)
  note defs = UmemConfigBuilder_build_def UmemConfigBuilder_setters UmemConfigBuilder_new_def UmemConfigBuilder_default_def
    SocketConfigBuilder_build_def SocketConfigBuilder_setters SocketConfigBuilder_new_def SocketConfigBuilder_default_def
    UmemConfig_new_Inr SocketConfig_new_Inr UmemConfig_valid_def SocketConfig_valid_def UmemConfig_default_def SocketConfig_default_def
  show "tx_build_configs A = Ret (Some ((UmemConfig_default A)\<lparr>frame_count := 16\<rparr>), Some ((SocketConfig_default A)\<lparr>tx_queue_size := 4\<rparr>))"
    using assms pow by (simp add: tx_build_configs_def defaults_ok_def defs bindO_Ret_iff)
  show "fill_build_configs A = Ret (Some ((UmemConfig_default A)\<lparr>frame_count := 16, fill_queue_size := 4\<rparr>), None)"
    using assms pow by (simp add: fill_build_configs_def defaults_ok_def defs bindO_Ret_iff)
  show "comp_build_configs A =
       Ret (Some ((UmemConfig_default A)\<lparr>frame_count := 8, comp_queue_size := 8\<rparr>), Some ((SocketConfig_default A)\<lparr>tx_queue_size := 4\<rparr>))"
    using assms pow by (simp add: comp_build_configs_def defaults_ok_def defs bindO_Ret_iff)
qed

section \<open>Filling a ring\<close>

context batch_producer
begin

text \<open>A ring takes a batch while there is room for all of it, and never one that is larger than the ring.\<close>

lemma assert_produce_ok:
  assumes con: "contract F q V" and size: "empty_ring cap V v" and ok: "pv_ok V w" "pv_resv V w = 0"
    and ab: "a \<le> b" "b \<le> length frames" and room: "idx_room F (length (pv_subm V w) + (b - a))"
    and n: "n = (if cap < b - a then 0 else b - a)" "cap < b - a \<or> length (pv_subm V w) + (b - a) \<le> cap"
  shows "\<exists>w'. assert_produce produce F q frames a b n w = Ret w' \<and> pv_ok V w' \<and> pv_resv V w' = 0 \<and>
    length (pv_subm V w') = length (pv_subm V w) + n"
proof -
  let ?fs = "take (b - a) (drop a frames)"
  have len: "length ?fs = b - a" using ab by simp
  have "pv_free V w \<le> cap" "cap \<le> pv_free V w + length (pv_subm V w)" using size ok by (simp_all add: empty_ring_def)
  then have "b - a \<le> pv_free V w \<longleftrightarrow> \<not> cap < b - a" using n(2) by auto
  then show ?thesis
    using produce_total [OF con ok, of ?fs "\<lambda>_. True"] room len ab n(1) by (auto simp: assert_produce_def keeps_def sliceO_def)
qed

lemma fill_up_ok:
  assumes con: "contract F q V" and new: "empty_ring 4 V w" and frames: "8 \<le> length frames"
  shows "\<exists>w'. assert_produce produce F q frames 0 4 4 w = Ret w'" "\<exists>w'. assert_produce produce F q frames 0 5 0 w = Ret w'"
    "\<exists>w'. bindO (assert_produce produce F q frames 0 2 2 w) (\<lambda>w1. bindO (assert_produce produce F q frames 2 3 1 w1) (\<lambda>w2.
       bindO (assert_produce produce F q frames 3 8 0 w2) (\<lambda>w3. assert_produce produce F q frames 3 4 1 w3))) = Ret w'"
proof -
  note step = assert_produce_ok [OF con new]
  have w: "pv_ok V w" "pv_resv V w = 0" "length (pv_subm V w) = 0" using new by (simp_all add: empty_ring_def)
  have room: "k < 10 \<Longrightarrow> idx_room F k" for k by (simp add: idx_room_def)
  show "\<exists>w'. assert_produce produce F q frames 0 4 4 w = Ret w'" "\<exists>w'. assert_produce produce F q frames 0 5 0 w = Ret w'"
    using step [OF w(1,2), of 0 4 frames 4] step [OF w(1,2), of 0 5 frames 0] frames w(3) room by auto
  obtain w1 where 1: "assert_produce produce F q frames 0 2 2 w = Ret w1" "pv_ok V w1" "pv_resv V w1 = 0" "length (pv_subm V w1) = 2"
    using step [OF w(1,2), of 0 2 frames 2] frames w(3) room by auto
  obtain w2 where 2: "assert_produce produce F q frames 2 3 1 w1 = Ret w2" "pv_ok V w2" "pv_resv V w2 = 0" "length (pv_subm V w2) = 3"
    using step [OF 1(2,3), of 2 3 frames 1] frames 1(4) room by auto
  obtain w3 where 3: "assert_produce produce F q frames 3 8 0 w2 = Ret w3" "pv_ok V w3" "pv_resv V w3 = 0" "length (pv_subm V w3) = 3"
    using step [OF 2(2,3), of 3 8 frames 0] frames 2(4) room by auto
  show "\<exists>w'. bindO (assert_produce produce F q frames 0 2 2 w) (\<lambda>w1. bindO (assert_produce produce F q frames 2 3 1 w1) (\<lambda>w2.
       bindO (assert_produce produce F q frames 3 8 0 w2) (\<lambda>w3. assert_produce produce F q frames 3 4 1 w3))) = Ret w'"
    using 1(1) 2(1) 3(1) step [OF 3(2,3), of 3 4 frames 1] frames 3(4) room by auto
qed

end

lemma producer_tests_pass:
  assumes A: "defaults_ok (abi F)"
  shows "new_tx_ring F if1 if2 ((UmemConfig_default (abi F))\<lparr>frame_count := 16\<rparr>) ((SocketConfig_default (abi F))\<lparr>tx_queue_size := 4\<rparr>) w \<Longrightarrow>
      t \<in> {tx_queue_produce_tx_size_frames, tx_queue_produce_gt_tx_size_frames, tx_queue_produce_frames_until_tx_queue_full} \<Longrightarrow>
      \<exists>w'. t F if1 if2 w = Ret w'"
    "new_fill_ring F if1 if2 ((UmemConfig_default (abi F))\<lparr>frame_count := 16, fill_queue_size := 4\<rparr>) (SocketConfig_default (abi F)) w \<Longrightarrow>
      t \<in> {fill_queue_produce_tx_size_frames, fill_queue_produce_gt_tx_size_frames, fill_queue_produce_frames_until_full} \<Longrightarrow>
      \<exists>w'. t F if1 if2 w = Ret w'"
proof -
  let ?c = "(UmemConfig_default (abi F))\<lparr>frame_count := 16\<rparr>" and ?s = "(SocketConfig_default (abi F))\<lparr>tx_queue_size := 4\<rparr>"
  assume "new_tx_ring F if1 if2 ?c ?s w" and t: "t \<in> {tx_queue_produce_tx_size_frames, tx_queue_produce_gt_tx_size_frames, tx_queue_produce_frames_until_tx_queue_full}"
  then obtain fq cq tq w2 T where new: "new_sockets F if1 if2 ?c ?s w fq cq tq w2" and T: "tx_contract F tq T" "empty_ring 4 T w2"
    by (auto simp: new_tx_ring_def)
  obtain x1 x2 where run: "\<And>test. with_configs (tx_build_configs (abi F)) F if1 if2 test w = test x1 x2 w2"
      "xs_tx_q x1 = tq" "length (xs_tx_frames x1) = 8"
    by (rule with_configs_ok [OF build_configs_ok(1) [OF A] _ _ new]) (use A in \<open>auto simp: unwrap_or_def defaults_ok_def UmemConfig_default_def\<close>)
  show "\<exists>w'. t F if1 if2 w = Ret w'"
    using t txq.fill_up_ok [OF T, of "xs_tx_frames x1"] run(2,3)
    by (auto simp: tx_queue_produce_tx_size_frames_def tx_queue_produce_gt_tx_size_frames_def
        tx_queue_produce_frames_until_tx_queue_full_def run(1) Let_def)
next
  let ?c = "(UmemConfig_default (abi F))\<lparr>frame_count := 16, fill_queue_size := 4\<rparr>" and ?s = "SocketConfig_default (abi F)"
  assume "new_fill_ring F if1 if2 ?c ?s w" and t: "t \<in> {fill_queue_produce_tx_size_frames, fill_queue_produce_gt_tx_size_frames, fill_queue_produce_frames_until_full}"
  then obtain fq cq tq w2 P where new: "new_sockets F if1 if2 ?c ?s w fq cq tq w2" and P: "fill_contract F fq P" "empty_ring 4 P w2"
    by (auto simp: new_fill_ring_def)
  obtain x1 x2 where run: "\<And>test. with_configs (fill_build_configs (abi F)) F if1 if2 test w = test x1 x2 w2"
      "xs_fill_q x1 = fq" "length (xs_rx_frames x1) = 8"
    by (rule with_configs_ok [OF build_configs_ok(2) [OF A] _ _ new]) (use A in \<open>auto simp: unwrap_or_def defaults_ok_def UmemConfig_default_def\<close>)
  show "\<exists>w'. t F if1 if2 w = Ret w'"
    using t fill.fill_up_ok [OF P, of "xs_rx_frames x1"] run(2,3)
    by (auto simp: fill_queue_produce_tx_size_frames_def fill_queue_produce_gt_tx_size_frames_def
        fill_queue_produce_frames_until_full_def run(1) Let_def)
qed

section \<open>Completing\<close>

lemma consumes_produced:
  assumes plat: "tx_platform F tq cq T C {}" and new: "empty_ring 4 T w" and idle: "tx_idle T C w" and nap: "completes 8 nap T C"
    and fs: "length fs = 2" "2 \<le> n" "2 \<le> length buf"
  shows "\<exists>w1 w2. TxQueue_produce_and_wakeup F tq fs w = Ret (Inr 2, w1) \<and>
    CompQueue_consume F cq n buf (nap w1) = Ret (2, map frame_addr fs @ drop 2 buf, w2)"
proof -
  have P: "tx_contract F tq T" "comp_contract F cq C" "cv_ok C = pv_ok T" "keeps (pv_ok T) (comp_same C {} w) (tx_ops F tq)"
      "wakeup_law F tq T C {}"
    using plat by (simp_all add: tx_platform_def)
  have w: "pv_ok T w" "pv_resv T w = 0" "pv_subm T w = []" "cv_peek C w = 0" "cv_taken C w = []" "4 \<le> pv_free T w"
    using new idle by (auto simp: empty_ring_def tx_idle_def)
  obtain w1 where w1: "TxQueue_produce_and_wakeup F tq fs w = Ret (Inr 2, w1)" "pv_ok T w1" "comp_same C {} w w1"
      "pv_subm T w1 = map tx_entry fs"
    using produce_and_wakeup_ok [OF P(1,4,5) w(1,2), of fs True] fs(1) w(3,6) by (auto simp: idx_room_def)
  have c: "cv_peek C w1 = 0" "cv_taken C w1 = []" using w1(3) w(4,5) by (simp_all add: comp_same_def)
  have "pv_ok T (nap w1)" "cv_peek C (nap w1) = 0" "cv_taken C (nap w1) = []" "cv_pend C (nap w1) = map frame_addr fs"
    using nap [unfolded completes_def, rule_format, OF w1(2)] w1(4) c fs(1) by (simp_all add: tx_entry_def o_def)
  then show ?thesis
    using w1(1) compq.consume_ok [OF P(2), of "nap w1" 2 n buf "\<lambda>_. True"] P(3) fs
    by (auto simp: keeps_def idx_room_def)
qed

lemma consumes_nothing:
  assumes plat: "tx_platform F tq cq T C {}" and idle: "tx_idle T C w"
  shows "\<exists>w'. CompQueue_consume F cq n buf w = Ret (0, buf, w')"
proof -
  have "comp_contract F cq C" "cv_ok C w" "cv_peek C w = 0" "cv_taken C w = []"
    using assms by (simp_all add: tx_platform_def tx_idle_def)
  moreover have "mset (cv_pend C w) \<subseteq># {#}"
    using assms by (fastforce simp: tx_platform_def tx_idle_def completion_law_def)
  then have "cv_pend C w = []" by simp
  ultimately show ?thesis using compq.consume_ok [of F cq C w 0 n buf "\<lambda>_. True"] by (auto simp: keeps_def idx_room_def)
qed

lemma comp_tests_pass:
  assumes A: "defaults_ok (abi F)"
    and pair: "new_tx_pair sleep F if1 if2 ((UmemConfig_default (abi F))\<lparr>frame_count := 8, comp_queue_size := 8\<rparr>)
      ((SocketConfig_default (abi F))\<lparr>tx_queue_size := 4\<rparr>) w"
    and t: "t \<in> {comp_queue_consumes_nothing_if_tx_q_unused, comp_queue_num_frames_consumed_match_those_produced sleep,
      comp_queue_addr_of_frames_consumed_match_addr_of_those_produced sleep}"
  shows "\<exists>w'. t F if1 if2 w = Ret w'"
proof -
  let ?c = "(UmemConfig_default (abi F))\<lparr>frame_count := 8, comp_queue_size := 8\<rparr>" and ?s = "(SocketConfig_default (abi F))\<lparr>tx_queue_size := 4\<rparr>"
  obtain fq cq tq w2 T C where new: "new_sockets F if1 if2 ?c ?s w fq cq tq w2" and plat: "tx_platform F tq cq T C {}"
      "empty_ring 4 T w2" "tx_idle T C w2" "completes 8 (sleep 5) T C"
    using pair by (auto simp: new_tx_pair_def)
  obtain x1 x2 where run: "\<And>test. with_configs (comp_build_configs (abi F)) F if1 if2 test w = test x1 x2 w2"
      "xs_comp_q x1 = cq" "xs_tx_q x1 = tq" "length (xs_tx_frames x1) = 4"
    by (rule with_configs_ok [OF build_configs_ok(3) [OF A] _ _ new]) (use A in \<open>auto simp: unwrap_or_def defaults_ok_def UmemConfig_default_def\<close>)
  let ?buf = "replicate 4 (0 :: nat)" and ?f = "take 2 (xs_tx_frames x1)" and ?g = "take 2 (drop 2 (xs_tx_frames x1))"
  obtain v0 where 0: "CompQueue_consume F cq 4 ?buf w2 = Ret (0, ?buf, v0)" using consumes_nothing [OF plat(1,3)] by blast
  obtain v1 v2 where 1: "TxQueue_produce_and_wakeup F tq ?f w2 = Ret (Inr 2, v1)"
      "CompQueue_consume F cq 4 ?buf (sleep 5 v1) = Ret (2, map frame_addr ?f @ drop 2 ?buf, v2)"
    using consumes_produced [OF plat, of ?f 4 ?buf] run(4) by auto
  obtain v3 v4 where 2: "TxQueue_produce_and_wakeup F tq ?g w2 = Ret (Inr 2, v3)"
      "CompQueue_consume F cq 2 ?buf (sleep 5 v3) = Ret (2, map frame_addr ?g @ drop 2 ?buf, v4)"
    using consumes_produced [OF plat, of ?g 2 ?buf] run(4) by auto
  from t consider "t = comp_queue_consumes_nothing_if_tx_q_unused" | "t = comp_queue_num_frames_consumed_match_those_produced sleep" |
    "t = comp_queue_addr_of_frames_consumed_match_addr_of_those_produced sleep" by auto
  then show ?thesis
  proof cases
    case 1
    then show ?thesis using 0 run by (simp add: comp_queue_consumes_nothing_if_tx_q_unused_def run(1) nthO_def)
  next
    case 2
    then show ?thesis using \<open>TxQueue_produce_and_wakeup F tq ?f w2 = _\<close> 1(2) run(2-4)
      by (simp add: comp_queue_num_frames_consumed_match_those_produced_def run(1) sliceO_def)
  next
    case 3
    then show ?thesis using \<open>TxQueue_produce_and_wakeup F tq ?g w2 = _\<close> 2(2) run(2-4)
      by (simp add: comp_queue_addr_of_frames_consumed_match_addr_of_those_produced_def run(1) sliceO_def Let_def)
  qed
qed

end
