(* ===== verification/Loopback_Small.thy ===== *)
theory Loopback_Small
  imports Loopback_States Queue_Tests
begin

text \<open>
  The reference platform with producer rings of four entries, as the tests of the queues configure
  them: a batch of more than four is refused.
\<close>

section \<open>Definitions\<close>

definition small_rings :: "lb ffi" where
  "small_rings = (loopback True)\<lparr>xsk_ring_prod__reserve :=
     (\<lambda>r nb idx w. if 4 < nb then ((0, idx), w) else lb_reserve r nb idx w)\<rparr>"

definition small_T :: "(lb, xdp_desc) prod_view" where
  "small_T = (lb_T True)\<lparr>pv_free := (\<lambda>w. 4)\<rparr>"

definition small_P :: "(lb, u64) prod_view" where
  "small_P = (lb_P 4096)\<lparr>pv_free := (\<lambda>w. 4)\<rparr>"

section \<open>The contracts\<close>

lemma small_tx_contract: "tx_contract small_rings lb_tq small_T"
proof -
  have "put_law (xsk_ring_prod__tx_desc (loopback True) 4) (lb_T True)" "submit_law (loopback True) 4 (lb_T True)"
    using lb_tx_contract [of True True] by (simp_all add: tx_contract_def prod_ring_def lb_tq_def)
  then have "put_law (xsk_ring_prod__tx_desc small_rings 4) small_T" "submit_law small_rings 4 small_T"
    by (simp_all add: put_law_def submit_law_def pv_index_def small_T_def small_rings_def)
  moreover have "reserve_law small_rings 4 small_T"
    by (auto simp: reserve_law_def small_T_def small_rings_def lb_T_def lb_ops lb_tx_ok_def pv_index_def lb_cap_def split: if_splits)
  ultimately show ?thesis by (simp add: tx_contract_def prod_ring_def lb_tq_def)
qed

lemma small_fill_contract: "fill_contract small_rings \<lparr>fq_size = n, fq_inner = 1\<rparr> small_P"
proof -
  have "put_law (xsk_ring_prod__fill_addr (loopback True) 1) (lb_P 4096)" "submit_law (loopback True) 1 (lb_P 4096)"
    using lb_fill_contract [of True 4096] by (simp_all add: fill_contract_def prod_ring_def lb_fq_def)
  then have "put_law (xsk_ring_prod__fill_addr small_rings 1) small_P" "submit_law small_rings 1 small_P"
    by (simp_all add: put_law_def submit_law_def pv_index_def small_P_def small_rings_def)
  moreover have "reserve_law small_rings 1 small_P"
    by (auto simp: reserve_law_def small_P_def small_rings_def lb_P_def lb_ops lb_rx_ok_def pv_index_def lb_cap_def split: if_splits)
  ultimately show ?thesis by (simp add: fill_contract_def prod_ring_def)
qed

lemma small_tx_platform: "tx_platform small_rings lb_tq \<lparr>cq_size = n, cq_inner = 2\<rparr> small_T (lb_C True) {}"
proof -
  let ?cq = "\<lparr>cq_size = n, cq_inner = 2\<rparr>"
  have "comp_contract small_rings ?cq (lb_C True) = comp_contract (loopback True) lb_cq (lb_C True)"
    by (simp add: comp_contract_def cons_ring_def peek_law_def release_law_def small_rings_def lb_cq_def)
  then have "comp_contract small_rings ?cq (lb_C True)" using lb_comp_contract by simp
  moreover have "keeps (pv_ok small_T) (comp_same (lb_C True) {} w) (tx_ops small_rings lb_tq)" for w
    by (auto simp: keeps_def tx_ops_def prod_ops_def comp_same_def same_on_def small_T_def small_rings_def lb_sel lb_ops)
  moreover have "keeps (pv_ok small_T) (tx_same small_T {} w) (comp_ops small_rings ?cq)" for w
    by (auto simp: keeps_def comp_ops_def cons_ops_def tx_same_def same_on_def small_T_def small_rings_def lb_sel lb_ops Let_def)
  moreover have "wakeup_law small_rings lb_tq small_T (lb_C True) {}"
    by (auto simp: wakeup_law_def tx_same_def comp_same_def same_on_def small_T_def small_rings_def lb_sel)
  moreover have "completion_law small_T (lb_C True)"
    using lb_completion [of True] by (simp add: completion_law_def small_T_def)
  moreover have "outside_umem small_T (lb_C True)" "cv_ok (lb_C True) = pv_ok small_T"
    by (simp_all add: outside_umem_def small_T_def lb_T_def lb_C_def)
  ultimately show ?thesis using small_tx_contract by (simp add: tx_platform_def)
qed

section \<open>What the tests need\<close>

lemma small_empty: "empty_ring 4 small_T (lb_world True)" "empty_ring 4 small_P (lb_world True)" "tx_idle small_T (lb_C True) (lb_world True)"
  by (simp_all add: empty_ring_def tx_idle_def small_T_def small_P_def lb_T_def lb_P_def lb_C_def lb_world_def lb_kern_def
      lb_tx_ok_def lb_rx_ok_def lb_cap_def desc_chunks_def)

lemma small_completes: "completes 8 (\<lambda>w. w) small_T (lb_C True)"
  unfolding completes_def
proof (intro allI impI)
  fix w :: "lb world" assume "pv_ok small_T w" and len: "length (pv_subm small_T w) \<le> 8"
  then have k: "lb_tx_ok True (kern w)" by (simp add: small_T_def lb_T_def)
  then obtain rest where rest: "map xd_addr (tx_sent (kern w)) = tx_back (kern w) @ rest" by (auto simp: lb_tx_ok_def prefix_def)
  from arg_cong [OF rest, of length] have "length (tx_sent (kern w)) = length (tx_back (kern w)) + length rest" by simp
  then have "tx_waiting (kern w) = rest"
    using k rest len by (simp add: tx_waiting_def Let_def lb_tx_ok_def lb_cap_def small_T_def lb_T_def)
  then show "pv_ok small_T w \<and> cv_peek (lb_C True) w = cv_peek (lb_C True) w \<and> cv_taken (lb_C True) w = cv_taken (lb_C True) w \<and>
      cv_taken (lb_C True) w @ cv_pend (lb_C True) w = map xd_addr (pv_subm small_T w)"
    using rest k by (simp add: small_T_def lb_T_def lb_C_def)
qed

lemma small_sockets:
  "new_sockets small_rings ''veth0'' ''veth1'' uc sc w \<lparr>fq_size = fill_queue_size uc, fq_inner = 1\<rparr>
     \<lparr>cq_size = comp_queue_size uc, cq_inner = 2\<rparr> lb_tq w"
proof -
  have "sys_setup small_rings ''veth0'' 0 uc sc w 4096 1 1 2 1 3 4 5 w" "sys_setup small_rings ''veth1'' 0 uc sc w 4096 1 1 2 1 3 4 5 w"
    by (simp_all add: sys_setup_def Let_def small_rings_def loopback_def lb_abi_def)
  then show ?thesis unfolding new_sockets_def by (force simp: lb_tq_def small_rings_def loopback_def)
qed

lemma small_ready:
  "tx_queue_size sc = 4 \<Longrightarrow> new_tx_ring small_rings ''veth0'' ''veth1'' uc sc (lb_world True)"
  "fill_queue_size uc = 4 \<Longrightarrow> new_fill_ring small_rings ''veth0'' ''veth1'' uc sc (lb_world True)"
  "tx_queue_size sc = 4 \<Longrightarrow> comp_queue_size uc = 8 \<Longrightarrow>
     new_tx_pair (\<lambda>_ w. w) small_rings ''veth0'' ''veth1'' uc sc (lb_world True)"
  unfolding new_tx_ring_def new_fill_ring_def new_tx_pair_def
  using small_sockets [of uc sc "lb_world True"] small_tx_contract small_fill_contract [of 4] small_tx_platform [of 8]
    small_empty small_completes
  by (simp_all) metis+

lemma small_defaults: "defaults_ok (abi small_rings)"
proof -
  have "\<exists>k. (2048 :: nat) = 2 ^ k" by (rule exI [of _ 11]) simp
  then show ?thesis
    by (simp add: defaults_ok_def UmemConfig_valid_def UmemConfig_default_def SocketConfig_valid_def SocketConfig_default_def
        small_rings_def loopback_def lb_abi_def)
qed

end
