(* ===== verification/Xsk_Safety.thy ===== *)
theory Xsk_Safety
  imports Xsk
begin

text \<open>
  What holds of a socket however the kernel and libbpf behave: no contract of a ring is assumed, the
  foreign functions return what they like and the world changes at will between the calls. The
  positions and the frames of the transmit end stay in order, so that no call on it reads or writes
  outside the mapping. The receive end trusts the addresses it is given; its indices stay in range.
\<close>

section \<open>Definitions\<close>

text \<open>Frame \<open>i\<close> is where \<open>create_umem\<close> put it, and its MTU does not exceed its size.\<close>

definition own_frame :: "MmapArea \<Rightarrow> nat \<Rightarrow> nat \<Rightarrow> Frame \<Rightarrow> bool" where
  "own_frame m sz i f \<longleftrightarrow> frame_mmap f = m \<and> frame_addr f = i * sz \<and> frame_mtu f \<le> sz"

definition own_frames :: "MmapArea \<Rightarrow> nat \<Rightarrow> Frame list \<Rightarrow> bool" where
  "own_frames m sz fs \<longleftrightarrow> (\<forall>i < length fs. own_frame m sz i (fs ! i))"

definition tx_shape :: "MmapArea \<Rightarrow> u32 \<Rightarrow> nat \<Rightarrow> nat \<Rightarrow> XskTx \<Rightarrow> bool" where
  "tx_shape m sz n b s \<longleftrightarrow>
     own_frames m (unat sz) (tx_frames s) \<and> length (tx_frames s) = n \<and> tx_frame_size s = sz \<and> tx_cursor s < n \<and>
     batch_size s = b \<and> cur_batch_size s < b"

definition rx_shape :: "nat \<Rightarrow> XskRx \<Rightarrow> bool" where
  "rx_shape k r \<longleftrightarrow> length (rx_frames r) = k \<and> length (filled_frames r) = k \<and> rx_cursor r < k"

text \<open>
  Any sequence of calls on a socket that return, with the kernel free to change everything in between,
  the memory included.
\<close>

inductive any_run :: "'k ffi \<Rightarrow> Xsk2 \<Rightarrow> 'k world \<Rightarrow> Xsk2 \<Rightarrow> 'k world \<Rightarrow> bool" for F x0 w0 where
  any_start: "any_run F x0 w0 x0 w0"
| any_kernel: "any_run F x0 w0 x w \<Longrightarrow> any_run F x0 w0 x w'"
| any_prefill: "any_run F x0 w0 x w \<Longrightarrow> prefill (x2_tx x) data w = Ret (s', w') \<Longrightarrow> any_run F x0 w0 (x\<lparr>x2_tx := s'\<rparr>) w'"
| any_send: "any_run F x0 w0 x w \<Longrightarrow> send F fuel (x2_tx x) data w = Ret (r, s', w') \<Longrightarrow> any_run F x0 w0 (x\<lparr>x2_tx := s'\<rparr>) w'"
| any_send_apply: "any_run F x0 w0 x w \<Longrightarrow> send_apply F fuel (x2_tx x) f () w = Ret (r, s', c', w') \<Longrightarrow>
    any_run F x0 w0 (x\<lparr>x2_tx := s'\<rparr>) w'"
| any_drain: "any_run F x0 w0 x w \<Longrightarrow> drain F fuel (x2_tx x) w = Ret (s', w') \<Longrightarrow> any_run F x0 w0 (x\<lparr>x2_tx := s'\<rparr>) w'"
| any_recv: "any_run F x0 w0 x w \<Longrightarrow> recv F fuel (x2_rx x) pkt w = Ret (k, pkt', r', w') \<Longrightarrow>
    any_run F x0 w0 (x\<lparr>x2_rx := r'\<rparr>) w'"
| any_recv_apply: "any_run F x0 w0 x w \<Longrightarrow> recv_apply F fuel (x2_rx x) g () w = Ret (c', r', w') \<Longrightarrow>
    any_run F x0 w0 (x\<lparr>x2_rx := r'\<rparr>) w'"

section \<open>Staying defined\<close>

text \<open>A sequence is undefined if one of its parts is; the checked operations panic at worst.\<close>

lemma bindO_UB_iff: "bindO x f = UB \<longleftrightarrow> x = UB \<or> (\<exists>y. x = Ret y \<and> f y = UB)"
  by (cases x) auto

named_theorems no_ub \<open>operations that are never undefined behaviour\<close>

lemma checked_no_ub [no_ub]:
  "add64 chk a b \<noteq> UB" "sub64 chk a b \<noteq> UB" "rem64 a b \<noteq> UB" "add32 chk x y \<noteq> UB" "div32 x y \<noteq> UB"
  "nthO xs i \<noteq> UB" "setO xs i z \<noteq> UB" "sliceO xs i j \<noteq> UB" "expectR msg e \<noteq> UB" "unwrapR e \<noteq> UB"
  by (simp_all add: add64_def sub64_def rem64_def add32_def div32_def nthO_def setO_def sliceO_def)
    (cases e; simp)+

lemma comp_loop_no_ub [no_ub]: "comp_loop F r idx w ks ff \<noteq> UB"
  by (induction ks arbitrary: ff) (auto simp: bindO_UB_iff no_ub)

lemma free_loop_no_ub [no_ub]: "free_loop sz as fs \<noteq> UB"
  by (induction "as" arbitrary: fs) (auto simp: bindO_UB_iff no_ub)

lemma write_slots_no_ub [no_ub]: "write_slots chk put es idx w \<noteq> UB"
  by (induction es arbitrary: idx w) (auto simp: bindO_UB_iff no_ub)

lemma complete_frames_no_ub [no_ub]: "complete_frames F s w \<noteq> UB"
  by (auto simp: complete_frames_def update_tx_frames_def CompQueue_consume_def bindO_UB_iff Let_def no_ub split: prod.splits)

lemma produce_no_ub [no_ub]: "TxQueue_produce_and_wakeup F q fs w \<noteq> UB"
  by (auto simp: TxQueue_produce_and_wakeup_def TxQueue_produce_def bindO_UB_iff Let_def no_ub split: prod.splits if_splits sum.splits)

lemma submit_no_ub [no_ub]: "tx_submit_loop F fuel q batch n w \<noteq> UB"
  by (induction fuel arbitrary: w) (auto simp: bindO_UB_iff no_ub split: if_splits)

lemma put_batch_no_ub [no_ub]: "put_batch_on_tx_queue F fuel s w \<noteq> UB"
  by (auto simp: put_batch_on_tx_queue_def batch_range_def bindO_UB_iff Let_def no_ub split: if_splits)

lemma advance_no_ub [no_ub]: "advance F fuel s w \<noteq> UB"
  by (auto simp: advance_def bindO_UB_iff Let_def no_ub split: if_splits)

lemma drain_no_ub [no_ub]: "drain F fuel s w \<noteq> UB"
  by (induction fuel arbitrary: s w) (auto simp: drain_body_def bindO_UB_iff no_ub split: if_splits)

text \<open>The accesses themselves: inside its own frame, a transmit frame never leaves the mapping.\<close>

lemma own_frame_fits:
  assumes "own_frame m sz i f" "i < n" "n * sz \<le> area_len m" "k \<le> sz"
  shows "frame_addr f + k \<le> area_len (frame_mmap f)"
proof -
  have "Suc i * sz \<le> n * sz" using assms(2) by (intro mult_le_mono1) simp
  then show ?thesis using assms by (simp add: own_frame_def)
qed

lemma write_checked_no_ub:
  assumes "own_frame m sz i f" "i < n" "n * sz \<le> area_len m"
  shows "write_to_umem_checked f data w \<noteq> UB"
proof (cases "length data \<le> frame_mtu f")
  case True
  then have "frame_addr f + length data \<le> area_len (frame_mmap f)"
    using assms own_frame_fits [OF assms] by (simp add: own_frame_def)
  then show ?thesis by (auto simp: write_to_umem_checked_def mem_range_mut_def bindO_UB_iff Let_def split: sum.splits)
next
  case False
  then show ?thesis by (simp add: write_checked_too_big)
qed

lemma region_no_ub:
  assumes "own_frame m sz i f" "i < n" "n * sz \<le> area_len m"
  shows "umem_region_mut f sz w \<noteq> UB"
  using own_frame_fits [OF assms le_refl] by (simp add: umem_region_mut_def mem_range_mut_def)

section \<open>The transmit end keeps its shape\<close>

lemma own_frame_simps [simp]:
  "own_frame m sz i (frame_status_update g f) = own_frame m sz i f" "own_frame m sz i (set_len k f) = own_frame m sz i f"
  by (simp_all add: own_frame_def set_defs)

lemma own_frames_update:
  assumes "own_frames m sz fs" "i < length fs \<Longrightarrow> own_frame m sz i f"
  shows "own_frames m sz (fs[i := f])"
  unfolding own_frames_def
proof (intro allI impI)
  fix j assume "j < length (fs[i := f])"
  then show "own_frame m sz j (fs[i := f] ! j)" using assms by (cases "j = i") (simp_all add: own_frames_def)
qed

lemma own_frames_status:
  assumes "own_frames m sz fs" "a \<le> b" "b \<le> length fs"
  shows "own_frames m sz (map_range (frame_status_update g) a b fs)"
  using assms by (auto simp: own_frames_def map_range_def nth_append min_def)

lemma free_loop_own:
  "free_loop z as fs = Ret fs' \<Longrightarrow> own_frames m sz fs \<Longrightarrow> own_frames m sz fs' \<and> length fs' = length fs"
proof (induction "as" arbitrary: fs)
  case (Cons a "as")
  then obtain i where i: "i < length fs" "free_loop z as (fs[i := (fs ! i)\<lparr>frame_status := Free\<rparr>]) = Ret fs'"
    by (auto simp: bindO_Ret_iff nthO_def split: if_splits)
  have "own_frames m sz (fs[i := (fs ! i)\<lparr>frame_status := Free\<rparr>])"
    using Cons.prems(2) by (intro own_frames_update) (simp_all add: own_frames_def)
  then show ?case using Cons.IH [OF i(2)] by simp
qed simp

lemma complete_frames_shape:
  assumes "complete_frames F s w = Ret (k, s', w')" "tx_shape m sz n b s"
  shows "tx_shape m sz n b s'"
  using assms
  by (auto simp: complete_frames_def update_tx_frames_def tx_shape_def bindO_Ret_iff split: prod.splits dest!: free_loop_own)

lemma put_batch_shape:
  assumes "put_batch_on_tx_queue F fuel s w = Ret (s', w')"
    and "own_frames m (unat sz) (tx_frames s)" "length (tx_frames s) = n" "tx_frame_size s = sz" "tx_cursor s < n"
      "batch_size s = b" "0 < b"
  shows "tx_shape m sz n b s'"
  using assms
  by (auto simp: put_batch_on_tx_queue_def tx_shape_def Let_def bindO_Ret_iff sliceO_def split: if_splits
      intro: own_frames_status)

lemma advance_shape:
  assumes "advance F fuel s w = Ret (r, s', w')" "tx_shape m sz n b s" "b < 2 ^ 64"
  shows "tx_shape m sz n b s'"
proof -
  have cur: "add64 (overflow_checks F) (cur_batch_size s) 1 = Ret (Suc (cur_batch_size s))"
    using assms(2,3) by (simp add: tx_shape_def add64_def)
  obtain c cursor where c: "rem64 c (length (tx_frames s)) = Ret cursor"
      "if Suc (cur_batch_size s) = batch_size s
       then put_batch_on_tx_queue F fuel (s\<lparr>tx_cursor := cursor, cur_batch_size := Suc (cur_batch_size s)\<rparr>) w = Ret (s', w')
       else s' = s\<lparr>tx_cursor := cursor, cur_batch_size := Suc (cur_batch_size s)\<rparr>"
    using assms(1) cur by (auto simp: advance_def Let_def bindO_Ret_iff split: if_splits)
  have "cursor < n" using c(1) assms(2) by (auto simp: rem64_def tx_shape_def split: if_splits)
  then show ?thesis
    using c(2) assms(2) put_batch_shape [of F fuel "s\<lparr>tx_cursor := cursor, cur_batch_size := Suc (cur_batch_size s)\<rparr>" w s' w' m sz n b]
    by (auto simp: tx_shape_def split: if_splits)
qed

lemma write_checked_own:
  "write_to_umem_checked f data w = Ret (r, f', w') \<Longrightarrow> own_frame m sz i f \<Longrightarrow> own_frame m sz i f'"
  by (auto simp: write_to_umem_checked_def Let_def bindO_Ret_iff split: if_splits sum.splits)

lemma tx_shape_frame:
  assumes "tx_shape m sz n b s" "nthO (tx_frames s) i = Ret f"
  shows "i < n" "own_frame m (unat sz) i f"
    "own_frame m (unat sz) i f' \<Longrightarrow> tx_shape m sz n b (s\<lparr>tx_frames := (tx_frames s)[i := f']\<rparr>)"
  using assms by (auto simp: tx_shape_def nthO_def own_frames_def intro: own_frames_update split: if_splits)
    (auto simp: nth_list_update)

lemma send_shape:
  assumes "send F fuel s data w = Ret (r, s', w')" "tx_shape m sz n b s" "b < 2 ^ 64"
  shows "tx_shape m sz n b s'"
proof -
  obtain k s1 w1 f where s1: "complete_frames F s w = Ret (k, s1, w1)" "nthO (tx_frames s1) (tx_cursor s1) = Ret f"
      "s' = s1 \<or> (\<exists>x f' w2. write_to_umem_checked f data w1 = Ret (x, f', w2) \<and>
         advance F fuel (s1\<lparr>tx_frames := (tx_frames s1)[tx_cursor s1 := f']\<rparr>) w2 = Ret (r, s', w'))"
    using assms(1) by (auto simp: send_def bindO_Ret_iff split: prod.splits if_splits)
  note t1 = complete_frames_shape [OF s1(1) assms(2)]
  show ?thesis
    using s1(3) t1 write_checked_own [OF _ tx_shape_frame(2) [OF t1 s1(2)]] tx_shape_frame(3) [OF t1 s1(2)] advance_shape [OF _ _ assms(3)]
    by blast
qed

lemma send_apply_shape:
  assumes "send_apply F fuel s f c w = Ret (r, s', c', w')" "tx_shape m sz n b s" "b < 2 ^ 64"
  shows "tx_shape m sz n b s'"
proof -
  obtain k s1 w1 fr where s1: "complete_frames F s w = Ret (k, s1, w1)" "nthO (tx_frames s1) (tx_cursor s1) = Ret fr"
      "s' = s1 \<or> (\<exists>len w2. advance F fuel (s1\<lparr>tx_frames := (tx_frames s1)[tx_cursor s1 := set_len len fr]\<rparr>) w2 = Ret (r, s', w'))"
    using assms(1) by (fastforce simp: send_apply_def bindO_Ret_iff Let_def split: prod.splits if_splits)
  note t1 = complete_frames_shape [OF s1(1) assms(2)]
  have "tx_shape m sz n b (s1\<lparr>tx_frames := (tx_frames s1)[tx_cursor s1 := set_len len fr]\<rparr>)" for len
    using tx_shape_frame(2,3) [OF t1 s1(2)] by simp
  then show ?thesis using s1(3) t1 advance_shape [OF _ _ assms(3)] by blast
qed

lemma prefill_loop_own:
  "prefill_loop data fs w = Ret (fs', w') \<Longrightarrow> \<forall>i < length fs. own_frame m sz (j + i) (fs ! i) \<Longrightarrow>
   length fs' = length fs \<and> (\<forall>i < length fs. own_frame m sz (j + i) (fs' ! i))"
proof (induction fs arbitrary: w fs' j)
  case (Cons f fs)
  then obtain x f' w1 gs where run: "write_to_umem_checked f data w = Ret (x, f', w1)" "prefill_loop data fs w1 = Ret (gs, w')" "fs' = f' # gs"
    by (auto simp: bindO_Ret_iff split: prod.splits)
  have "own_frame m sz (Suc j + i) (fs ! i)" if "i < length fs" for i using Cons.prems(2) that by (auto dest: spec [of _ "Suc i"])
  then have "length gs = length fs \<and> (\<forall>i < length fs. own_frame m sz (Suc j + i) (gs ! i))" using Cons.IH [OF run(2)] by blast
  moreover have "own_frame m sz j f'" using write_checked_own [OF run(1)] Cons.prems(2) by force
  ultimately show ?case using run(3) by (auto simp: less_Suc_eq_0_disj)
qed simp

lemma prefill_shape:
  assumes "prefill s data w = Ret (s', w')" "tx_shape m sz n b s"
  shows "tx_shape m sz n b s'"
proof -
  obtain fs where fs: "prefill_loop data (tx_frames s) w = Ret (fs, w')" "s' = s\<lparr>tx_frames := fs\<rparr>"
    using assms(1) by (auto simp: prefill_def bindO_Ret_iff split: prod.splits)
  then show ?thesis using prefill_loop_own [OF fs(1), of m "unat sz" 0] assms(2) by (simp add: tx_shape_def own_frames_def)
qed

lemma drain_shape: "drain F fuel s w = Ret (s', w') \<Longrightarrow> tx_shape m sz n b s \<Longrightarrow> tx_shape m sz n b s'"
proof (induction fuel arbitrary: s w)
  case (Suc fuel)
  obtain k s1 w1 s2 w2 where step: "complete_frames F s w = Ret (k, s1, w1)" "put_batch_on_tx_queue F (Suc fuel) s1 w1 = Ret (s2, w2)"
      "s' = s2 \<or> drain F fuel s2 w2 = Ret (s', w')"
    using Suc.prems(1) by (auto simp: drain_body_def bindO_Ret_iff split: prod.splits if_splits)
  have "tx_shape m sz n b s1" using complete_frames_shape [OF step(1) Suc.prems(2)] .
  then have "tx_shape m sz n b s2" using put_batch_shape [OF step(2), of m sz n b] by (auto simp: tx_shape_def)
  then show ?case using step(3) Suc.IH by blast
qed simp

text \<open>In that shape no call leaves the mapping.\<close>

lemma tx_shape_defined:
  fixes w :: "'k world"
  assumes shape: "tx_shape m sz n b s" and area: "n * unat sz \<le> area_len m"
  shows "send F fuel s data w \<noteq> UB" "prefill s data w \<noteq> UB" "(\<And>reg. f c reg \<noteq> UB) \<Longrightarrow> send_apply F fuel s f c w \<noteq> UB"
proof -
  have frame: "write_to_umem_checked fr data v \<noteq> UB" "umem_region_mut fr (as_usize (tx_frame_size s1)) v \<noteq> UB"
    if "complete_frames F s w = Ret (k, s1, w1)" "nthO (tx_frames s1) i = Ret fr" for k s1 w1 i fr and v :: "'k world"
  proof -
    have s1: "tx_shape m sz n b s1" using complete_frames_shape [OF that(1) shape] .
    show "write_to_umem_checked fr data v \<noteq> UB"
      using write_checked_no_ub [OF tx_shape_frame(2) [OF s1 that(2)] tx_shape_frame(1) [OF s1 that(2)] area] .
    show "umem_region_mut fr (as_usize (tx_frame_size s1)) v \<noteq> UB"
      using region_no_ub [OF tx_shape_frame(2) [OF s1 that(2)] tx_shape_frame(1) [OF s1 that(2)] area] s1
      by (simp add: tx_shape_def as_usize_def)
  qed
  show "send F fuel s data w \<noteq> UB" using frame(1) by (auto simp: send_def bindO_UB_iff no_ub)
  show "send_apply F fuel s f c w \<noteq> UB" if "\<And>reg. f c reg \<noteq> UB"
    using frame(2) that by (auto simp: send_apply_def bindO_UB_iff Let_def no_ub)
  have loop: "\<forall>i < length fs. own_frame m (unat sz) (j + i) (fs ! i) \<Longrightarrow> j + length fs \<le> n \<Longrightarrow> prefill_loop data fs v \<noteq> UB"
    for fs j and v :: "'k world"
  proof (induction fs arbitrary: j v)
    case (Cons fr fs)
    have "own_frame m (unat sz) j fr" "j < n" using Cons.prems by force+
    then have "write_to_umem_checked fr data v \<noteq> UB" using area by (rule write_checked_no_ub)
    moreover have "own_frame m (unat sz) (Suc j + i) (fs ! i)" if "i < length fs" for i
      using Cons.prems(1) that by (auto dest: spec [of _ "Suc i"])
    then have "prefill_loop data fs v' \<noteq> UB" for v' :: "'k world" using Cons.IH [of "Suc j"] Cons.prems(2) by simp
    ultimately show ?case by (auto simp: bindO_UB_iff no_ub)
  qed simp
  show "prefill s data w \<noteq> UB"
    using loop [of "tx_frames s" 0 w] shape by (auto simp: prefill_def bindO_UB_iff tx_shape_def own_frames_def)
qed

section \<open>The receive end keeps its shape\<close>

lemma rx_loop_length: "rx_loop F r w ds idx = Ret ds' \<Longrightarrow> length ds' = length ds"
  by (induction ds arbitrary: idx ds') (auto simp: Let_def bindO_Ret_iff)

lemma RxQueue_consume_length: "RxQueue_consume F q k ds w = Ret (j, ds', w') \<Longrightarrow> length ds' = length ds"
  by (auto simp: RxQueue_consume_def Let_def bindO_Ret_iff split: prod.splits if_splits dest!: rx_loop_length)

lemma recv_poll_shape:
  assumes "recv_poll F s w = Ret (j, s', w')" "rx_shape k s"
  shows "rx_shape k s'"
proof -
  obtain i q ff w1 where op: "RxQueue_poll_and_consume F (rx_q s) (n_frames_to_be_filled s) (filled_frames s)
      (poll_ms_timeout s) w = Ret (Inr i, q, ff, w1)"
    using assms(1) by (auto simp: recv_poll_def Let_def bindO_Ret_iff)
  obtain x fd w2 where wake: "FillQueue_wakeup F (fill_q s) (rq_fd q) (poll_ms_timeout s) w1 = (x, fd, w2)" by (metis surj_pair)
  have s': "rx_frames s' = rx_frames s" "filled_frames s' = ff" "rx_cursor s' = rx_cursor s"
    using assms(1) op wake by (auto simp: recv_poll_def Let_def bindO_Ret_iff split: if_splits)
  have "length ff = length (filled_frames s)"
    using op RxQueue_consume_length
    by (auto simp: RxQueue_poll_and_consume_def bindO_Ret_iff split: prod.splits sum.splits bool.splits)
  then show ?thesis using s' assms(2) by (simp add: rx_shape_def)
qed

lemma fill_loop_length: "fill_loop chk s ds fs = Ret fs' \<Longrightarrow> length fs' = length fs"
  by (induction ds arbitrary: fs) (fastforce simp: bindO_Ret_iff)+

lemma apply_loop_length: "apply_loop chk s f ds fs ps c w = Ret (fs', ps', c') \<Longrightarrow> length fs' = length fs"
  by (induction ds arbitrary: fs ps c) (fastforce simp: bindO_Ret_iff Let_def)+

lemma update_rx_frames_shape: "update_rx_frames chk s j = Ret s' \<Longrightarrow> rx_shape k s \<Longrightarrow> rx_shape k s'"
  by (auto simp: update_rx_frames_def bindO_Ret_iff rx_shape_def dest!: fill_loop_length)

lemma recv_deliver_shape:
  assumes "recv_deliver F fuel s pkt w = Ret (j, pkt', s', w')" "rx_shape k s"
  shows "rx_shape k s'"
  using assms
  by (auto simp: recv_deliver_def rx_shape_def Let_def bindO_Ret_iff rem64_def split: FrameStatus.splits if_splits
      intro: mod_less_divisor [OF le_less_trans [OF le0]])

lemma recv_shape: "recv F fuel s pkt w = Ret (j, pkt', s', w') \<Longrightarrow> rx_shape k s \<Longrightarrow> rx_shape k s'"
  by (auto simp: recv_def bindO_Ret_iff dest!: recv_poll_shape update_rx_frames_shape recv_deliver_shape)

lemma apply_batch_shape: "apply_batch F fuel s j f c w = Ret (c', s', w') \<Longrightarrow> rx_shape k s \<Longrightarrow> rx_shape k s'"
  by (auto simp: apply_batch_def rx_shape_def Let_def bindO_Ret_iff dest!: apply_loop_length)

lemma recv_apply_shape: "recv_apply F fuel s f c w = Ret (c', s', w') \<Longrightarrow> rx_shape k s \<Longrightarrow> rx_shape k s'"
  by (auto simp: recv_apply_def bindO_Ret_iff intro: apply_batch_shape recv_poll_shape split: if_splits)

section \<open>The whole socket\<close>

lemma make_frames_own:
  "make_frames chk m sz mtu is fs = Ret fs' \<Longrightarrow> is = [length fs..<k] \<Longrightarrow> own_frames m sz fs \<Longrightarrow> mtu \<le> sz \<Longrightarrow> sz < 2 ^ 32 \<Longrightarrow>
   k \<le> 2 ^ 32 \<Longrightarrow> own_frames m sz fs' \<and> length fs' = length fs + length is"
proof (induction "is" arbitrary: fs)
  case (Cons i "is")
  have i: "i = length fs" "length fs < k" "is = [Suc (length fs)..<k]" using Cons.prems(2) [symmetric] by (auto simp: upt_eq_Cons_conv)
  have "i * sz < 2 ^ 64" using i(1,2) Cons.prems(5,6) mult_less_le_imp_less [of i "2 ^ 32" sz "2 ^ 32"] by (cases sz) auto
  then have next_run: "make_frames chk m sz mtu is (fs @ [frame_at m sz mtu i]) = Ret fs'"
    using Cons.prems(1) by (simp add: mul64_def frame_at_def)
  have "own_frames m sz (fs @ [frame_at m sz mtu i])"
    using Cons.prems(3,4) i(1) by (auto simp: own_frames_def own_frame_def nth_append less_Suc_eq frame_at_def)
  then show ?case using Cons.IH [OF next_run] i Cons.prems(4-6) by simp
qed simp

lemma xsk_setup_own:
  assumes "xsk_setup F name q uc sc w = Ret ((umem, fq, cq, frames), qs, w1)"
    and "unat (XDP_PACKET_HEADROOM (abi F)) + unat (frame_headroom uc) \<le> unat (frame_size uc)"
  obtains m where "own_frames m (unat (frame_size uc)) frames" "length frames = unat (frame_count uc)"
    "area_len m = unat (frame_count uc) * unat (frame_size uc)"
proof -
  obtain bm w2 w3 where b: "create_mmap F (Umem_builder uc) w = Ret (Inr bm, w2)" "create_umem F bm w2 = Ret (Inr (umem, fq, cq, frames), w3)"
    using assms(1) by (auto simp: xsk_setup_def bindO_Ret_iff split: prod.splits)
  let ?m = "ubm_mmap_area bm" and ?sz = "unat (frame_size uc)" and ?h = "unat (XDP_PACKET_HEADROOM (abi F)) + unat (frame_headroom uc)"
  have m: "ubm_config bm = uc" "area_len ?m = unat (frame_count uc) * ?sz"
    using b(1) by (auto simp: create_mmap_def Umem_builder_def umem_len_total MmapArea_new_def Let_def split: prod.splits if_splits)
  have lim: "unat x < 2 ^ 32" for x :: u32 using as_usize_less [of x] by (simp add: as_usize_def)
  have h: "?h < 2 ^ 64" using add_strict_mono [OF lim lim] by (rule order.strict_trans) simp
  have frames: "make_frames (overflow_checks F) ?m ?sz (?sz - ?h) [0..<unat (frame_count uc)] [] = Ret frames"
    using b(2) m(1) assms(2) h
    by (auto simp: create_umem_def Let_def bindO_Ret_iff as_usize_def add64_def sub64_def split: prod.splits if_splits)
  have "unat (frame_count uc) \<le> 2 ^ 32" using lim [of "frame_count uc"] by simp
  then have "own_frames ?m ?sz frames \<and> length frames = unat (frame_count uc)"
    using make_frames_own [OF frames, of "unat (frame_count uc)"] lim [of "frame_size uc"] by (simp add: own_frames_def)
  then show thesis using that m(2) by blast
qed

lemma XskRx_new_shape: "XskRx_new F rxq fq frames sz w = Ret (s, w') \<Longrightarrow> rx_shape (length frames) s"
  by (auto simp: XskRx_new_def rx_shape_def bindO_Ret_iff nthO_def split: if_splits prod.splits)

lemma Xsk2_new_shape:
  assumes new: "Xsk2_new F name q uc sc n b w = Ret (Inr x, w')" and pos: "0 < n" "0 < b"
    and fits: "unat (XDP_PACKET_HEADROOM (abi F)) + unat (frame_headroom uc) \<le> unat (frame_size uc)"
  obtains m where "tx_shape m (frame_size uc) n b (x2_tx x)" "n * unat (frame_size uc) \<le> area_len m"
    "rx_shape (unat (frame_count uc) - n) (x2_rx x)"
proof -
  obtain umem fq cq frames txq rxq w1 txf rxf where x:
      "sliceO frames 0 n = Ret txf" "sliceO frames n (length frames) = Ret rxf"
      "XskRx_new F rxq fq rxf (frame_size uc) w1 = Ret (x2_rx x, w')"
      "x2_tx x = XskTx_new F txq cq txf (frame_size uc) b w1"
      "xsk_setup F name q uc sc w = Ret ((umem, fq, cq, frames), (txq, rxq), w1)"
    using new by (auto simp: Xsk2_new_def Let_def bindO_Ret_iff split: if_splits)
  obtain m where m: "own_frames m (unat (frame_size uc)) frames" "length frames = unat (frame_count uc)"
      "area_len m = unat (frame_count uc) * unat (frame_size uc)" using xsk_setup_own [OF x(5) fits] .
  have n: "n \<le> unat (frame_count uc)" "txf = take n frames" "rxf = drop n frames"
    using x(1,2) m(2) by (auto simp: sliceO_def split: if_splits)
  have "tx_shape m (frame_size uc) n b (x2_tx x)"
    using m(1,2) n pos by (simp add: x(4) XskTx_new_def tx_shape_def own_frames_def)
  moreover have "rx_shape (unat (frame_count uc) - n) (x2_rx x)"
    using XskRx_new_shape [OF x(3)] n(3) m(2) by simp
  moreover have "n * unat (frame_size uc) \<le> area_len m" using n(1) m(3) by simp
  ultimately show thesis using that by blast
qed

lemma any_run_shape:
  assumes "any_run F x0 w0 x w" "tx_shape m sz n b (x2_tx x0)" "rx_shape k (x2_rx x0)" "b < 2 ^ 64"
  shows "tx_shape m sz n b (x2_tx x) \<and> rx_shape k (x2_rx x)"
  using assms(1)
proof induction
  case (any_send_apply x w fuel f r s' c' w')
  then show ?case using send_apply_shape [OF any_send_apply.hyps(2)] assms(4) by simp
next
  case (any_recv_apply x w fuel g c' r' w')
  then show ?case using recv_apply_shape [OF any_recv_apply.hyps(2)] by simp
qed (use assms(2-4) prefill_shape send_shape drain_shape recv_shape in auto)

end
