(* ===== verification/System_Props.thy ===== *)
theory System_Props
  imports Loopback_Link Loopback_Small Xsk_Run Xsk_Rx_Fifo Xsk_Safety
begin

text \<open>
  The properties of the whole socket (\<^verbatim>\<open>src/src/xsk/xsk.rs\<close>), of the integration tests of
  its queues (\<^verbatim>\<open>src/tests\<close>) and of the interface counters (\<^verbatim>\<open>src/src/iface.rs\<close>).
\<close>

section \<open>Building the socket\<close>

text \<open>
  C13: When the system calls succeed and the configuration is sensible (frames for both ends, a batch
  size that divides the transmit frames and fits the ring, headrooms that fit the frame, a UMEM of
  at most 4 GiB, a fill ring with room), \<open>Xsk2::new\<close> returns a socket whose transmit and receive
  ends both satisfy their invariants, with all receive frames on the fill ring in cyclic order and
  the queue of held packets empty.
\<close>

theorem new_establishes_invariants:
  assumes "sys_setup F name queue_id uc sc w p up fr cr sp rr tr fd w1" "UmemConfig_valid uc"
    and "unat (XDP_PACKET_HEADROOM (abi F)) + unat (frame_headroom uc) \<le> unat (frame_size uc)"
    and "m = \<lparr>area_len = unat (frame_count uc) * unat (frame_size uc), mem_ptr = p\<rparr>" "area_len m \<le> 2 ^ 32"
    and "0 < n" "n < unat (frame_count uc)" "0 < b" "b dvd n" "b \<le> unat (tx_queue_size sc)"
    and "fill_contract F \<lparr>fq_size = fill_queue_size uc, fq_inner = fr\<rparr> P"
      "keeps (pv_ok P) (\<lambda>w'. rx_same R w1 w' \<and> tx_idle T C w')
         (fill_ops F \<lparr>fq_size = fill_queue_size uc, fq_inner = fr\<rparr>)" "tx_idle T C w1"
    and "pv_ok P w1" "pv_resv P w1 = 0" "pv_subm P w1 = []" "cv_taken R w1 = []" "cv_peek R w1 = 0"
    and "unat (frame_count uc) - n \<le> pv_free P w1" "idx_room F (unat (frame_count uc))"
  shows "\<exists>x w'. Xsk2_new F name queue_id uc sc n b w = Ret (Inr x, w') \<and>
    tx_inv m (x2_tx x) \<and> tx_linked T C (x2_tx x) w' \<and> rx_inv m n (x2_rx x) \<and> rx_linked P R n (x2_rx x) w' \<and>
    length (tx_frames (x2_tx x)) = n \<and> length (rx_frames (x2_rx x)) = unat (frame_count uc) - n \<and>
    pv_subm P w' = map (\<lambda>i. i * unat (frame_size uc)) [n..<unat (frame_count uc)] \<and>
    rx_cyclic P R n (x2_rx x) w' \<and> rx_queue (x2_rx x) w' = []"
proof -
  note init = xsk_setup_ok [OF assms(1,3,4)]
  have area: "area_len m = unat (frame_count uc) * unat (frame_size uc)"
      "unat (frame_count uc) * unat (frame_size uc) \<le> 2 ^ 32" "0 < unat (frame_size uc)" "the_mtu F uc \<le> unat (frame_size uc)"
    using assms(4,5) UmemConfig_valid_lens [OF assms(2)] by (simp_all add: the_mtu_def)
  obtain x w' where x: "Xsk2_new F name queue_id uc sc n b w = Ret (Inr x, w')"
      "tx_inv m (x2_tx x)" "tx_linked T C (x2_tx x) w'" "rx_inv m n (x2_rx x)" "rx_linked P R n (x2_rx x) w'"
      "pv_subm P w' = map (\<lambda>i. i * unat (frame_size uc)) [n..<unat (frame_count uc)]"
      "length (tx_frames (x2_tx x)) = n" "length (rx_frames (x2_rx x)) = unat (frame_count uc) - n"
      "rx_frame_size (x2_rx x) = frame_size uc" "rx_fresh (x2_rx x)" "cv_taken R w' = []"
    using Xsk2_new_core [OF init area assms(6-20)] by blast
  have "rx_cyclic P R n (x2_rx x) w'" "rx_queue (x2_rx x) w' = []"
    using rx_cyclic_start [OF _ x(4,11,10)] x(6,8,9) assms(7) by simp_all
  then show ?thesis using x(1-8) by blast
qed

theorem new_establishes_invariants_witness:
  "\<exists>x w'. Xsk2_new (loopback True) ''veth0'' 0 lb_uc lb_sc 2 2 (lb_world True) = Ret (Inr x, w') \<and>
     tx_inv lb_area (x2_tx x) \<and> rx_inv lb_area 2 (x2_rx x) \<and> fill_sent (kern w') = [4096, 6144]"
proof -
  have sys: "sys_setup (loopback True) ''veth0'' 0 lb_uc lb_sc (lb_world True) 4096 1 1 2 1 3 4 5 (lb_world True)"
    by (simp add: sys_setup_def Let_def loopback_def lb_abi_def)
  have valid: "UmemConfig_valid lb_uc" by (simp add: UmemConfig_valid_def exI [of _ 6])
  have ring: "\<lparr>fq_size = fill_queue_size lb_uc, fq_inner = 1\<rparr> = lb_fq" by (simp add: lb_fq_def)
  have keep: "keeps (pv_ok (lb_P 2048)) (\<lambda>w'. rx_same (lb_R 2048) (lb_world True) w' \<and> tx_idle (lb_T True) (lb_C True) w')
      (fill_ops (loopback True) lb_fq)"
    by (auto simp: keeps_def fill_ops_def prod_ops_def rx_same_def tx_idle_def lb_tx_ok_def lb_sel lb_ops)
  have start: "tx_idle (lb_T True) (lb_C True) (lb_world True)" "pv_ok (lb_P 2048) (lb_world True)"
      "pv_resv (lb_P 2048) (lb_world True) = 0" "pv_subm (lb_P 2048) (lb_world True) = []"
      "cv_taken (lb_R 2048) (lb_world True) = []" "cv_peek (lb_R 2048) (lb_world True) = 0"
      "pv_free (lb_P 2048) (lb_world True) = 64"
    by (simp_all add: tx_idle_def lb_T_def lb_C_def lb_P_def lb_R_def lb_world_def lb_kern_def lb_tx_ok_def lb_rx_ok_def
        lb_cap_def desc_chunks_def)
  have subm: "pv_subm (lb_P 2048) w' = fill_sent (kern w')" for w' by (simp add: lb_P_def)
  show ?thesis
    using new_establishes_invariants [OF sys valid, of lb_area 2 2 "lb_P 2048" "lb_R 2048" "lb_T True" "lb_C True"]
      ring keep start lb_fill_contract [of True 2048]
    by (auto simp: loopback_def lb_abi_def lb_area_def idx_room_def subm upt_rec)
qed




section \<open>The queues of a new socket\<close>

text \<open>
  C32: The integration tests of the transmit, fill and completion queues pass on every machine that
  grants the two sockets with empty rings of the configured size: a ring of four takes four frames at
  once, none of five, and after two and one frames refuses five and takes one more; nothing is
  completed before anything was sent, and once the kernel has completed what was sent, the completion
  queue returns as many frames as were produced, with their addresses.
\<close>

theorem queue_tests_pass:
  assumes "defaults_ok (abi F)"
    and "new_tx_ring F if1 if2 ((UmemConfig_default (abi F))\<lparr>frame_count := 16\<rparr>)
      ((SocketConfig_default (abi F))\<lparr>tx_queue_size := 4\<rparr>) w"
    and "new_fill_ring F if1 if2 ((UmemConfig_default (abi F))\<lparr>frame_count := 16, fill_queue_size := 4\<rparr>)
      (SocketConfig_default (abi F)) w"
    and "new_tx_pair sleep F if1 if2 ((UmemConfig_default (abi F))\<lparr>frame_count := 8, comp_queue_size := 8\<rparr>)
      ((SocketConfig_default (abi F))\<lparr>tx_queue_size := 4\<rparr>) w"
  shows "\<forall>t \<in> set (queue_tests sleep). \<exists>w'. t F if1 if2 w = Ret w'"
  using producer_tests_pass(1) [OF assms(1,2)] producer_tests_pass(2) [OF assms(1,3)] comp_tests_pass [OF assms(1,4)]
  by (simp add: queue_tests_def)

theorem queue_tests_pass_witness:
  "(\<exists>w'. tx_queue_produce_frames_until_tx_queue_full small_rings ''veth0'' ''veth1'' (lb_world True) = Ret w') \<and>
   (\<exists>w'. comp_queue_addr_of_frames_consumed_match_addr_of_those_produced (\<lambda>_ w. w) small_rings ''veth0'' ''veth1'' (lb_world True) = Ret w')"
  using queue_tests_pass [OF small_defaults small_ready(1) small_ready(2) small_ready(3)] by (simp add: queue_tests_def)

section \<open>Both ends at work\<close>

text \<open>The sockets of the reference platform are well-formed.\<close>

lemma lb_rx_world_tx:
  "prompt (kern lb_rx_world)" "tx_sent (kern lb_rx_world) = []" "tx_back (kern lb_rx_world) = []"
  "tx_resvd (kern lb_rx_world) = 0" "tx_peeked (kern lb_rx_world) = 0" "tx_done (kern lb_rx_world) = 0"
  by (simp_all add: lb_rx_world_def lb_kern_def)

lemma lb_xsk_ends: "x2_rx (lb_xsk b) = lb_rx" "x2_tx (lb_xsk b) = lb_tx True b"
  by (simp_all add: lb_xsk_def)

lemma lb_recv_returns:
  "\<exists>n pkt' s' w'. recv (loopback True) 1 lb_rx (replicate 2048 0) lb_rx_world = Ret (n, pkt', s', w')"
proof -
  have "rx_ready (loopback True) (lb_P 2048) (lb_R 2048) lb_area 2 1 lb_rx lb_rx_world" by (simp add: lb_rx_ready)
  moreover have "unat (rx_frame_size lb_rx) \<le> length (replicate 2048 (0 :: u8))" by (simp add: lb_rx_def)
  ultimately show ?thesis by (cases rule: recv_outcome) auto
qed

lemma lb_xsk_ok: "xsk_ok (loopback True) 1 lb_area 2 (lb_T True) (lb_C True) (lb_P 2048) (lb_R 2048) (lb_xsk 1) lb_rx_world"
proof -
  have "tx_ready (loopback True) (lb_T True) (lb_C True) lb_area 1 (lb_tx True 1) lb_rx_world"
    using lb_rx_world_tx by (intro lb_tx_ready_at) simp_all
  moreover have "rx_ready (loopback True) (lb_P 2048) (lb_R 2048) lb_area 2 1 lb_rx lb_rx_world" by (simp add: lb_rx_ready)
  moreover have "rx_frame_size lb_rx = 2048" by (simp add: lb_rx_def)
  ultimately show ?thesis using lb_separate by (simp add: xsk_ok_def tx_ready_def rx_ready_def lb_xsk_def Let_def)
qed

text \<open>
  C5: The two ends of a socket work side by side: any interleaving of sends and receives, plain or
  with closures, and steps of the kernel is, for the transmit end, a run of that end alone, so that
  the packets accepted are handed over complete and in order; and it keeps the invariants of both
  ends. The frames of the two ends are apart, and the rings are separate by the contract of the
  platform.
\<close>

theorem xsk_run_sound:
  assumes "xsk_run F fuel m T C P R x0 c0 w0 x c w acc handed" "xsk_ok F fuel m base T C P R x0 w0"
  shows "tx_run F fuel m T C (x2_tx x0) w0 (x2_tx x) w acc handed \<and>
    batch_data (x2_tx x0) w0 @ acc = handed @ batch_data (x2_tx x) w \<and>
    tx_inv m (x2_tx x) \<and> tx_linked T C (x2_tx x) w \<and> rx_inv m base (x2_rx x) \<and> rx_linked P R base (x2_rx x) w"
proof -
  note inv = xsk_run_inv [OF assms]
  note ok = xsk_okD [OF assms(2)] and ok' = xsk_okD [OF conjunct1 [OF inv]]
  show ?thesis using inv ok'(3-6) tx_run_inv [OF conjunct2 [OF inv] ok(1-4)] by blast
qed

theorem xsk_run_sound_witness:
  "\<exists>x (w :: lb world) handed.
     xsk_run (loopback True) 1 lb_area (lb_T True) (lb_C True) (lb_P 2048) (lb_R 2048) (lb_xsk 1) () lb_rx_world
       x () w [[1, 2, 3]] handed \<and>
     [[1, 2, 3]] = handed @ batch_data (x2_tx x) w \<and> rx_inv lb_area 2 (x2_rx x)"
proof -
  let ?F = "loopback True" and ?T = "lb_T True" and ?C = "lb_C True" and ?P = "lb_P 2048" and ?R = "lb_R 2048"
  note ok = xsk_okD [OF lb_xsk_ok]
  have rdy: "rx_ready ?F ?P ?R lb_area 2 1 lb_rx lb_rx_world" by (simp add: lb_rx_ready)
  have pkt: "unat (rx_frame_size lb_rx) \<le> length (replicate 2048 (0 :: u8))" by (simp add: lb_rx_def)
  obtain n pkt' s1 w1 where rcv: "recv ?F 1 lb_rx (replicate 2048 0) lb_rx_world = Ret (n, pkt', s1, w1)"
    using lb_recv_returns by blast
  have run1: "xsk_run ?F 1 lb_area ?T ?C ?P ?R (lb_xsk 1) () lb_rx_world ((lb_xsk 1)\<lparr>x2_rx := s1\<rparr>) () w1 [] []"
    using xrun_recv [OF xrun_start, of ?F ?P ?R "lb_xsk 1" lb_rx_world "replicate 2048 0" 1 n pkt' s1 w1] rdy rcv pkt
    by (simp add: lb_xsk_ends rx_ready_def)
  have calm: "tx_calm ?T ?C (tx_bytes lb_area (lb_tx True 1)) lb_rx_world w1"
    using xsk_rx_step(2) [OF lb_xsk_ok, of w1 s1] recv_via [OF rcv] recv_keeps_rx [OF rdy pkt rcv] by (simp add: lb_xsk_ends)
  have ready: "tx_ready ?F ?T ?C lb_area 1 (lb_tx True 1) w1"
    using lb_rx_world_tx calm
    by (intro lb_tx_ready_at) (auto simp: tx_calm_def tx_same_def comp_same_def lb_T_def lb_C_def lb_tx_ok_def)
  have data: "length [1, 2, 3 :: u8] \<le> frame_mtu (tx_frames (lb_tx True 1) ! tx_cursor (lb_tx True 1))" by simp
  obtain s2 w2 where snd: "send ?F 1 (lb_tx True 1) [1, 2, 3] w1 = Ret (Inr (), s2, w2)"
    using send_ready [OF ready data] by auto
  obtain x handed where run2: "xsk_run ?F 1 lb_area ?T ?C ?P ?R (lb_xsk 1) () lb_rx_world x () w2 [[1, 2, 3]] handed"
    using xrun_send [OF run1, of "[1, 2, 3]" "Inr ()" s2 w2] ready data snd by (auto simp: lb_xsk_ends tx_ready_def)
  have "batch_data (x2_tx (lb_xsk 1)) lb_rx_world = []" by (simp add: lb_xsk_ends batch_data_def)
  then show ?thesis using run2 xsk_run_sound [OF run2 lb_xsk_ok] by auto
qed

text \<open>
  C27: Neither end disturbs what the other holds. A \<open>send\<close>, successful or not, leaves every packet
  the receive end holds and has not delivered as it is; a \<open>recv\<close> leaves every byte of the
  transmit frames as it is, those waiting in the batch and those in flight.
\<close>

theorem ends_do_not_interfere:
  assumes "xsk_ok F fuel m base T C P R x w"
    and "tx_counts F T C (x2_tx x) w" "length data \<le> frame_mtu (tx_frames (x2_tx x) ! tx_cursor (x2_tx x))"
      "send F fuel (x2_tx x) data w = Ret (r, s', w1)"
    and "rx_counts F P R (x2_rx x) w" "unat (rx_frame_size (x2_rx x)) \<le> length pkt"
      "recv F fuel (x2_rx x) pkt w = Ret (n, pkt', s'', w2)"
  shows "(\<forall>i \<in> filled (rx_frames (x2_rx x)). frame_data w1 (rx_frames (x2_rx x) ! i) = frame_data w (rx_frames (x2_rx x) ! i)) \<and>
    rx_linked P R base (x2_rx x) w1 \<and> same_on (tx_bytes m (x2_tx x)) w w2 \<and> tx_linked T C (x2_tx x) w2"
proof -
  note D = xsk_okD [OF assms(1)]
  note tx = tx_step_calm [OF assms(1) send_via [OF D(1,3,4) assms(2-4)]]
  have calm: "tx_calm T C (tx_bytes m (x2_tx x)) w w2"
    using xsk_rx_step(2) [OF assms(1) recv_via [OF assms(7)] recv_keeps_rx [OF D(10) [OF assms(5)] assms(6,7)]] .
  then show ?thesis using tx tx_linked_calm [OF D(4) calm] by (simp add: tx_calm_def tx_same_def)
qed

theorem ends_do_not_interfere_witness:
  "\<exists>r s' n pkt' s'' (w1 :: lb world) w2. send (loopback True) 1 (lb_tx True 1) [1, 2, 3] lb_rx_world = Ret (r, s', w1) \<and>
     recv (loopback True) 1 lb_rx (replicate 2048 0) lb_rx_world = Ret (n, pkt', s'', w2) \<and>
     rx_linked (lb_P 2048) (lb_R 2048) 2 lb_rx w1 \<and> same_on (tx_bytes lb_area (lb_tx True 1)) lb_rx_world w2"
proof -
  let ?F = "loopback True" and ?T = "lb_T True" and ?C = "lb_C True" and ?P = "lb_P 2048" and ?R = "lb_R 2048"
  have rdy: "rx_ready ?F ?P ?R lb_area 2 1 lb_rx lb_rx_world" by (simp add: lb_rx_ready)
  have pkt: "unat (rx_frame_size lb_rx) \<le> length (replicate 2048 (0 :: u8))" by (simp add: lb_rx_def)
  obtain n pkt' s'' w2 where rcv: "recv ?F 1 lb_rx (replicate 2048 0) lb_rx_world = Ret (n, pkt', s'', w2)"
    using lb_recv_returns by blast
  have ready: "tx_ready ?F ?T ?C lb_area 1 (lb_tx True 1) lb_rx_world"
    using lb_rx_world_tx by (intro lb_tx_ready_at) simp_all
  have data: "length [1, 2, 3 :: u8] \<le> frame_mtu (tx_frames (lb_tx True 1) ! tx_cursor (lb_tx True 1))" by simp
  obtain r s' w1 where snd: "send ?F 1 (lb_tx True 1) [1, 2, 3] lb_rx_world = Ret (r, s', w1)"
    using send_ready [OF ready data] by auto
  from ends_do_not_interfere [OF lb_xsk_ok, of "[1, 2, 3]" r s' w1 "replicate 2048 0" n pkt' s'' w2]
  show ?thesis using ready rdy data pkt snd rcv by (auto simp: lb_xsk_ends tx_ready_def rx_ready_def)
qed

text \<open>
  The two ends never touch each other's memory: the bytes of the transmit frames are disjoint
  from every chunk of the receive frames, for any two ends of the shape \<open>Xsk2::new\<close> builds.
\<close>

theorem ends_disjoint:
  assumes "length (tx_frames s) \<le> base" "tx_frame_size s = rx_frame_size r"
  shows "tx_bytes m s \<inter> (\<Union>i < length (rx_frames r). chunk_bytes m (unat (rx_frame_size r)) (base + i)) = {}"
  using ends_apart [OF assms] by fast

theorem ends_disjoint_witness:
  "tx_bytes lb_area (lb_tx True 2) \<inter> (\<Union>i < 2. chunk_bytes lb_area 2048 (2 + i)) = {}"
proof -
  have "length (tx_frames (lb_tx True 2)) \<le> 2" "tx_frame_size (lb_tx True 2) = rx_frame_size lb_rx"
      "length (rx_frames lb_rx) = 2" "unat (rx_frame_size lb_rx) = 2048"
    by (simp_all add: lb_rx_def)
  then show ?thesis using ends_disjoint [of "lb_tx True 2" 2 lb_rx lb_area] by metis
qed

text \<open>
  \<open>Xsk2::new\<close> reports a batch size as too large exactly when its low 32 bits exceed the
  transmit ring, so a batch size of \<open>2 ^ 32\<close> or more can pass the check.
\<close>

theorem batch_check_iff:
  "(\<exists>e w'. Xsk2_new F name queue_id uc sc n b w = Ret (Inl e, w')) \<longleftrightarrow> unat (tx_queue_size sc) < b mod 2 ^ 32"
  by (auto simp: Xsk2_new_def batch_check_truncates bindO_Ret_iff Let_def split: prod.splits)

text \<open>
  With every frame given to the transmit end, \<open>Xsk2::new\<close> panics when it looks at the first
  receive frame, after the UMEM and the socket were created.
\<close>

theorem no_rx_frames_panics:
  assumes "sys_setup F name queue_id uc sc w p up fr cr sp rr tr fd w1"
    and "unat (XDP_PACKET_HEADROOM (abi F)) + unat (frame_headroom uc) \<le> unat (frame_size uc)"
    and "b mod 2 ^ 32 \<le> unat (tx_queue_size sc)"
  shows "Xsk2_new F name queue_id uc sc (unat (frame_count uc)) b w = Panic OutOfRange"
  using assms xsk_setup_ok [OF assms(1,2) refl] by (simp add: Xsk2_new_def batch_check_truncates XskRx_new_def nthO_def Let_def)

theorem no_rx_frames_panics_witness:
  "Xsk2_new (loopback True) ''veth0'' 0 lb_uc lb_sc 4 2 (lb_world True) = Panic OutOfRange"
proof -
  have sys: "sys_setup (loopback True) ''veth0'' 0 lb_uc lb_sc (lb_world True) 4096 1 1 2 1 3 4 5 (lb_world True)"
    by (simp add: sys_setup_def Let_def loopback_def lb_abi_def)
  show ?thesis using no_rx_frames_panics [OF sys, of 2] by (simp add: loopback_def lb_abi_def)
qed

section \<open>Interface counters\<close>

text \<open>
  C40: If every counter file of the interface holds a number, \<open>InterfaceStats::new\<close> returns, and
  each field of the record is the number in the file of its own name.
\<close>

theorem iface_reads_all:
  assumes "sysfs_law F if_name w (TX_FIELD_NAMES @ RX_FIELD_NAMES) v"
  shows "\<exists>s. InterfaceStats_new F if_name w = Ret s \<and>
    InterfaceStats_fields s = map v (TX_FIELD_NAMES @ RX_FIELD_NAMES)"
proof -
  have "sysfs_law F if_name w RX_FIELD_NAMES v" "sysfs_law F if_name w TX_FIELD_NAMES v"
    using assms by (auto simp: sysfs_law_def)
  then show ?thesis
    using InterfaceStatsRx_new_ok InterfaceStatsTx_new_ok
    by (fastforce simp: InterfaceStats_new_def InterfaceStats_fields_def)
qed

theorem iface_reads_all_witness:
  "\<exists>s. InterfaceStats_new (loopback True) ''lo'' (lb_world True) = Ret s \<and>
     InterfaceStats_fields s = map (\<lambda>f. length (stat_path ''lo'' f)) (TX_FIELD_NAMES @ RX_FIELD_NAMES)"
proof (rule iface_reads_all)
  have "length (stat_path ''lo'' f) < 2 ^ 64" if "f \<in> set (TX_FIELD_NAMES @ RX_FIELD_NAMES)" for f
    using that by (auto simp: TX_FIELD_NAMES_def RX_FIELD_NAMES_def stat_path_def)
  then show "sysfs_law (loopback True) ''lo'' (lb_world True) (TX_FIELD_NAMES @ RX_FIELD_NAMES)
      (\<lambda>f. length (stat_path ''lo'' f))"
    using parse_line by (auto simp: sysfs_law_def loopback_def)
qed

text \<open>
  In a build with overflow checks, subtracting an earlier reading of the counters works exactly
  when no counter went backwards (a reset interface makes it panic); then adding the earlier reading
  to the difference, field by field, gives the later one.
\<close>

theorem iface_sub_exact:
  "case InterfaceStats_sub True a b of
     Ret d \<Rightarrow> list_all2 (\<le>) (InterfaceStats_fields b) (InterfaceStats_fields a) \<and>
       map2 (+) (InterfaceStats_fields d) (InterfaceStats_fields b) = InterfaceStats_fields a
   | Panic c \<Rightarrow> c = ArithOverflow \<and> \<not> list_all2 (\<le>) (InterfaceStats_fields b) (InterfaceStats_fields a)
   | _ \<Rightarrow> False"
proof (cases "list_all2 (\<le>) (InterfaceStats_fields b) (InterfaceStats_fields a)")
  case True
  then obtain d where "InterfaceStats_sub True a b = Ret d" using iface.sub_checked_iff by blast
  then show ?thesis using True iface.sub_restores by simp
next
  case False
  then show ?thesis using iface.sub_underflow by simp
qed

end
