(* ===== verification/Ether_Lib.thy ===== *)
theory Ether_Lib
  imports Iface
begin

text \<open>
  What the two example programs use beside the crate. The third-party crates \<open>etherparse\<close>
  (slicing and building packets), \<open>byteorder\<close> and \<open>ctrlc\<close> are the parameter record
  \<open>crates\<close>; a sliced packet is the record of what its accessors return, a packet builder the
  record of the arguments it was given. From the standard library, \<open>str::split\<close>,
  \<open>u8::from_str_radix\<close> and the parser of \<open>Ipv4Addr\<close> are written out.
\<close>

section \<open>Third-party crates\<close>

record Ethernet2HeaderSlice =
  eth_source :: "u8 list"
  eth_destination :: "u8 list"

datatype LinkSlice = Ethernet2 Ethernet2HeaderSlice

record Ipv4HeaderSlice =
  ipv4_source :: "u8 list"
  ipv4_destination :: "u8 list"

datatype InternetSlice = Ipv4 Ipv4HeaderSlice | Ipv6

record UdpHeaderSlice =
  udp_source_port :: u16
  udp_destination_port :: u16

record TcpHeaderSlice =
  tcp_source_port :: u16
  tcp_destination_port :: u16
  tcp_sequence_number :: u32
  tcp_window_size :: u16

datatype TransportSlice = Udp UdpHeaderSlice | Tcp TcpHeaderSlice

record SlicedPacket =
  sp_link :: "LinkSlice option"
  sp_ip :: "InternetSlice option"
  sp_transport :: "TransportSlice option"
  sp_payload :: "u8 list"

text \<open>The arguments of \<open>PacketBuilder::ethernet2(..).ipv4(..)\<close> and of the transport step.\<close>

record IpBuilder =
  pb_src_mac :: "u8 list"
  pb_dest_mac :: "u8 list"
  pb_src_ip :: "u8 list"
  pb_dest_ip :: "u8 list"
  pb_ttl :: u8

record TcpBuilder =
  tb_ip :: IpBuilder
  tb_src_port :: u16
  tb_dest_port :: u16
  tb_seq :: u32
  tb_window :: u16
  tb_syn :: bool
  tb_ack :: "u32 option"

record UdpBuilder =
  up_ip :: IpBuilder
  up_src_port :: u16
  up_dest_port :: u16

text \<open>
  \<open>tcp_bytes\<close> and \<open>udp_bytes\<close> are the bytes \<open>write\<close> sends to its writer, or its error.
  \<open>running\<close> is the value of the flag the Ctrl-C handler clears, at each test of it.
\<close>

record crates =
  from_ethernet :: "u8 list \<Rightarrow> string + SlicedPacket"
  tcp_bytes :: "TcpBuilder \<Rightarrow> u8 list \<Rightarrow> string + u8 list"
  udp_size :: "UdpBuilder \<Rightarrow> usize \<Rightarrow> usize"
  udp_bytes :: "UdpBuilder \<Rightarrow> u8 list \<Rightarrow> string + u8 list"
  le_write_u64 :: "u8 list \<Rightarrow> u64 \<Rightarrow> u8 list outcome"
  le_read_u64 :: "u8 list \<Rightarrow> u64 outcome"
  set_handler :: "string + unit"
  running :: "nat \<Rightarrow> bool"

text \<open>
  Documented behaviour: a UDP packet has the size the builder announces and ends in its payload;
  \<open>write_u64\<close> fills eight bytes, from which \<open>read_u64\<close> gives the number back.
\<close>

definition udp_law :: "crates \<Rightarrow> bool" where
  "udp_law E \<longleftrightarrow>
     (\<forall>b p bs. udp_bytes E b p = Inr bs \<longrightarrow>
        length bs = udp_size E b (length p) \<and> length p \<le> length bs \<and> drop (length bs - length p) bs = p)"

text \<open>A TCP packet parses back to the addresses, ports, sequence number and window it was built with.\<close>

definition built_packet :: "TcpBuilder \<Rightarrow> SlicedPacket" where
  "built_packet b =
     \<lparr>sp_link = Some (Ethernet2 \<lparr>eth_source = pb_src_mac (tb_ip b), eth_destination = pb_dest_mac (tb_ip b)\<rparr>),
      sp_ip = Some (Ipv4 \<lparr>ipv4_source = pb_src_ip (tb_ip b), ipv4_destination = pb_dest_ip (tb_ip b)\<rparr>),
      sp_transport = Some (Tcp \<lparr>tcp_source_port = tb_src_port b, tcp_destination_port = tb_dest_port b,
        tcp_sequence_number = tb_seq b, tcp_window_size = tb_window b\<rparr>),
      sp_payload = []\<rparr>"

definition tcp_law :: "crates \<Rightarrow> bool" where
  "tcp_law E \<longleftrightarrow>
     (\<forall>b bs. length (pb_src_mac (tb_ip b)) = 6 \<longrightarrow> length (pb_dest_mac (tb_ip b)) = 6 \<longrightarrow>
        length (pb_src_ip (tb_ip b)) = 4 \<longrightarrow> length (pb_dest_ip (tb_ip b)) = 4 \<longrightarrow>
        tcp_bytes E b [] = Inr bs \<longrightarrow> from_ethernet E bs = Inr (built_packet b))"

definition le_law :: "crates \<Rightarrow> bool" where
  "le_law E \<longleftrightarrow>
     (\<forall>buf n. length buf = 8 \<longrightarrow> n < 2 ^ 64 \<longrightarrow>
        (\<exists>bs. le_write_u64 E buf n = Ret bs \<and> length bs = 8 \<and> le_read_u64 E bs = Ret n))"

section \<open>The standard library\<close>

datatype ParseError = AddrParseError | ParseIntError | StrError string

fun split_on :: "char \<Rightarrow> string \<Rightarrow> string list" where
  "split_on c [] = [[]]"
| "split_on c (x # xs) =
     (if x = c then [] # split_on c xs else (x # hd (split_on c xs)) # tl (split_on c xs))"

definition hex_digit :: "char \<Rightarrow> nat option" where
  "hex_digit c =
     (let n = (of_char c :: nat) in
      if 48 \<le> n \<and> n \<le> 57 then Some (n - 48)
      else if 97 \<le> n \<and> n \<le> 102 then Some (n - 87)
      else if 65 \<le> n \<and> n \<le> 70 then Some (n - 55)
      else None)"

fun hex_digits :: "nat \<Rightarrow> string \<Rightarrow> nat option" where
  "hex_digits acc [] = Some acc"
| "hex_digits acc (c # cs) =
     (case hex_digit c of
        None \<Rightarrow> None
      | Some d \<Rightarrow> if acc * 16 + d < 256 then hex_digits (acc * 16 + d) cs else None)"

text \<open>\<open>u8::from_str_radix(s, 16)\<close>: an optional plus sign and at least one digit.\<close>

definition u8_from_hex :: "string \<Rightarrow> ParseError + u8" where
  "u8_from_hex s =
     (let ds = (case s of c # cs \<Rightarrow> if c = CHR ''+'' then cs else s | [] \<Rightarrow> []) in
      if ds = [] then Inl ParseIntError
      else case hex_digits 0 ds of None \<Rightarrow> Inl ParseIntError | Some n \<Rightarrow> Inr (word_of_nat n))"

text \<open>
  \<open>Ipv4Addr::from_str\<close>: four decimal octets of at most three digits, without leading zeros.
\<close>

definition parse_octet :: "string \<Rightarrow> u8 option" where
  "parse_octet s =
     (if s = [] \<or> 3 < length s \<or> (1 < length s \<and> hd s = CHR ''0'') then None
      else case parse_digits 0 s of
             None \<Rightarrow> None
           | Some n \<Rightarrow> if n < 256 then Some (word_of_nat n) else None)"

definition Ipv4Addr_parse :: "string \<Rightarrow> ParseError + u8 list" where
  "Ipv4Addr_parse s =
     (let ps = split_on (CHR ''.'') s in
      if length ps \<noteq> 4 then Inl AddrParseError
      else case those (map parse_octet ps) of None \<Rightarrow> Inl AddrParseError | Some os \<Rightarrow> Inr os)"

text \<open>\<open>io::Write\<close> for \<open>&mut [u8]\<close>: all the bytes are written at the front, or it fails.\<close>

definition write_slice :: "u8 list \<Rightarrow> u8 list \<Rightarrow> string + u8 list" where
  "write_slice buf bs =
     (if length bs \<le> length buf then Inr (bs @ drop (length bs) buf)
      else Inl ''failed to write whole buffer'')"

text \<open>\<open>[a[0], .., a[n - 1]]\<close>\<close>

definition first_n :: "nat \<Rightarrow> 'a list \<Rightarrow> 'a list outcome" where
  "first_n n xs = (if n \<le> length xs then Ret (take n xs) else Panic OutOfRange)"

text \<open>Addition on \<open>i32\<close>, the type of an integer variable without annotation.\<close>

definition add_i32 :: "bool \<Rightarrow> i32 \<Rightarrow> i32 \<Rightarrow> i32 outcome" where
  "add_i32 chk a b =
     (if - (2 ^ 31) \<le> a + b \<and> a + b < 2 ^ 31 then Ret (a + b)
      else if chk then Panic ArithOverflow else Ret ((a + b + 2 ^ 31) mod 2 ^ 32 - 2 ^ 31))"

text \<open>\<open>Duration::from_secs\<close>; the clock counts nanoseconds.\<close>

definition from_secs :: "u64 \<Rightarrow> nat" where
  "from_secs s = s * 10 ^ 9"

lemma add32_one: "add32 chk a 1 = (if chk \<and> a = - 1 then Panic ArithOverflow else Ret (a + 1))"
proof -
  have "2 ^ 32 \<le> unat a + 1 \<longleftrightarrow> unat a = 2 ^ 32 - 1"
    using unsigned_less [of a, where ?'a = nat] by auto
  also have "\<dots> \<longleftrightarrow> a = - 1" by (simp add: word_unat_eq_iff unsigned_minus_1_eq_mask mask_eq_exp_minus_1)
  finally show ?thesis by (simp add: add32_def)
qed

section \<open>Splitting and joining\<close>

fun join_with :: "char \<Rightarrow> string list \<Rightarrow> string" where
  "join_with c [] = []"
| "join_with c [p] = p"
| "join_with c (p # q # ps) = p @ c # join_with c (q # ps)"

lemma split_on_not_Nil [simp]: "split_on c s \<noteq> []"
  by (cases s) auto

lemma split_on_part: "c \<notin> set p \<Longrightarrow> split_on c p = [p]"
  by (induction p) auto

lemma split_on_append: "c \<notin> set p \<Longrightarrow> split_on c (p @ c # s) = p # split_on c s"
  by (induction p) auto

lemma split_join: "ps \<noteq> [] \<Longrightarrow> \<forall>p \<in> set ps. c \<notin> set p \<Longrightarrow> split_on c (join_with c ps) = ps"
  by (induction c ps rule: join_with.induct) (simp_all add: split_on_part split_on_append)

lemma join_split: "join_with c (split_on c s) = s"
proof (induction s)
  case (Cons x s)
  obtain p ps where "split_on c s = p # ps" by (metis split_on_not_Nil list.exhaust)
  then show ?case using Cons by (cases ps) auto
qed simp

lemma those_Some_iff: "those xs = Some ys \<longleftrightarrow> xs = map Some ys"
proof (induction xs arbitrary: ys)
  case (Cons x xs)
  then show ?case by (cases x; cases ys) auto
qed auto

end
