(* ===== verification/Synacker.thy ===== *)
theory Synacker
  imports Ether_Lib Xsk Xsk_Tx_Retry
begin

text \<open>
  \<^verbatim>\<open>src/examples/synacker.rs\<close>: a program that answers every TCP packet that passes its
  filter with a SYN-ACK. The options are given parsed; log and status output are left out. The
  loops take a number of turns and end in \<open>Spin\<close> when it runs out; \<open>fuel\<close> is the fuel of
  the ring loops underneath.
\<close>

section \<open>Definitions\<close>

record SynackerOpts =
  so_dev :: string
  so_src_ip :: "string option"
  so_src_port :: "u16 option"
  so_dest_ip :: "string option"
  so_dest_port :: "u16 option"
  so_verbose :: i32
  so_timeout_sec :: "u64 option"

record SynackerFilter =
  sf_src_ip :: "u8 list option"
  sf_src_port :: "u16 option"
  sf_dest_ip :: "u8 list option"
  sf_dest_port :: "u16 option"

definition SynackerFilter_new ::
    "string option \<Rightarrow> u16 option \<Rightarrow> string option \<Rightarrow> u16 option \<Rightarrow> ParseError + SynackerFilter" where
  "SynackerFilter_new src_ip src_port dest_ip dest_port =
     (case (case src_ip of Some s \<Rightarrow> map_sum id Some (Ipv4Addr_parse s) | None \<Rightarrow> Inr None) of
        Inl e \<Rightarrow> Inl e
      | Inr src_ipv4 \<Rightarrow>
          (case (case dest_ip of Some s \<Rightarrow> map_sum id Some (Ipv4Addr_parse s) | None \<Rightarrow> Inr None) of
             Inl e \<Rightarrow> Inl e
           | Inr dest_ipv4 \<Rightarrow>
               Inr \<lparr>sf_src_ip = src_ipv4, sf_src_port = src_port, sf_dest_ip = dest_ipv4,
                    sf_dest_port = dest_port\<rparr>))"

definition SynackerFilter_filter :: "SynackerFilter \<Rightarrow> SlicedPacket \<Rightarrow> bool" where
  "SynackerFilter_filter f parsed_pkt =
     (let ip_match =
            (case sp_ip parsed_pkt of
               Some (Ipv4 ipv4) \<Rightarrow>
                 (let ip_match = (case sf_src_ip f of Some a \<Rightarrow> ipv4_source ipv4 = a | None \<Rightarrow> True)
                  in case sf_dest_ip f of
                       Some a \<Rightarrow> ip_match \<and> ipv4_destination ipv4 = a
                     | None \<Rightarrow> ip_match)
             | _ \<Rightarrow> True);
          transport_match =
            (case sp_transport parsed_pkt of
               Some (Tcp tcp) \<Rightarrow>
                 (let transport_match =
                        (case sf_src_port f of Some p \<Rightarrow> tcp_source_port tcp = p | None \<Rightarrow> True)
                  in case sf_dest_port f of
                       Some p \<Rightarrow> tcp_destination_port tcp = p
                     | None \<Rightarrow> transport_match)
             | _ \<Rightarrow> True)
      in ip_match \<and> transport_match)"

definition SYNACKER_DEFAULT_TIMEOUT :: u64 where
  "SYNACKER_DEFAULT_TIMEOUT = 30"

definition generate_synack :: "bool \<Rightarrow> crates \<Rightarrow> SlicedPacket \<Rightarrow> u8 list option outcome" where
  "generate_synack chk E recvd =
     (case sp_link recvd of
        None \<Rightarrow> Ret None
      | Some (Ethernet2 link) \<Rightarrow>
          (case sp_ip recvd of
             None \<Rightarrow> Ret None
           | Some Ipv6 \<Rightarrow> Ret None
           | Some (Ipv4 ipv4) \<Rightarrow>
               (case sp_transport recvd of
                  None \<Rightarrow> Ret None
                | Some (Udp _) \<Rightarrow> Ret None
                | Some (Tcp tcp) \<Rightarrow>
                    bindO (first_n 6 (eth_source link)) (\<lambda>src_mac.
                      bindO (first_n 6 (eth_destination link)) (\<lambda>dest_mac.
                        bindO (first_n 4 (ipv4_source ipv4)) (\<lambda>src_ip.
                          bindO (first_n 4 (ipv4_destination ipv4)) (\<lambda>dest_ip.
                            bindO (add32 chk (tcp_sequence_number tcp) 1) (\<lambda>ack.
                              bindO (expectR ''failed to build packet''
                                       (tcp_bytes E
                                          \<lparr>tb_ip = \<lparr>pb_src_mac = dest_mac, pb_dest_mac = src_mac,
                                             pb_src_ip = dest_ip, pb_dest_ip = src_ip, pb_ttl = 20\<rparr>,
                                           tb_src_port = tcp_destination_port tcp,
                                           tb_dest_port = tcp_source_port tcp,
                                           tb_seq = tcp_sequence_number tcp,
                                           tb_window = tcp_window_size tcp,
                                           tb_syn = True, tb_ack = Some ack\<rparr> []))
                                (\<lambda>result. Ret (Some result))))))))))"

text \<open>\<open>while let Err(_) = xsk.tx.send(&synack) {}\<close>\<close>

fun send_until :: "'k ffi \<Rightarrow> nat \<Rightarrow> nat \<Rightarrow> XskTx \<Rightarrow> u8 list \<Rightarrow> 'k world \<Rightarrow> (XskTx \<times> 'k world) outcome" where
  "send_until F fuel 0 s data w = Spin"
| "send_until F fuel (Suc turns) s data w =
     bindO (send F fuel s data w) (\<lambda>(r, s1, w1).
       case r of Inr _ \<Rightarrow> Ret (s1, w1) | Inl _ \<Rightarrow> send_until F fuel turns s1 data w1)"

text \<open>The body of the loop of \<open>spawn_rx\<close>.\<close>

definition synacker_turn ::
    "'k ffi \<Rightarrow> crates \<Rightarrow> nat \<Rightarrow> nat \<Rightarrow> SynackerFilter \<Rightarrow> Xsk2 \<Rightarrow> u8 list \<Rightarrow> 'k world \<Rightarrow>
     (Xsk2 \<times> u8 list \<times> 'k world) outcome" where
  "synacker_turn F E fuel turns filt xsk pkt w =
     bindO (recv F fuel (x2_rx xsk) pkt w) (\<lambda>(len_recvd, pkt, rx, w1).
       let xsk = xsk\<lparr>x2_rx := rx\<rparr> in
       if 0 < len_recvd then
         bindO (sliceO pkt 0 len_recvd) (\<lambda>bs.
           case from_ethernet E bs of
             Inr p \<Rightarrow>
               if SynackerFilter_filter filt p then
                 bindO (generate_synack (overflow_checks F) E p) (\<lambda>r.
                   case r of
                     Some synack \<Rightarrow>
                       bindO (send_until F fuel turns (x2_tx xsk) synack w1) (\<lambda>(tx, w2).
                         Ret (xsk\<lparr>x2_tx := tx\<rparr>, pkt, w2))
                   | None \<Rightarrow> Ret (xsk, pkt, w1))
               else Ret (xsk, pkt, w1)
           | Inl _ \<Rightarrow> Ret (xsk, pkt, w1))
       else Ret (xsk, pkt, w1))"

text \<open>\<open>i\<close> counts the tests of the loop condition.\<close>

fun synacker_loop ::
    "'k ffi \<Rightarrow> crates \<Rightarrow> nat \<Rightarrow> SynackerFilter \<Rightarrow> nat \<Rightarrow> nat \<Rightarrow> nat \<Rightarrow> nat \<Rightarrow> Xsk2 \<Rightarrow> u8 list \<Rightarrow> 'k world \<Rightarrow>
     (Xsk2 \<times> 'k world) outcome" where
  "synacker_loop F E fuel filt start timeout i 0 xsk pkt w = Spin"
| "synacker_loop F E fuel filt start timeout i (Suc turns) xsk pkt w =
     (if running E i \<and> instant_now F w - start < timeout then
        bindO (synacker_turn F E fuel (Suc turns) filt xsk pkt w) (\<lambda>(xsk, pkt, w1).
          synacker_loop F E fuel filt start timeout (Suc i) turns xsk pkt w1)
      else Ret (xsk, w))"

definition spawn_rx ::
    "'k ffi \<Rightarrow> crates \<Rightarrow> nat \<Rightarrow> nat \<Rightarrow> Xsk2 \<Rightarrow> SynackerOpts \<Rightarrow> 'k world \<Rightarrow> (RxStats \<times> 'k world) outcome" where
  "spawn_rx F E fuel turns xsk opts w =
     bindO (unwrapR (SynackerFilter_new (so_src_ip opts) (so_src_port opts) (so_dest_ip opts) (so_dest_port opts)))
       (\<lambda>filt.
         bindO (expectR ''Error setting Ctrl-C handler'' (set_handler E)) (\<lambda>_.
           let pkt = replicate MAX_PACKET_SIZE 0;
               start = instant_now F w;
               timeout = (case so_timeout_sec opts of
                            Some timeout \<Rightarrow> from_secs timeout
                          | None \<Rightarrow> from_secs SYNACKER_DEFAULT_TIMEOUT)
           in bindO (synacker_loop F E fuel filt start timeout 0 turns xsk pkt w) (\<lambda>(xsk, w1).
                Ret (XskRx_stats F (x2_rx xsk) w1, w1))))"

definition synacker_main ::
    "'k ffi \<Rightarrow> crates \<Rightarrow> nat \<Rightarrow> nat \<Rightarrow> SynackerOpts \<Rightarrow> 'k world \<Rightarrow> (RxStats \<times> 'k world) outcome" where
  "synacker_main F E fuel turns opts w =
     bindO (unwrapR (UmemConfigBuilder_build
              (UmemConfigBuilder_fill_queue_size 4096
                (UmemConfigBuilder_comp_queue_size 4096
                  (UmemConfigBuilder_frame_count 8192 (UmemConfigBuilder_new (abi F))))))) (\<lambda>umem_config.
       bindO (unwrapR (SocketConfigBuilder_build
                (SocketConfigBuilder_xdp_flags XDP_FLAGS_SKB_MODE
                  (SocketConfigBuilder_bind_flags XDP_COPY
                    (SocketConfigBuilder_rx_queue_size 4096
                      (SocketConfigBuilder_tx_queue_size 4096 (SocketConfigBuilder_new (abi F)))))))) (\<lambda>socket_config.
         let n_tx_frames = frame_count umem_config div 2 in
         bindO (Xsk2_new F (so_dev opts) 0 umem_config socket_config (as_usize n_tx_frames) 1 w) (\<lambda>(r, w1).
           bindO (expectR ''failed to build xsk'' r) (\<lambda>xsk. spawn_rx F E fuel turns xsk opts w1))))"

section \<open>Sending until it works\<close>

text \<open>A packet fits when the frame at the cursor can hold it.\<close>

definition send_fits :: "u8 list \<Rightarrow> XskTx \<Rightarrow> bool" where
  "send_fits data s \<longleftrightarrow> length data \<le> frame_mtu (tx_frames s ! tx_cursor s)"

interpretation send_retry: retried "\<lambda>F fuel data s w. send F fuel s data w"
  "\<lambda>F fuel n data s w. send_until F fuel n s data w" "\<lambda>F m data s w. send_fits data s"
  "\<lambda>F m data s w. data" "\<lambda>F m data s w w'. True"
proof
  fix F :: "'a ffi" and T C m fuel s w s' w' and data :: "u8 list"
  assume "tx_ready F T C m fuel s w" "waited m T s w s' w'" "send_fits data s"
  moreover from this have "tx_cursor s < length (tx_frames s)" by (simp add: tx_ready_def tx_inv_def)
  ultimately show "send_fits data s' \<and> data = data \<and> (\<forall>w2 :: 'a world. True \<longrightarrow> True)"
    using waited_mtu [of m T s w s' w' "tx_cursor s"] by (simp add: send_fits_def waited_def)
next
  fix F :: "'a ffi" and T C m fuel s w and data :: "u8 list"
  assume "tx_ready F T C m fuel s w" "send_fits data s" "tx_cursor s \<notin> in_flight C s w"
  then show "\<exists>s' w'. send F fuel s data w = Ret (Inr (), s', w') \<and> True"
    using send_ready [of F T C m fuel s w data] by (auto simp: send_fits_def)
next
  fix F :: "'a ffi" and T C m fuel s0 w0 s w acc handed r s' w' and data :: "u8 list"
  assume "tx_run F fuel m T C s0 w0 s w acc handed" "tx_counts F T C s w" "send_fits data s"
    "send F fuel s data w = Ret (r, s', w')"
  then show "tx_run F fuel m T C s0 w0 s' w' (acc @ (case r of Inl _ \<Rightarrow> [] | Inr _ \<Rightarrow> [data])) (handed @ new_packets m T w w')"
    using run_send by (auto simp: send_fits_def)
qed (auto intro: send_blocked)

end
