(* ===== verification/Dev_To_Dev.thy ===== *)
theory Dev_To_Dev
  imports Ether_Lib Xsk
begin

text \<open>
  \<^verbatim>\<open>src/examples/dev_to_dev.rs\<close>: a program that sends or receives numbered UDP packets, one
  thread per queue. The options are given parsed; output is left out. Each thread has its own socket
  and frames; a thread's body is \<open>dev_thread\<close>, and \<open>spawn_jobs\<close> are the threads that are
  started. The loops take a number of turns and end in \<open>Spin\<close> when it runs out; \<open>fuel\<close> is
  the fuel of the ring loops underneath.
\<close>

section \<open>Definitions\<close>

datatype Mode = ModeTx | ModeRx

datatype BindOption = BindCopy | BindZeroCopy

datatype SocketOption = SocketDrv | SocketSkb

record DevOpts =
  do_dev :: string
  do_src_mac :: string
  do_dest_mac :: string
  do_src_ip :: string
  do_src_port :: u16
  do_dest_ip :: string
  do_dest_port :: u16
  do_verbose :: i32
  do_mode :: Mode
  do_n_pkts :: u64
  do_queues :: "u32 list"
  do_bind_option :: BindOption
  do_socket_option :: SocketOption
  do_timeout_sec :: "u64 option"
  do_xdp_queue_size :: u32
  do_batch_size :: usize

record DevFilter =
  df_src_mac :: "u8 list"
  df_dest_mac :: "u8 list"
  df_src_ip :: "u8 list"
  df_src_port :: u16
  df_dest_ip :: "u8 list"
  df_dest_port :: u16

text \<open>\<open>mac_loop\<close> is the loop over the parts with their indices.\<close>

fun mac_loop :: "nat \<Rightarrow> string list \<Rightarrow> u8 list \<Rightarrow> (ParseError + u8 list) outcome" where
  "mac_loop i [] mac_bytes = Ret (Inr mac_bytes)"
| "mac_loop i (part # parts) mac_bytes =
     (case u8_from_hex part of
        Inl e \<Rightarrow> Ret (Inl e)
      | Inr mac_byte \<Rightarrow> bindO (setO mac_bytes i mac_byte) (mac_loop (Suc i) parts))"

definition parse_mac :: "string \<Rightarrow> (ParseError + u8 list) outcome" where
  "parse_mac mac =
     (let parts = split_on (CHR '':'') mac in
      if length parts \<noteq> 6 then Ret (Inl (StrError ''wrong len''))
      else mac_loop 0 parts (replicate 6 0))"

definition DevFilter_from_opts :: "DevOpts \<Rightarrow> (ParseError + DevFilter) outcome" where
  "DevFilter_from_opts opts =
     bindO (parse_mac (do_src_mac opts)) (\<lambda>r. case r of Inl e \<Rightarrow> Ret (Inl e) | Inr src_mac \<Rightarrow>
       bindO (parse_mac (do_dest_mac opts)) (\<lambda>r. case r of Inl e \<Rightarrow> Ret (Inl e) | Inr dest_mac \<Rightarrow>
         (case Ipv4Addr_parse (do_src_ip opts) of Inl e \<Rightarrow> Ret (Inl e) | Inr src_ipv4 \<Rightarrow>
           (case Ipv4Addr_parse (do_dest_ip opts) of Inl e \<Rightarrow> Ret (Inl e) | Inr dest_ipv4 \<Rightarrow>
              Ret (Inr \<lparr>df_src_mac = src_mac, df_dest_mac = dest_mac, df_src_ip = src_ipv4,
                        df_src_port = do_src_port opts, df_dest_ip = dest_ipv4,
                        df_dest_port = do_dest_port opts\<rparr>)))))"

definition build_umem_socket_config :: "abi_consts \<Rightarrow> DevOpts \<Rightarrow> (UmemConfig \<times> SocketConfig) outcome" where
  "build_umem_socket_config A opts =
     (let n = do_xdp_queue_size opts in
      bindO (unwrapR (UmemConfigBuilder_build
               (UmemConfigBuilder_fill_queue_size (n div 2)
                 (UmemConfigBuilder_comp_queue_size (n div 2)
                   (UmemConfigBuilder_frame_count n (UmemConfigBuilder_new A)))))) (\<lambda>umem_config.
        let socket_config_init =
              SocketConfigBuilder_rx_queue_size (n div 2)
                (SocketConfigBuilder_tx_queue_size (n div 2) (SocketConfigBuilder_new A));
            socket_config_bind =
              (case do_bind_option opts of
                 BindZeroCopy \<Rightarrow> SocketConfigBuilder_bind_flags XDP_ZEROCOPY socket_config_init
               | BindCopy \<Rightarrow> SocketConfigBuilder_bind_flags XDP_COPY socket_config_init);
            socket_config_sk =
              (case do_socket_option opts of
                 SocketDrv \<Rightarrow> SocketConfigBuilder_xdp_flags XDP_FLAGS_DRV_MODE socket_config_bind
               | SocketSkb \<Rightarrow> SocketConfigBuilder_xdp_flags XDP_FLAGS_SKB_MODE socket_config_bind)
        in bindO (unwrapR (SocketConfigBuilder_build socket_config_sk)) (\<lambda>socket_config.
             Ret (umem_config, socket_config))))"

definition build_xsk ::
    "'k ffi \<Rightarrow> UmemConfig \<Rightarrow> SocketConfig \<Rightarrow> string \<Rightarrow> u32 \<Rightarrow> usize \<Rightarrow> 'k world \<Rightarrow> (Xsk2 \<times> 'k world) outcome" where
  "build_xsk F uc sc ifname queue tx_batch_size w =
     (let n_tx_frames = frame_count uc div 2 in
      bindO (Xsk2_new F ifname queue uc sc (as_usize n_tx_frames) tx_batch_size w)
        (\<lambda>(r, w1). bindO (expectR ''failed to build xsk'' r) (\<lambda>xsk. Ret (xsk, w1))))"

text \<open>The numbers a queue sends: \<open>(0..n_pkts).filter(|i| i % n_queues == queue_index)\<close>.\<close>

fun split_filter :: "u64 \<Rightarrow> u64 \<Rightarrow> u64 list \<Rightarrow> u64 list outcome" where
  "split_filter queue_index n_queues [] = Ret []"
| "split_filter queue_index n_queues (i # is) =
     bindO (rem64 i n_queues) (\<lambda>r.
       bindO (split_filter queue_index n_queues is) (\<lambda>rest.
         Ret (if r = queue_index then i # rest else rest)))"

definition split_pkts :: "u64 \<Rightarrow> u64 \<Rightarrow> u64 \<Rightarrow> u64 list outcome" where
  "split_pkts n_pkts queue_index n_queues = split_filter queue_index n_queues [0..<n_pkts]"

definition generate_pkt ::
    "crates \<Rightarrow> u8 list \<Rightarrow> u8 list \<Rightarrow> UdpBuilder \<Rightarrow> (usize \<times> u8 list) outcome" where
  "generate_pkt E pkt payload pkt_builder =
     (let len = udp_size E pkt_builder (length payload) in
      bindO (expectR ''failed to build packet''
               (case udp_bytes E pkt_builder payload of Inl e \<Rightarrow> Inl e | Inr bs \<Rightarrow> write_slice pkt bs))
        (\<lambda>pkt'. Ret (len, pkt')))"

text \<open>The closure \<open>tx_pkts\<close> passes to \<open>send_apply\<close> for packet number \<open>i\<close>.\<close>

definition tx_closure ::
    "bool \<Rightarrow> crates \<Rightarrow> usize \<Rightarrow> u64 \<Rightarrow> unit \<Rightarrow> u8 list \<Rightarrow> (usize \<times> (nat \<Rightarrow> u8) \<times> unit) outcome" where
  "tx_closure chk E len_pkt i c pkt =
     bindO (sub64 chk len_pkt 8) (\<lambda>a.
       bindO (sliceO pkt a len_pkt) (\<lambda>payload.
         bindO (le_write_u64 E payload i) (\<lambda>payload'.
           bindO (add64 chk len_pkt 8) (\<lambda>len.
             Ret (len, (\<lambda>k. if a \<le> k \<and> k < len_pkt then payload' ! (k - a) else pkt ! k), ())))))"

fun tx_until ::
    "'k ffi \<Rightarrow> crates \<Rightarrow> nat \<Rightarrow> nat \<Rightarrow> usize \<Rightarrow> u64 \<Rightarrow> XskTx \<Rightarrow> 'k world \<Rightarrow> (XskTx \<times> 'k world) outcome" where
  "tx_until F E fuel 0 len_pkt i s w = Spin"
| "tx_until F E fuel (Suc turns) len_pkt i s w =
     bindO (send_apply F fuel s (tx_closure (overflow_checks F) E len_pkt i) () w) (\<lambda>(r, s1, _, w1).
       case r of Inr _ \<Rightarrow> Ret (s1, w1) | Inl _ \<Rightarrow> tx_until F E fuel turns len_pkt i s1 w1)"

fun tx_loop ::
    "'k ffi \<Rightarrow> crates \<Rightarrow> nat \<Rightarrow> nat \<Rightarrow> usize \<Rightarrow> u64 list \<Rightarrow> XskTx \<Rightarrow> 'k world \<Rightarrow> (XskTx \<times> 'k world) outcome" where
  "tx_loop F E fuel turns len_pkt [] s w = Ret (s, w)"
| "tx_loop F E fuel turns len_pkt (i # is) s w =
     bindO (tx_until F E fuel turns len_pkt i s w) (\<lambda>(s1, w1). tx_loop F E fuel turns len_pkt is s1 w1)"

definition udp_builder :: "DevFilter \<Rightarrow> UdpBuilder" where
  "udp_builder f =
     \<lparr>up_ip = \<lparr>pb_src_mac = df_src_mac f, pb_dest_mac = df_dest_mac f, pb_src_ip = df_src_ip f,
               pb_dest_ip = df_dest_ip f, pb_ttl = 20\<rparr>,
      up_src_port = df_src_port f, up_dest_port = df_dest_port f\<rparr>"

definition tx_pkts ::
    "'k ffi \<Rightarrow> crates \<Rightarrow> nat \<Rightarrow> nat \<Rightarrow> Xsk2 \<Rightarrow> DevFilter \<Rightarrow> u64 list \<Rightarrow> 'k world \<Rightarrow>
     (TxStats \<times> Xsk2 \<times> 'k world) outcome" where
  "tx_pkts F E fuel turns xsk filt pkts w =
     bindO (generate_pkt E (replicate MAX_PACKET_SIZE 0) (replicate 8 0) (udp_builder filt)) (\<lambda>(len_pkt, prefill_pkt).
       bindO (sliceO prefill_pkt 0 len_pkt) (\<lambda>template.
         bindO (prefill (x2_tx xsk) template w) (\<lambda>(s, w1).
           bindO (tx_loop F E fuel turns len_pkt pkts s w1) (\<lambda>(s, w2).
             bindO (drain F fuel s w2) (\<lambda>(s, w3).
               Ret (XskTx_stats F s w3, xsk\<lparr>x2_tx := s\<rparr>, w3))))))"

definition filter_pkt :: "SlicedPacket \<Rightarrow> DevFilter \<Rightarrow> bool" where
  "filter_pkt parsed_pkt filt =
     (let ip_match =
            (case sp_ip parsed_pkt of
               Some (Ipv4 ipv4) \<Rightarrow> ipv4_source ipv4 = df_src_ip filt \<and> ipv4_destination ipv4 = df_dest_ip filt
             | _ \<Rightarrow> False);
          transport_match =
            (case sp_transport parsed_pkt of
               Some (Udp udp) \<Rightarrow>
                 udp_source_port udp = df_src_port filt \<and> udp_destination_port udp = df_dest_port filt
             | _ \<Rightarrow> False)
      in ip_match \<and> transport_match)"

definition DEV_DEFAULT_TIMEOUT :: u64 where
  "DEV_DEFAULT_TIMEOUT = 30"

text \<open>The closure \<open>rx_pkts\<close> passes to \<open>recv_apply\<close>, over the captured \<open>recvd_nums\<close> and counter.\<close>

definition rx_closure ::
    "bool \<Rightarrow> crates \<Rightarrow> DevFilter \<Rightarrow> bool list \<times> u64 \<Rightarrow> u8 list \<Rightarrow> (bool list \<times> u64) outcome" where
  "rx_closure chk E filt c pkt =
     (case from_ethernet E pkt of
        Inr p \<Rightarrow>
          if filter_pkt p filt then
            bindO (sliceO (sp_payload p) 0 8) (\<lambda>bs.
              bindO (le_read_u64 E bs) (\<lambda>n.
                bindO (setO (fst c) n True) (\<lambda>recvd_nums.
                  bindO (add64 chk (snd c) 1) (\<lambda>matched. Ret (recvd_nums, matched)))))
          else Ret c
      | Inl _ \<Rightarrow> Ret c)"

fun rx_pkts_loop ::
    "'k ffi \<Rightarrow> crates \<Rightarrow> nat \<Rightarrow> DevFilter \<Rightarrow> u64 \<Rightarrow> nat \<Rightarrow> nat \<Rightarrow> nat \<Rightarrow> i32 \<Rightarrow> bool list \<times> u64 \<Rightarrow> XskRx \<Rightarrow>
     'k world \<Rightarrow> (bool list \<times> XskRx \<times> 'k world) outcome" where
  "rx_pkts_loop F E fuel filt n_pkts start timeout 0 i c s w = Spin"
| "rx_pkts_loop F E fuel filt n_pkts start timeout (Suc turns) i c s w =
     (if snd c \<noteq> n_pkts then
        bindO (add_i32 (overflow_checks F) i 1) (\<lambda>i.
          if i mod 65536 = 0 \<and> timeout < instant_now F w - start then Ret (fst c, s, w)
          else
            bindO (recv_apply F fuel s (rx_closure (overflow_checks F) E filt) c w) (\<lambda>(c, s, w1).
              rx_pkts_loop F E fuel filt n_pkts start timeout turns i c s w1))
      else Ret (fst c, s, w))"

fun count_missing :: "bool \<Rightarrow> bool list \<Rightarrow> i32 \<Rightarrow> i32 outcome" where
  "count_missing chk [] n_missing = Ret n_missing"
| "count_missing chk (recvd # rest) n_missing =
     (if \<not> recvd then bindO (add_i32 chk n_missing 1) (count_missing chk rest)
      else count_missing chk rest n_missing)"

definition rx_pkts ::
    "'k ffi \<Rightarrow> crates \<Rightarrow> nat \<Rightarrow> nat \<Rightarrow> Xsk2 \<Rightarrow> DevFilter \<Rightarrow> u64 \<Rightarrow> u64 option \<Rightarrow> 'k world \<Rightarrow>
     (i32 \<times> RxStats \<times> Xsk2 \<times> 'k world) outcome" where
  "rx_pkts F E fuel turns xsk filt n_pkts timeout_sec w =
     (let start = instant_now F w;
          timeout = (case timeout_sec of
                       Some timeout \<Rightarrow> from_secs timeout
                     | None \<Rightarrow> from_secs DEV_DEFAULT_TIMEOUT)
      in bindO (rx_pkts_loop F E fuel filt n_pkts start timeout turns 0 (replicate n_pkts False, 0) (x2_rx xsk) w)
           (\<lambda>(recvd_nums, s, w1).
             bindO (count_missing (overflow_checks F) recvd_nums 0) (\<lambda>n_missing.
               Ret (n_missing, XskRx_stats F s w1, xsk\<lparr>x2_rx := s\<rparr>, w1))))"

text \<open>The body of a thread, and the threads \<open>spawn_threads\<close> starts: index, queue and configurations.\<close>

definition dev_thread ::
    "'k ffi \<Rightarrow> crates \<Rightarrow> nat \<Rightarrow> nat \<Rightarrow> DevOpts \<Rightarrow> nat \<times> u32 \<times> UmemConfig \<times> SocketConfig \<Rightarrow> 'k world \<Rightarrow>
     (Xsk2 \<times> 'k world) outcome" where
  "dev_thread F E fuel turns opts job w =
     (case job of (i, queue, uc, sc) \<Rightarrow>
        bindO (build_xsk F uc sc (do_dev opts) queue (do_batch_size opts) w) (\<lambda>(xsk, w1).
          bindO (DevFilter_from_opts opts) (\<lambda>r.
            bindO (expectR ''failed to build packet filter'' r) (\<lambda>filt.
              case do_mode opts of
                ModeTx \<Rightarrow>
                  bindO (split_pkts (do_n_pkts opts) i (length (do_queues opts))) (\<lambda>pkts.
                    bindO (tx_pkts F E fuel turns xsk filt pkts w1) (\<lambda>(_, xsk, w2). Ret (xsk, w2)))
              | ModeRx \<Rightarrow>
                  bindO (rx_pkts F E fuel turns xsk filt (do_n_pkts opts) (do_timeout_sec opts) w1)
                    (\<lambda>(_, _, xsk, w2). Ret (xsk, w2))))))"

fun spawn_loop ::
    "abi_consts \<Rightarrow> DevOpts \<Rightarrow> (nat \<times> u32) list \<Rightarrow> (nat \<times> u32 \<times> UmemConfig \<times> SocketConfig) list outcome" where
  "spawn_loop A opts [] = Ret []"
| "spawn_loop A opts ((i, queue) # rest) =
     bindO (build_umem_socket_config A opts) (\<lambda>(uc, sc).
       bindO (spawn_loop A opts rest) (\<lambda>jobs. Ret ((i, queue, uc, sc) # jobs)))"

definition spawn_jobs ::
    "abi_consts \<Rightarrow> DevOpts \<Rightarrow> (nat \<times> u32 \<times> UmemConfig \<times> SocketConfig) list outcome" where
  "spawn_jobs A opts = spawn_loop A opts (enumerate 0 (do_queues opts))"

text \<open>For the theorems: a hardware address as it is usually written.\<close>

definition hex_char :: "nat \<Rightarrow> char" where
  "hex_char d = (if d < 10 then char_of (48 + d) else char_of (87 + d))"

definition show_hex2 :: "u8 \<Rightarrow> string" where
  "show_hex2 b = [hex_char (unat b div 16), hex_char (unat b mod 16)]"

definition show_mac :: "u8 list \<Rightarrow> string" where
  "show_mac bs = join_with (CHR '':'') (map show_hex2 bs)"

section \<open>Hardware addresses\<close>

lemma hex_digit_char:
  assumes "d < 16"
  shows "hex_digit (hex_char d) = Some d"
proof (cases "d < 10")
  case True
  then have "(of_char (hex_char d) :: nat) = 48 + d" by (simp add: hex_char_def take_bit_eq_mod)
  then show ?thesis using True by (simp add: hex_digit_def Let_def)
next
  case False
  then have "(of_char (hex_char d) :: nat) = 87 + d" using assms by (simp add: hex_char_def take_bit_eq_mod)
  then show ?thesis using False assms by (simp add: hex_digit_def Let_def)
qed

lemma hex_char_plain:
  assumes "d < 16"
  shows "hex_char d \<noteq> CHR ''+''" "hex_char d \<noteq> CHR '':''"
proof -
  have "hex_digit (CHR ''+'') = None" "hex_digit (CHR '':'') = None" by (simp_all add: hex_digit_def)
  then show "hex_char d \<noteq> CHR ''+''" "hex_char d \<noteq> CHR '':''" using hex_digit_char [OF assms] by auto
qed

lemma hex2_bounds: "unat b div 16 < 16" "unat b mod 16 < 16" for b :: u8
  using unsigned_less [of b, where ?'a = nat] by auto

lemma u8_from_hex_show: "u8_from_hex (show_hex2 b) = Inr b"
  using hex_digit_char [OF hex2_bounds(1), of b] hex_digit_char [OF hex2_bounds(2), of b]
    hex_char_plain(1) [OF hex2_bounds(1), of b] hex2_bounds [of b] unsigned_less [of b, where ?'a = nat]
  by (simp add: u8_from_hex_def show_hex2_def Let_def)

lemma colon_notin: "CHR '':'' \<notin> set (show_hex2 b)"
  using hex_char_plain(2) [OF hex2_bounds(1), of b] hex_char_plain(2) [OF hex2_bounds(2), of b]
  by (auto simp: show_hex2_def)

lemma u8_from_hex_cases: "u8_from_hex s = Inl ParseIntError \<or> (\<exists>b. u8_from_hex s = Inr b)"
  by (auto simp: u8_from_hex_def Let_def split: option.splits)

lemma mac_loop_eq:
  "i + length ps = length mac \<Longrightarrow> mac_loop i ps mac =
     Ret (if \<forall>p \<in> set ps. \<not> isl (u8_from_hex p) then Inr (take i mac @ map (\<lambda>p. projr (u8_from_hex p)) ps)
          else Inl ParseIntError)"
proof (induction ps arbitrary: i mac)
  case (Cons p ps)
  consider (bad) "u8_from_hex p = Inl ParseIntError" | (good) b where "u8_from_hex p = Inr b"
    using u8_from_hex_cases by blast
  then show ?case
  proof cases
    case good
    have i: "i < length mac" using Cons.prems by simp
    then have "take (Suc i) (mac[i := b]) = take i mac @ [b]" by (simp add: take_Suc_conv_app_nth)
    then show ?thesis using good i Cons.IH [of "Suc i" "mac[i := b]"] Cons.prems by simp
  qed simp
qed simp

text \<open>Parsing all the parts, without the array.\<close>

lemma parse_mac_eq:
  "parse_mac s =
     (let ps = split_on (CHR '':'') s in
      Ret (if length ps \<noteq> 6 then Inl (StrError ''wrong len'')
           else if \<forall>p \<in> set ps. \<not> isl (u8_from_hex p) then Inr (map (\<lambda>p. projr (u8_from_hex p)) ps)
           else Inl ParseIntError))"
  using mac_loop_eq [of 0 "split_on (CHR '':'') s" "replicate 6 0"] by (simp add: parse_mac_def Let_def)

section \<open>Configurations\<close>

lemma build_config_eq:
  "build_umem_socket_config A opts =
     (let n = do_xdp_queue_size opts in
      if is_pow_of_two (n div 2) \<and> 2048 \<le> unat (XSK_UMEM__DEFAULT_FRAME_SIZE A) then
        Ret (\<lparr>frame_count = n, frame_size = XSK_UMEM__DEFAULT_FRAME_SIZE A, fill_queue_size = n div 2,
              comp_queue_size = n div 2, frame_headroom = XSK_UMEM__DEFAULT_FRAME_HEADROOM A,
              use_huge_pages = False\<rparr>,
             \<lparr>rx_queue_size = n div 2, tx_queue_size = n div 2, libbpf_flags = 0,
              xdp_flags = (case do_socket_option opts of SocketDrv \<Rightarrow> XDP_FLAGS_DRV_MODE | SocketSkb \<Rightarrow> XDP_FLAGS_SKB_MODE),
              bind_flags = (case do_bind_option opts of BindZeroCopy \<Rightarrow> XDP_ZEROCOPY | BindCopy \<Rightarrow> XDP_COPY)\<rparr>)
      else Panic Unwrap)"
proof -
  have "\<not> is_pow_of_two 0" by (simp add: is_pow_of_two_def)
  then show ?thesis
    by (simp add: build_umem_socket_config_def UmemConfigBuilder_build_def UmemConfigBuilder_setters
        UmemConfigBuilder_new_def UmemConfigBuilder_default_def UmemConfig_new_def frame_size_2048
        SocketConfigBuilder_build_def SocketConfigBuilder_setters SocketConfigBuilder_new_def
        SocketConfigBuilder_default_def SocketConfig_new_def Let_def not_less
        split: BindOption.splits SocketOption.splits)
qed

section \<open>Sharing the packets out\<close>

lemma split_pkts_eq:
  assumes "0 < n_queues"
  shows "split_pkts n j n_queues = Ret (filter (\<lambda>i. i mod n_queues = j) [0..<n])"
proof -
  have "split_filter j n_queues is = Ret (filter (\<lambda>i. i mod n_queues = j) is)" for "is"
    using assms by (induction "is") simp_all
  then show ?thesis by (simp add: split_pkts_def)
qed

lemma residues_partition:
  fixes q :: nat
  assumes "0 < q"
  shows "mset (concat (map (\<lambda>j. filter (\<lambda>i. i mod q = j) xs) [0..<q])) = mset xs"
proof (rule multiset_eqI)
  fix a
  have "mset (concat (map (\<lambda>j. filter (\<lambda>i. i mod q = j) xs) [0..<q])) =
      (\<Sum>j \<in> {0..<q}. filter_mset (\<lambda>i. i mod q = j) (mset xs))"
    by (simp add: mset_concat sum_list_sum_nth atLeast0LessThan)
  then have "Multiset.count (mset (concat (map (\<lambda>j. filter (\<lambda>i. i mod q = j) xs) [0..<q]))) a =
      (\<Sum>j \<in> {0..<q}. if a mod q = j then Multiset.count (mset xs) a else 0)"
    by (simp add: count_sum)
  also have "\<dots> = Multiset.count (mset xs) a" using assms by simp
  finally show "Multiset.count (mset (concat (map (\<lambda>j. filter (\<lambda>i. i mod q = j) xs) [0..<q]))) a =
      Multiset.count (mset xs) a" .
qed

lemma spawn_loop_jobs: "spawn_loop A opts xs = Ret jobs \<Longrightarrow> map (\<lambda>(i, q, _). (i, q)) jobs = xs"
proof (induction xs arbitrary: jobs)
  case (Cons x xs)
  then show ?case by (cases x) (auto simp: bindO_Ret_iff split: prod.splits)
qed simp

lemma spawn_jobs_indices:
  assumes "spawn_jobs A opts = Ret jobs"
  shows "map fst jobs = [0..<length (do_queues opts)]" "map (\<lambda>(i, q, _). q) jobs = do_queues opts"
proof -
  have eq: "map (\<lambda>(i, q, _). (i, q)) jobs = enumerate 0 (do_queues opts)"
    using assms by (auto simp: spawn_jobs_def dest: spawn_loop_jobs)
  show "map fst jobs = [0..<length (do_queues opts)]"
    using arg_cong [OF eq, of "map fst"] by (simp add: o_def case_prod_beta)
  show "map (\<lambda>(i, q, _). q) jobs = do_queues opts"
    using arg_cong [OF eq, of "map snd"] by (simp add: o_def case_prod_unfold)
qed

end
