(* ===== verification/Dev_Tx.thy ===== *)
theory Dev_Tx
  imports Dev_To_Dev Xsk_Tx_Retry
begin

text \<open>
  The sending side of \<^verbatim>\<open>src/examples/dev_to_dev.rs\<close>: \<open>tx_pkts\<close> sends every packet once
  and in order, each with its number, and drains the socket.
\<close>

section \<open>Definitions\<close>

text \<open>
  The frame at the cursor with the number written over its last eight bytes, and the packets the
  program sends: the template up to its payload, the number, and eight more bytes.
\<close>

definition stamp :: "crates \<Rightarrow> usize \<Rightarrow> u64 \<Rightarrow> u8 list \<Rightarrow> u8 list" where
  "stamp E len i region =
     (case le_write_u64 E (take 8 (drop (len - 8) region)) i of
        Ret num \<Rightarrow> take (len - 8) region @ num @ drop len region
      | _ \<Rightarrow> region)"

definition numbered :: "crates \<Rightarrow> u8 list \<Rightarrow> u64 \<Rightarrow> u8 list \<Rightarrow> bool" where
  "numbered E template i pkt \<longleftrightarrow>
     (\<exists>num trail. length num = 8 \<and> le_read_u64 E num = Ret i \<and> length trail = 8 \<and>
        pkt = take (length template - 8) template @ num @ trail)"

text \<open>One attempt to send packet number \<open>i\<close>, and when it can succeed.\<close>

fun tx_attempt ::
    "'k ffi \<Rightarrow> nat \<Rightarrow> crates \<times> usize \<times> u64 \<Rightarrow> XskTx \<Rightarrow> 'k world \<Rightarrow>
     ((XskSendError + unit) \<times> XskTx \<times> 'k world) outcome" where
  "tx_attempt F fuel (E, len, i) s w =
     bindO (send_apply F fuel s (tx_closure (overflow_checks F) E len i) () w) (\<lambda>(r, s1, _, w1). Ret (r, s1, w1))"

fun tx_fits :: "crates \<times> usize \<times> u64 \<Rightarrow> XskTx \<Rightarrow> bool" where
  "tx_fits (E, len, i) s \<longleftrightarrow> le_law E \<and> 8 \<le> len \<and> len + 8 \<le> unat (tx_frame_size s) \<and> i < 2 ^ 64"

definition tx_packet :: "MmapArea \<Rightarrow> crates \<times> usize \<times> u64 \<Rightarrow> XskTx \<Rightarrow> 'k world \<Rightarrow> u8 list" where
  "tx_packet m a s w = (case a of (E, len, i) \<Rightarrow> take (len + 8) (stamp E len i (cursor_region m s w)))"

definition tx_effect :: "MmapArea \<Rightarrow> crates \<times> usize \<times> u64 \<Rightarrow> XskTx \<Rightarrow> 'k world \<Rightarrow> 'k world \<Rightarrow> bool" where
  "tx_effect m a s w w' \<longleftrightarrow>
     (case a of (E, len, i) \<Rightarrow>
        \<forall>k < length (tx_frames s). frame_region m s k w' =
          (if k = tx_cursor s then stamp E len i (frame_region m s k w) else frame_region m s k w))"

section \<open>The closure\<close>

lemma stamp_eq:
  assumes "tx_fits (E, len, i) s" "length region = unat (tx_frame_size s)"
  shows "\<exists>num. le_write_u64 E (take 8 (drop (len - 8) region)) i = Ret num \<and> length num = 8 \<and>
    le_read_u64 E num = Ret i \<and> stamp E len i region = take (len - 8) region @ num @ drop len region"
proof -
  have "length (take 8 (drop (len - 8) region)) = 8" using assms by auto
  then obtain num where "le_write_u64 E (take 8 (drop (len - 8) region)) i = Ret num" "length num = 8"
      "le_read_u64 E num = Ret i"
    using assms(1) unfolding le_law_def tx_fits.simps by blast
  then show ?thesis by (simp add: stamp_def)
qed

lemma tx_closure_ok:
  assumes fit: "tx_fits (E, len, i) s" and region: "length region = unat (tx_frame_size s)"
  shows "\<exists>bytes. tx_closure chk E len i () region = Ret (len + 8, bytes, ()) \<and>
    (\<forall>n \<le> length region. map bytes [0..<n] = take n (stamp E len i region))"
proof -
  obtain num where num: "le_write_u64 E (take 8 (drop (len - 8) region)) i = Ret num" "length num = 8"
      "stamp E len i region = take (len - 8) region @ num @ drop len region"
    using stamp_eq [OF fit region] by blast
  have len: "8 \<le> len" "len + 8 \<le> length region" using fit region by simp_all
  have "len + 8 < 2 ^ 32"
    using len(2) as_usize_less [of "tx_frame_size s"] unfolding region as_usize_def by (rule order.strict_trans1)
  also have "(2 ^ 32 :: nat) < 2 ^ 64" by simp
  finally have big: "len + 8 < 2 ^ 64" .
  let ?bytes = "\<lambda>k. if len - 8 \<le> k \<and> k < len then num ! (k - (len - 8)) else region ! k"
  have "tx_closure chk E len i () region = Ret (len + 8, ?bytes, ())"
    using len big num(1) by (simp add: tx_closure_def)
  moreover have "map ?bytes [0..<n] = take n (stamp E len i region)" if "n \<le> length region" for n
    using len that num(2) unfolding num(3) by (intro nth_equalityI) (auto simp: nth_append)
  ultimately show ?thesis by blast
qed

lemma stamp_prefix:
  assumes "tx_fits (E, len, i) s" "length region = unat (tx_frame_size s)"
  shows "take (len - 8) (stamp E len i region) = take (len - 8) region"
  using stamp_eq [OF assms] assms by auto

lemma stamp_numbered:
  assumes "tx_fits (E, len, i) s" "length region = unat (tx_frame_size s)"
    and "len = length template" "take (len - 8) region = take (len - 8) template"
  shows "numbered E template i (take (len + 8) (stamp E len i region))"
proof -
  obtain num where num: "length num = 8" "le_read_u64 E num = Ret i"
      "stamp E len i region = take (len - 8) region @ num @ drop len region"
    using stamp_eq [OF assms(1,2)] by blast
  have "take (len + 8) (stamp E len i region) = take (len - 8) template @ num @ take 8 (drop len region)"
    using assms num(1) unfolding num(3) by auto
  moreover have "length (take 8 (drop len region)) = 8" using assms(1,2) by auto
  ultimately show ?thesis using num(1,2) assms(3) unfolding numbered_def by blast
qed

section \<open>Sending one packet\<close>

text \<open>Collecting completions leaves the frame at the cursor and what would be sent as they are.\<close>

lemma tx_attempt_waits:
  assumes ready: "tx_ready F T C m fuel s w" and wait: "waited m T s w s' w'" and fit: "tx_fits a s"
  shows "tx_fits a s' \<and> tx_packet m a s' w' = tx_packet m a s w \<and> (\<forall>w2. tx_effect m a s' w' w2 \<longrightarrow> tx_effect m a s w w2)"
proof -
  have c: "tx_cursor s < length (tx_frames s)" using ready by (simp add: tx_ready_def tx_inv_def)
  have same: "tx_frame_size s' = tx_frame_size s" "tx_cursor s' = tx_cursor s" "length (tx_frames s') = length (tx_frames s)"
    using wait by (simp_all add: waited_def tx_fixed_def)
  have region: "frame_region m s' = frame_region m s" by (intro ext) (simp add: frame_region_def same)
  note kept = waited_region [OF wait, unfolded region]
  show ?thesis using fit kept c by (cases a) (simp add: same tx_packet_def tx_effect_def region)
qed

lemma tx_attempt_accepted:
  assumes ready: "tx_ready F T C m fuel s w" and fit: "tx_fits (E, len, i) s" and free: "tx_cursor s \<notin> in_flight C s w"
  shows "\<exists>s' w'. tx_attempt F fuel (E, len, i) s w = Ret (Inr (), s', w') \<and> tx_effect m (E, len, i) s w w'"
proof -
  obtain bytes where b: "tx_closure (overflow_checks F) E len i () (cursor_region m s w) = Ret (len + 8, bytes, ())"
      "map bytes [0..<unat (tx_frame_size s)] = stamp E len i (cursor_region m s w)"
    using tx_closure_ok [OF fit, of "cursor_region m s w" "overflow_checks F"] stamp_eq [OF fit, of "cursor_region m s w"] fit by auto
  have "len + 8 \<le> unat (tx_frame_size s)" using fit by simp
  from send_apply_ready [OF ready free, of "tx_closure (overflow_checks F) E len i" "()", OF b(1) this]
  show ?thesis using b(2) by (auto simp: tx_effect_def)
qed

lemma tx_attempt_run:
  assumes run: "tx_run F fuel m T C s0 w0 s w acc handed" and counts: "tx_counts F T C s w" and fit: "tx_fits (E, len, i) s"
    and op: "tx_attempt F fuel (E, len, i) s w = Ret (r, s', w')"
  shows "tx_run F fuel m T C s0 w0 s' w' (acc @ (case r of Inl _ \<Rightarrow> [] | Inr _ \<Rightarrow> [tx_packet m (E, len, i) s w]))
    (handed @ new_packets m T w w')"
proof -
  have len: "len + 8 \<le> unat (tx_frame_size s)" using fit by simp
  obtain bytes where b: "tx_closure (overflow_checks F) E len i () (cursor_region m s w) = Ret (len + 8, bytes, ())"
      "map bytes [0..<len + 8] = take (len + 8) (stamp E len i (cursor_region m s w))"
    using tx_closure_ok [OF fit, of "cursor_region m s w" "overflow_checks F"] len by auto
  have "send_apply F fuel s (tx_closure (overflow_checks F) E len i) () w = Ret (r, s', (), w')"
    using op by (auto simp: bindO_Ret_iff split: prod.splits)
  from run_apply [where f = "tx_closure (overflow_checks F) E len i", OF run counts b(1) len this]
  show ?thesis using b(2) by (simp only: tx_packet_def prod.case)
qed

lemma tx_until_attempt:
  "tx_until F E fuel (Suc n) len i s w =
     bindO (tx_attempt F fuel (E, len, i) s w)
       (\<lambda>(r, s1, w1). case r of Inl _ \<Rightarrow> tx_until F E fuel n len i s1 w1 | Inr _ \<Rightarrow> Ret (s1, w1))"
  by (cases "send_apply F fuel s (tx_closure (overflow_checks F) E len i) () w") (auto split: prod.splits)

interpretation tx_retry: retried tx_attempt "\<lambda>F fuel n (E, len, i) s w. tx_until F E fuel n len i s w"
  "\<lambda>F m a s w. tx_fits a s" "\<lambda>F. tx_packet" "\<lambda>F. tx_effect"
proof (unfold_locales, goal_cases)
  case (1 F fuel n a s w)
  show ?case using tx_until_attempt by (cases a) (simp only: prod.case)
next
  case (2 F s w k s1 w1 fuel a)
  then show ?case by (cases a) (simp add: send_apply_blocked)
next
  case 3
  then show ?case by (rule tx_attempt_waits)
next
  case (4 F T C m fuel s w a)
  then show ?case using tx_attempt_accepted by (cases a) blast
next
  case (5 F fuel m T C s0 w0 s w acc handed a r s' w')
  then show ?case using tx_attempt_run by (cases a) blast
qed

section \<open>Sending all packets\<close>

text \<open>Every frame starts with the template, up to its payload.\<close>

definition templated :: "MmapArea \<Rightarrow> u8 list \<Rightarrow> XskTx \<Rightarrow> 'k world \<Rightarrow> bool" where
  "templated m template s w \<longleftrightarrow>
     (\<forall>k < length (tx_frames s).
        take (length template - 8) (frame_region m s k w) = take (length template - 8) template)"

lemma fixed_region: "tx_fixed s s' \<Longrightarrow> frame_region m s' k w = frame_region m s k w"
  by (simp add: frame_region_def tx_fixed_def)

lemma templated_effect:
  assumes "templated m template s w" "tx_effect m (E, length template, i) s w w'" "tx_fits (E, length template, i) s"
    and "tx_fixed s s'"
  shows "templated m template s' w'"
proof -
  have "take (length template - 8) (frame_region m s k w') = take (length template - 8) template"
    if "k < length (tx_frames s)" for k
  proof -
    have "take (length template - 8) (frame_region m s k w) = take (length template - 8) template"
      using assms(1) that by (simp add: templated_def)
    moreover have "take (length template - 8) (stamp E (length template) i (frame_region m s k w)) =
        take (length template - 8) (frame_region m s k w)"
      by (rule stamp_prefix [OF assms(3)]) simp
    ultimately show ?thesis using assms(2) that by (cases "k = tx_cursor s") (simp_all add: tx_effect_def)
  qed
  moreover have "length (tx_frames s') = length (tx_frames s)" using assms(4) by (simp add: tx_fixed_def)
  ultimately show ?thesis using fixed_region [OF assms(4), of m _ w'] by (simp add: templated_def)
qed

lemma tx_loop_sends:
  assumes ready0: "tx_ready F T C m fuel s0 w0"
  shows "tx_run F fuel m T C s0 w0 s w acc handed \<Longrightarrow> templated m template s w \<Longrightarrow> tx_room F s (length pkts) \<Longrightarrow>
    comp_progress F T C (comp_q s) (length (tx_frames s)) turns \<Longrightarrow>
    \<forall>i \<in> set pkts. tx_fits (E, length template, i) s \<Longrightarrow>
    \<exists>s' w' acc' handed'. tx_loop F E fuel turns (length template) pkts s w = Ret (s', w') \<and>
      tx_run F fuel m T C s0 w0 s' w' (acc @ acc') handed' \<and> list_all2 (numbered E template) pkts acc' \<and>
      tx_room F s' 0"
proof (induction pkts arbitrary: s w acc handed)
  case Nil
  then show ?case by auto
next
  case (Cons i pkts)
  let ?a = "(E, length template, i)"
  have R0: "tx_platform F (tx_q s0) (comp_q s0) T C (tx_bytes m s0)" "tx_progress F (tx_q s0) T (batch_size s0) fuel"
      "tx_inv m s0" "tx_linked T C s0 w0" using ready0 by (simp_all add: tx_ready_def)
  note inv = tx_run_inv [OF _ R0]
  have s: "tx_inv m s" "tx_linked T C s w" "tx_fixed s0 s" "tx_accepted s = tx_accepted s0 + length acc"
    using inv [OF Cons.prems(1)] by blast+
  have ready: "tx_ready F T C m fuel s w"
    using ready_moved [OF ready0 s(3,1,2)] tx_room_counts(1) [OF s(1,2) Cons.prems(3)] by blast
  have fit: "tx_fits ?a s" using Cons.prems(5) by simp
  obtain j where "j < turns" "settled C ((drain_turn F ^^ j) (s, w))"
    using Cons.prems(4) s(2) unfolding comp_progress_def by blast
  from tx_retry.loop_returns [OF ready fit this Cons.prems(1)]
  obtain s1 w1 handed1 where one: "tx_until F E fuel turns (length template) i s w = Ret (s1, w1)"
      "tx_effect m ?a s w w1" "tx_run F fuel m T C s0 w0 s1 w1 (acc @ [tx_packet m ?a s w]) handed1" by auto
  have s1: "tx_fixed s0 s1" "tx_accepted s1 = Suc (tx_accepted s)" using inv [OF one(3)] s(4) by auto
  then have fixed: "tx_fixed s s1" using s(3) by (simp add: tx_fixed_def)
  have "tx_room F s1 (length pkts)"
    using Cons.prems(3) s1(2) fixed by (simp add: tx_room_def tx_fixed_def)
  moreover have "comp_progress F T C (comp_q s1) (length (tx_frames s1)) turns" "\<forall>i \<in> set pkts. tx_fits (E, length template, i) s1"
    using Cons.prems(4,5) fixed by (simp_all add: tx_fixed_def)
  ultimately obtain s' w' acc' handed' where rest: "tx_loop F E fuel turns (length template) pkts s1 w1 = Ret (s', w')"
      "tx_run F fuel m T C s0 w0 s' w' ((acc @ [tx_packet m ?a s w]) @ acc') handed'"
      "list_all2 (numbered E template) pkts acc'" "tx_room F s' 0"
    using Cons.IH [OF one(3) templated_effect [OF Cons.prems(2) one(2) fit fixed]] by blast
  have "tx_cursor s < length (tx_frames s)" using s(1) by (simp add: tx_inv_def)
  then have "numbered E template i (tx_packet m ?a s w)"
    unfolding tx_packet_def prod.case
    using Cons.prems(2) by (intro stamp_numbered [OF fit]) (simp_all add: templated_def)
  then show ?case using one(1) rest by auto
qed

lemma generate_pkt_ok:
  assumes "udp_law E" "udp_bytes E b payload = Inr template" "length template \<le> length pkt"
  shows "generate_pkt E pkt payload b = Ret (length template, template @ drop (length template) pkt)"
  using assms by (simp add: generate_pkt_def udp_law_def write_slice_def)

lemma tx_pkts_run:
  assumes ready: "tx_ready F T C m (Suc fuel) (x2_tx xsk) w" and idle: "cur_batch_size (x2_tx xsk) = 0"
    and prog: "comp_progress F T C (comp_q (x2_tx xsk)) (length (tx_frames (x2_tx xsk))) fuel" "fuel \<le> turns"
    and room: "tx_room F (x2_tx xsk) (length pkts)"
    and laws: "udp_law E" "le_law E" "udp_bytes E (udp_builder filt) (replicate 8 0) = Inr template"
    and fits: "length template \<le> MAX_PACKET_SIZE" "length template + 8 \<le> unat (tx_frame_size (x2_tx xsk))"
      "\<And>k. k < length (tx_frames (x2_tx xsk)) \<Longrightarrow> length template \<le> frame_mtu (tx_frames (x2_tx xsk) ! k)"
      "\<forall>i \<in> set pkts. i < 2 ^ 64"
  shows "\<exists>s1 w1 s2 w2 s3 w3 acc handed. prefill (x2_tx xsk) template w = Ret (s1, w1) \<and>
    tx_loop F E (Suc fuel) turns (length template) pkts s1 w1 = Ret (s2, w2) \<and>
    tx_run F (Suc fuel) m T C s1 w1 s2 w2 acc handed \<and> drain F (Suc fuel) s2 w2 = Ret (s3, w3) \<and>
    tx_pkts F E (Suc fuel) turns xsk filt pkts w = Ret (XskTx_stats F s3 w3, xsk\<lparr>x2_tx := s3\<rparr>, w3) \<and>
    list_all2 (numbered E template) pkts acc \<and> handed @ new_packets m T w2 w3 = acc \<and>
    onq (tx_frames s3) = {} \<and> outstanding_tx_frames s3 = 0 \<and>
    pkts_tx (tx_stats s3) = pkts_tx (tx_stats (x2_tx xsk)) + length pkts \<and>
    pkts_tx_completed (tx_stats s3) = pkts_tx (tx_stats s3)"
proof -
  let ?s = "x2_tx xsk"
  have "length (replicate 8 (0 :: u8)) \<le> length template" using laws(1,3) unfolding udp_law_def by blast
  then have t8: "8 \<le> length template" by simp
  obtain s1 w1 where pre: "prefill ?s template w = Ret (s1, w1)" "tx_ready F T C m (Suc fuel) s1 w1" "tx_fixed ?s s1"
      "cur_batch_size s1 = 0" "tx_stats s1 = tx_stats ?s"
      "\<forall>k < length (tx_frames ?s). take (length template) (frame_region m s1 k w1) = template"
    using prefill_ready [OF ready fits(3)] idle by auto
  have R1: "tx_platform F (tx_q s1) (comp_q s1) T C (tx_bytes m s1)" "tx_progress F (tx_q s1) T (batch_size s1) (Suc fuel)"
      "tx_inv m s1" "tx_linked T C s1 w1" using pre(2) by (simp_all add: tx_ready_def)
  have same: "comp_q s1 = comp_q ?s" "length (tx_frames s1) = length (tx_frames ?s)" "tx_frame_size s1 = tx_frame_size ?s"
      "batch_size s1 = batch_size ?s" using pre(3) by (simp_all add: tx_fixed_def)
  have "templated m template s1 w1"
    unfolding templated_def using pre(6) same(2) by (metis diff_le_self min.absorb1 take_take)
  moreover have "tx_room F s1 (length pkts)" using room pre(4,5) idle same(4) by (simp add: tx_room_def tx_accepted_def)
  moreover have "comp_progress F T C (comp_q s1) (length (tx_frames s1)) turns"
    using comp_progress_mono [OF prog] same(1,2) by simp
  moreover have "\<forall>i \<in> set pkts. tx_fits (E, length template, i) s1" using laws(2) t8 fits(2,4) same(3) by simp
  ultimately obtain s2 w2 acc handed where loop: "tx_loop F E (Suc fuel) turns (length template) pkts s1 w1 = Ret (s2, w2)"
      "tx_run F (Suc fuel) m T C s1 w1 s2 w2 acc handed" "list_all2 (numbered E template) pkts acc" "tx_room F s2 0"
    using tx_loop_sends [OF pre(2) run_start] by (metis append_Nil)
  have s2: "tx_inv m s2" "tx_linked T C s2 w2" "tx_fixed s1 s2" "tx_accepted s2 = tx_accepted s1 + length acc"
      "batch_data s1 w1 @ acc = handed @ batch_data s2 w2"
    using tx_run_inv [OF loop(2) R1] by blast+
  have b1: "batch_data s1 w1 = []" using batch_data_length [OF R1(3)] pre(4) by simp
  have plat2: "tx_platform F (tx_q s2) (comp_q s2) T C (tx_bytes m s2)" "tx_progress F (tx_q s2) T (batch_size s2) (Suc fuel)"
      "comp_progress F T C (comp_q s2) (length (tx_frames s2)) fuel"
    using R1(1,2) prog(1) s2(3) same(1,2) tx_fixed_bytes [OF s2(3), of m] by (simp_all add: tx_fixed_def)
  obtain s3 w3 where dr: "drain F (Suc fuel) s2 w2 = Ret (s3, w3)" "tx_core m s3" "tx_linked T C s3 w3"
      "onq (tx_frames s3) = {}" "cur_batch_size s3 = 0" "new_packets m T w2 w3 = batch_data s2 w2"
      "tx_accepted s3 = tx_accepted s2"
    using drain_core [OF plat2(1) s2(1,2) tx_room_counts(2) [OF s2(1,2) loop(4)] plat2(2,3)] by blast
  have out: "outstanding_tx_frames s3 = 0" using dr(2,4) by (simp add: tx_core_def)
  have "length acc = length pkts" using loop(3) by (simp add: list_all2_lengthD)
  then have "pkts_tx (tx_stats s3) = pkts_tx (tx_stats ?s) + length pkts"
    using dr(5,7) s2(4) pre(4,5) by (simp add: tx_accepted_def)
  moreover have "pkts_tx_completed (tx_stats s3) = pkts_tx (tx_stats s3)"
    using linked_lengths(2) [OF dr(2,3)] out by simp
  moreover have "tx_pkts F E (Suc fuel) turns xsk filt pkts w = Ret (XskTx_stats F s3 w3, xsk\<lparr>x2_tx := s3\<rparr>, w3)"
    using generate_pkt_ok [OF laws(1,3), of "replicate MAX_PACKET_SIZE 0"] fits(1) pre(1) loop(1) dr(1)
    by (simp add: tx_pkts_def)
  moreover have "handed @ new_packets m T w2 w3 = acc" using s2(5) b1 dr(6) by simp
  ultimately show ?thesis using pre(1) loop(1-3) dr(1,4) out by blast
qed

end
