(* ===== verification/Dev_Rx.thy ===== *)
theory Dev_Rx
  imports Dev_To_Dev Xsk_Run
begin

text \<open>
  The receiving side of \<^verbatim>\<open>src/examples/dev_to_dev.rs\<close>: what the closure of \<open>rx_pkts\<close>
  records over a sequence of packets, how the missing packets are counted, and when the loop ends.
\<close>

section \<open>Definitions\<close>

text \<open>The packet, if it parses and matches the filter; the numbers a sequence of packets carries.\<close>

definition matching :: "crates \<Rightarrow> DevFilter \<Rightarrow> u8 list \<Rightarrow> SlicedPacket option" where
  "matching E filt pkt =
     (case from_ethernet E pkt of
        Inl _ \<Rightarrow> None
      | Inr p \<Rightarrow> if filter_pkt p filt then Some p else None)"

inductive carries :: "crates \<Rightarrow> DevFilter \<Rightarrow> u8 list list \<Rightarrow> u64 list \<Rightarrow> bool" for E filt where
  carries_Nil: "carries E filt [] []"
| carries_skip: "matching E filt pkt = None \<Longrightarrow> carries E filt pkts ns \<Longrightarrow> carries E filt (pkt # pkts) ns"
| carries_num:
    "matching E filt pkt = Some p \<Longrightarrow> 8 \<le> length (sp_payload p) \<Longrightarrow> le_read_u64 E (take 8 (sp_payload p)) = Ret n \<Longrightarrow>
     carries E filt pkts ns \<Longrightarrow> carries E filt (pkt # pkts) (n # ns)"

section \<open>The closure\<close>

lemma rx_closure_skip: "matching E filt pkt = None \<Longrightarrow> rx_closure chk E filt c pkt = Ret c"
  by (auto simp: matching_def rx_closure_def split: sum.splits if_splits)

lemma rx_closure_num:
  assumes "matching E filt pkt = Some p" "8 \<le> length (sp_payload p)" "le_read_u64 E (take 8 (sp_payload p)) = Ret n"
    and "k + 1 < 2 ^ 64"
  shows "rx_closure chk E filt (nums, k) pkt = (if n < length nums then Ret (nums[n := True], k + 1) else Panic OutOfRange)"
  using assms by (auto simp: matching_def rx_closure_def setO_def split: sum.splits if_splits)

text \<open>The record after a sequence of packets, or the panic on a number that is out of range.\<close>

lemma rx_fold:
  assumes "carries E filt pkts ns"
  shows "k + length ns < 2 ^ 64 \<Longrightarrow> foldO (rx_closure chk E filt) (nums, k) pkts =
    (if \<forall>n \<in> set ns. n < length nums
     then Ret (map (\<lambda>j. nums ! j \<or> j \<in> set ns) [0..<length nums], k + length ns) else Panic OutOfRange)"
  using assms
proof (induction arbitrary: nums k)
  case carries_Nil
  then show ?case by (simp add: map_nth)
next
  case (carries_skip pkt pkts ns)
  then show ?case by (simp add: rx_closure_skip)
next
  case (carries_num pkt p n pkts ns)
  have step: "rx_closure chk E filt (nums, k) pkt = (if n < length nums then Ret (nums[n := True], k + 1) else Panic OutOfRange)"
    using rx_closure_num [OF carries_num.hyps(1-3)] carries_num.prems by simp
  show ?case
  proof (cases "n < length nums")
    case True
    have "map (\<lambda>j. nums[n := True] ! j \<or> j \<in> set ns) [0..<length nums] = map (\<lambda>j. nums ! j \<or> j \<in> set (n # ns)) [0..<length nums]"
      using True by (intro map_cong) (auto simp: nth_list_update)
    then show ?thesis using True step carries_num.IH [of "k + 1" "nums[n := True]"] carries_num.prems by simp
  next
    case False
    then show ?thesis using step by simp
  qed
qed

section \<open>Counting the missing packets\<close>

lemma count_missing_ok:
  "0 \<le> n \<Longrightarrow> n + int (length xs) < 2 ^ 31 \<Longrightarrow> count_missing chk xs n = Ret (n + int (length (filter Not xs)))"
proof (induction xs arbitrary: n)
  case (Cons x xs)
  then show ?case by (cases x) (simp_all add: add_i32_def)
qed simp

lemma missing_numbers:
  assumes "set ns \<subseteq> {..<n}"
  shows "length (filter Not (map (\<lambda>j. j \<in> set ns) [0..<n])) = n - card (set ns)"
proof -
  have "length (filter Not (map (\<lambda>j. j \<in> set ns) [0..<n])) = card ({..<n} - set ns)"
    by (simp add: filter_map o_def distinct_length_filter) (rule arg_cong [of _ _ card], auto)
  then show ?thesis using assms by (simp add: card_Diff_subset)
qed

section \<open>The loop\<close>

text \<open>
  Past its goal, the loop turns until its timeout as long as no further packet comes in.
\<close>

lemma rx_loop_past:
  assumes Q: "keeps (pv_ok P) Q (poll_ops F)" "\<And>v. Q v \<Longrightarrow> cv_pend R v = []" and past: "n_pkts < snd c"
  shows "rx_ready F P R m base fuel s w \<Longrightarrow> keeps (pv_ok P) Q (rx_ops F (rx_q s)) \<Longrightarrow> Q w \<Longrightarrow>
    overflow_checks F \<longrightarrow> - (2 ^ 31) \<le> i \<and> i + int turns < 2 ^ 31 \<Longrightarrow>
    rx_pkts_loop F E fuel filt n_pkts start timeout turns i c s w = Spin \<or>
    (\<exists>s' w'. rx_pkts_loop F E fuel filt n_pkts start timeout turns i c s w = Ret (fst c, s', w') \<and>
       timeout < instant_now F w' - start)"
proof (induction turns arbitrary: i s w)
  case 0
  then show ?case by simp
next
  case (Suc turns)
  obtain j where j: "add_i32 (overflow_checks F) i 1 = Ret j"
      "overflow_checks F \<longrightarrow> - (2 ^ 31) \<le> j \<and> j + int turns < 2 ^ 31"
    using Suc.prems(4) by (cases "- (2 ^ 31) \<le> i + 1 \<and> i + 1 < 2 ^ 31") (auto simp: add_i32_def)
  obtain s1 w1 where turn: "recv_apply F fuel s (rx_closure (overflow_checks F) E filt) c w = Ret (c, s1, w1)"
      "rx_ready F P R m base fuel s1 w1" "rx_ops F (rx_q s1) = rx_ops F (rx_q s)" "Q w1"
    by (rule recv_apply_idle [where Q = Q, OF Suc.prems(1,2) Q(1) Suc.prems(3) Q(2)])
  show ?case
    using Suc.IH [OF turn(2) Suc.prems(2) [folded turn(3)] turn(4) j(2)] past j(1) turn(1) by simp
qed

end
