(* ===== verification/Example_Crates.thy ===== *)
theory Example_Crates
  imports Ether_Lib
begin

text \<open>
  A concrete instance of the third-party crates, on which the properties of the example programs are
  applied: a packet format that keeps the fields one after the other, and little-endian numbers.
\<close>

section \<open>Definitions\<close>

fun le_bytes :: "nat \<Rightarrow> nat \<Rightarrow> u8 list" where
  "le_bytes 0 n = []"
| "le_bytes (Suc k) n = word_of_nat n # le_bytes k (n div 256)"

fun le_value :: "u8 list \<Rightarrow> nat" where
  "le_value [] = 0"
| "le_value (b # bs) = unat b + 256 * le_value bs"

definition field :: "nat \<Rightarrow> nat \<Rightarrow> u8 list \<Rightarrow> u8 list" where
  "field a n bs = take n (drop a bs)"

definition plain_tcp :: "TcpBuilder \<Rightarrow> u8 list \<Rightarrow> u8 list" where
  "plain_tcp b payload =
     6 # pb_src_mac (tb_ip b) @ pb_dest_mac (tb_ip b) @ pb_src_ip (tb_ip b) @ pb_dest_ip (tb_ip b) @
     le_bytes 2 (unat (tb_src_port b)) @ le_bytes 2 (unat (tb_dest_port b)) @
     le_bytes 4 (unat (tb_seq b)) @ le_bytes 2 (unat (tb_window b)) @ payload"

definition plain_parse_tcp :: "u8 list \<Rightarrow> SlicedPacket" where
  "plain_parse_tcp bs =
     \<lparr>sp_link = Some (Ethernet2 \<lparr>eth_source = field 1 6 bs, eth_destination = field 7 6 bs\<rparr>),
      sp_ip = Some (Ipv4 \<lparr>ipv4_source = field 13 4 bs, ipv4_destination = field 17 4 bs\<rparr>),
      sp_transport = Some (Tcp \<lparr>tcp_source_port = word_of_nat (le_value (field 21 2 bs)),
        tcp_destination_port = word_of_nat (le_value (field 23 2 bs)),
        tcp_sequence_number = word_of_nat (le_value (field 25 4 bs)),
        tcp_window_size = word_of_nat (le_value (field 29 2 bs))\<rparr>),
      sp_payload = drop 31 bs\<rparr>"

definition plain_udp :: "UdpBuilder \<Rightarrow> u8 list \<Rightarrow> u8 list" where
  "plain_udp b payload =
     17 # pb_src_ip (up_ip b) @ pb_dest_ip (up_ip b) @ le_bytes 2 (unat (up_src_port b)) @
     le_bytes 2 (unat (up_dest_port b)) @ payload"

definition plain_parse_udp :: "u8 list \<Rightarrow> SlicedPacket" where
  "plain_parse_udp bs =
     \<lparr>sp_link = None,
      sp_ip = Some (Ipv4 \<lparr>ipv4_source = field 1 4 bs, ipv4_destination = field 5 4 bs\<rparr>),
      sp_transport = Some (Udp \<lparr>udp_source_port = word_of_nat (le_value (field 9 2 bs)),
        udp_destination_port = word_of_nat (le_value (field 11 2 bs))\<rparr>),
      sp_payload = drop 13 bs\<rparr>"

definition plain_crates :: crates where
  "plain_crates =
     \<lparr>from_ethernet = (\<lambda>bs. case bs of
          [] \<Rightarrow> Inl ''short''
        | b # _ \<Rightarrow> if b = 6 then Inr (plain_parse_tcp bs) else Inr (plain_parse_udp bs)),
      tcp_bytes = (\<lambda>b p. Inr (plain_tcp b p)),
      udp_size = (\<lambda>b n. 5 + length (pb_src_ip (up_ip b)) + length (pb_dest_ip (up_ip b)) + n),
      udp_bytes = (\<lambda>b p. Inr (plain_udp b p)),
      le_write_u64 = (\<lambda>buf n. if 8 \<le> length buf then Ret (le_bytes 8 n @ drop 8 buf) else Panic OutOfRange),
      le_read_u64 = (\<lambda>buf. if 8 \<le> length buf then Ret (le_value (take 8 buf)) else Panic OutOfRange),
      set_handler = Inr (), running = (\<lambda>i. i < 10)\<rparr>"

section \<open>It obeys the laws\<close>

lemma length_le_bytes [simp]: "length (le_bytes k n) = k"
  by (induction k n rule: le_bytes.induct) simp_all

lemma le_value_bytes: "n < 256 ^ k \<Longrightarrow> le_value (le_bytes k n) = n"
proof (induction k n rule: le_bytes.induct)
  case (2 k n)
  then have "n div 256 < 256 ^ k" by (simp add: less_mult_imp_div_less mult.commute)
  then show ?case using 2 by (simp add: unat_of_nat take_bit_eq_mod)
qed simp

lemma plain_le_law: "le_law plain_crates"
  using le_value_bytes [of _ 8] by (simp add: le_law_def plain_crates_def)

lemma plain_udp_law: "udp_law plain_crates"
  by (simp add: udp_law_def plain_crates_def plain_udp_def drop_Cons')

lemma plain_tcp_law: "tcp_law plain_crates"
proof -
  have "le_value (le_bytes 2 (unat p)) = unat p" for p :: u16
    using unsigned_less [of p, where ?'a = nat] by (intro le_value_bytes) simp
  moreover have "le_value (le_bytes 4 (unat n)) = unat n" for n :: u32
    using unsigned_less [of n, where ?'a = nat] by (intro le_value_bytes) simp
  ultimately show ?thesis
    by (auto simp: tcp_law_def plain_crates_def plain_tcp_def plain_parse_tcp_def built_packet_def field_def)
qed

end
