(* ===== verification/Example_Props.thy ===== *)
theory Example_Props
  imports Synacker Dev_Tx Dev_Rx Example_Crates Loopback_States
begin

text \<open>
  The properties of the two example programs (\<^verbatim>\<open>src/examples\<close>), each with a concrete
  instance on the reference platform and the reference crates.
\<close>

section \<open>Definitions\<close>

definition lb_filter :: DevFilter where
  "lb_filter = \<lparr>df_src_mac = [2, 0, 0, 0, 0, 1], df_dest_mac = [2, 0, 0, 0, 0, 2], df_src_ip = [10, 0, 0, 1],
     df_src_port = 1000, df_dest_ip = [10, 0, 0, 2], df_dest_port = 2000\<rparr>"

definition lb_opts :: DevOpts where
  "lb_opts = \<lparr>do_dev = ''veth0'', do_src_mac = ''02:00:00:00:00:01'', do_dest_mac = ''02:00:00:00:00:02'',
     do_src_ip = ''10.0.0.1'', do_src_port = 1000, do_dest_ip = ''10.0.0.2'', do_dest_port = 2000, do_verbose = 0,
     do_mode = ModeTx, do_n_pkts = 5, do_queues = [0, 1], do_bind_option = BindCopy, do_socket_option = SocketSkb,
     do_timeout_sec = None, do_xdp_queue_size = 8, do_batch_size = 1\<rparr>"

text \<open>A TCP packet from 10.0.0.1:80 to 10.0.0.2:90 with sequence number 7.\<close>

definition lb_syn :: SlicedPacket where
  "lb_syn = \<lparr>sp_link = Some (Ethernet2 \<lparr>eth_source = [2, 0, 0, 0, 0, 1], eth_destination = [2, 0, 0, 0, 0, 2]\<rparr>),
     sp_ip = Some (Ipv4 \<lparr>ipv4_source = [10, 0, 0, 1], ipv4_destination = [10, 0, 0, 2]\<rparr>),
     sp_transport = Some (Tcp \<lparr>tcp_source_port = 80, tcp_destination_port = 90, tcp_sequence_number = 7,
       tcp_window_size = 1024\<rparr>),
     sp_payload = []\<rparr>"

section \<open>Sending with dev-to-dev\<close>

text \<open>
  C16: \<open>tx_pkts\<close> returns, and it sends every packet it was given exactly once and in order: on a
  fresh socket whose kernel makes progress, the packets that its loop and the drain after it hand over
  are, one for one, the template up to its payload followed by the packet's number and by eight more
  bytes of the frame; when it returns the kernel has completed them all and the statistics count
  exactly these packets. (The eight bytes after the number are the \<open>len_pkt + 8\<close> of the closure.)
\<close>

theorem tx_pkts_sends_all:
  assumes "tx_ready F T C m (Suc fuel) (x2_tx xsk) w" "cur_batch_size (x2_tx xsk) = 0"
    and "comp_progress F T C (comp_q (x2_tx xsk)) (length (tx_frames (x2_tx xsk))) fuel" "fuel \<le> turns"
    and "tx_room F (x2_tx xsk) (length pkts)"
    and "udp_law E" "le_law E" "udp_bytes E (udp_builder filt) (replicate 8 0) = Inr template"
    and "length template \<le> MAX_PACKET_SIZE" "length template + 8 \<le> unat (tx_frame_size (x2_tx xsk))"
    and "\<forall>f \<in> set (tx_frames (x2_tx xsk)). length template \<le> frame_mtu f" "\<forall>i \<in> set pkts. i < 2 ^ 64"
  shows "\<exists>s1 w1 s2 w2 s3 w3 acc handed. prefill (x2_tx xsk) template w = Ret (s1, w1) \<and>
    tx_loop F E (Suc fuel) turns (length template) pkts s1 w1 = Ret (s2, w2) \<and>
    tx_run F (Suc fuel) m T C s1 w1 s2 w2 acc handed \<and> drain F (Suc fuel) s2 w2 = Ret (s3, w3) \<and>
    tx_pkts F E (Suc fuel) turns xsk filt pkts w = Ret (XskTx_stats F s3 w3, xsk\<lparr>x2_tx := s3\<rparr>, w3) \<and>
    list_all2 (numbered E template) pkts acc \<and> handed @ new_packets m T w2 w3 = acc \<and>
    onq (tx_frames s3) = {} \<and> outstanding_tx_frames s3 = 0 \<and>
    pkts_tx (tx_stats s3) = pkts_tx (tx_stats (x2_tx xsk)) + length pkts \<and>
    pkts_tx_completed (tx_stats s3) = pkts_tx (tx_stats s3)"
  using tx_pkts_run [OF assms(1-10) _ assms(12)] assms(11) by (simp del: drain.simps tx_loop.simps)

theorem tx_pkts_sends_all_witness:
  "\<exists>st xsk w. tx_pkts (loopback True) plain_crates 2 1 (lb_xsk 2) lb_filter [0, 2, 4] (lb_world True) = Ret (st, xsk, w) \<and>
     pkts_tx (tx_stats (x2_tx xsk)) = 3 \<and> outstanding_tx_frames (x2_tx xsk) = 0"
proof -
  let ?t = "plain_udp (udp_builder lb_filter) (replicate 8 0)"
  have ready: "tx_ready (loopback True) (lb_T True) (lb_C True) lb_area (Suc 1) (x2_tx (lb_xsk 2)) (lb_world True)"
    using lb_tx_ready [of 2 "Suc 1" True] by (simp add: lb_xsk_def)
  have idle: "cur_batch_size (x2_tx (lb_xsk 2)) = 0" by (simp add: lb_xsk_def)
  have prog: "comp_progress (loopback True) (lb_T True) (lb_C True) (comp_q (x2_tx (lb_xsk 2)))
      (length (tx_frames (x2_tx (lb_xsk 2)))) 1"
    using lb_comp_progress [of 2 1] by (simp add: lb_cap_def numeral_2_eq_2 lb_xsk_def)
  have room: "tx_room (loopback True) (x2_tx (lb_xsk 2)) (length [0, 2, 4])"
    by (simp add: tx_room_def tx_accepted_def idx_room_def lb_xsk_def)
  have len: "length ?t = 21" by (simp add: plain_udp_def udp_builder_def lb_filter_def)
  have sizes: "length ?t \<le> MAX_PACKET_SIZE" "length ?t + 8 \<le> unat (tx_frame_size (x2_tx (lb_xsk 2)))"
      "\<forall>f \<in> set (tx_frames (x2_tx (lb_xsk 2))). length ?t \<le> frame_mtu f"
    unfolding len by (simp_all add: MAX_PACKET_SIZE_def lb_xsk_def)
  have "udp_bytes plain_crates (udp_builder lb_filter) (replicate 8 0) = Inr ?t" by (simp add: plain_crates_def)
  from tx_pkts_sends_all [OF ready idle prog le_refl room plain_udp_law plain_le_law this sizes]
  obtain s3 w3 where "tx_pkts (loopback True) plain_crates (Suc 1) 1 (lb_xsk 2) lb_filter [0, 2, 4] (lb_world True) =
      Ret (XskTx_stats (loopback True) s3 w3, (lb_xsk 2)\<lparr>x2_tx := s3\<rparr>, w3)" "outstanding_tx_frames s3 = 0"
      "pkts_tx (tx_stats s3) = pkts_tx (tx_stats (x2_tx (lb_xsk 2))) + length [0 :: nat, 2, 4]" by (auto simp del: drain.simps tx_loop.simps)
  then show ?thesis by (simp add: numeral_2_eq_2 lb_xsk_def)
qed

text \<open>
  The threads share the packets out without gap or overlap: over the threads that are started,
  the numbers each one sends together are the numbers below \<open>n_pkts\<close>, each exactly once, and
  each thread sends its own in increasing order.
\<close>

theorem spawned_queues_partition:
  assumes "spawn_jobs A opts = Ret jobs" "do_queues opts \<noteq> []"
  shows "\<exists>parts. map (\<lambda>(i, _). split_pkts (do_n_pkts opts) i (length (do_queues opts))) jobs = map Ret parts \<and>
    mset (concat parts) = mset [0..<do_n_pkts opts] \<and> (\<forall>p \<in> set parts. sorted_wrt (<) p)"
proof -
  let ?q = "length (do_queues opts)" and ?n = "do_n_pkts opts"
  let ?parts = "map (\<lambda>j. filter (\<lambda>i. i mod ?q = j) [0..<?n]) [0..<?q]"
  have "map (\<lambda>(i, _). split_pkts ?n i ?q) jobs = map (\<lambda>i. split_pkts ?n i ?q) (map fst jobs)" by auto
  also have "\<dots> = map Ret ?parts"
    using spawn_jobs_indices(1) [OF assms(1)] assms(2) by (simp add: split_pkts_eq)
  finally show ?thesis
    using residues_partition [of ?q "[0..<?n]"] assms(2) by (intro exI [of _ ?parts]) (auto simp: sorted_wrt_filter)
qed

theorem spawned_queues_partition_witness:
  "\<exists>jobs parts. spawn_jobs lb_abi lb_opts = Ret jobs \<and>
     map (\<lambda>(i, _). split_pkts 5 i 2) jobs = map Ret parts \<and> mset (concat parts) = {#0, 1, 2, 3, 4#}"
proof -
  have "is_pow_of_two (8 div 2)" by (simp add: is_pow_of_two_def)
  then obtain jobs where jobs: "spawn_jobs lb_abi lb_opts = Ret jobs"
    by (simp add: spawn_jobs_def lb_opts_def build_config_eq lb_abi_def Let_def)
  moreover have "do_queues lb_opts \<noteq> []" "do_n_pkts lb_opts = 5" "length (do_queues lb_opts) = 2"
    by (simp_all add: lb_opts_def)
  moreover have "mset [0..<5] = {#0, 1, 2, 3, 4 :: nat#}" by (simp add: upt_rec numeral_eq_Suc)
  ultimately show ?thesis using spawned_queues_partition [OF jobs] by auto
qed

section \<open>Receiving with dev-to-dev\<close>

text \<open>
  C33: Over any sequence of packets whose matching ones carry the numbers \<open>ns\<close>, the closure of
  \<open>rx_pkts\<close> marks exactly these numbers and counts every matching packet, duplicates included,
  and the missing packets reported are those not marked. One number of \<open>n_pkts\<close> or more makes it
  panic.
\<close>

theorem rx_tally:
  assumes "carries E filt pkts ns" "n_pkts < 2 ^ 31" "length ns < 2 ^ 64"
  shows "foldO (rx_closure chk E filt) (replicate n_pkts False, 0) pkts =
      (if set ns \<subseteq> {..<n_pkts} then Ret (map (\<lambda>j. j \<in> set ns) [0..<n_pkts], length ns) else Panic OutOfRange) \<and>
    (set ns \<subseteq> {..<n_pkts} \<longrightarrow>
      count_missing chk (map (\<lambda>j. j \<in> set ns) [0..<n_pkts]) 0 = Ret (int (n_pkts - card (set ns))))"
proof -
  have "map (\<lambda>j. replicate n_pkts False ! j \<or> j \<in> set ns) [0..<n_pkts] = map (\<lambda>j. j \<in> set ns) [0..<n_pkts]" by simp
  moreover have "(\<forall>n \<in> set ns. n < n_pkts) \<longleftrightarrow> set ns \<subseteq> {..<n_pkts}" by auto
  moreover have "count_missing chk (map (\<lambda>j. j \<in> set ns) [0..<n_pkts]) 0 = Ret (int (n_pkts - card (set ns)))"
    if "set ns \<subseteq> {..<n_pkts}"
    using count_missing_ok [of 0 "map (\<lambda>j. j \<in> set ns) [0..<n_pkts]" chk] missing_numbers [OF that] assms(2) by simp
  ultimately show ?thesis using rx_fold [OF assms(1), of 0 chk "replicate n_pkts False"] assms(3) by simp
qed

theorem rx_tally_witness:
  "\<exists>pkts. foldO (rx_closure True plain_crates lb_filter) (replicate 3 False, 0) pkts = Ret ([False, True, False], 2) \<and>
     count_missing True [False, True, False] 0 = Ret 2"
proof -
  let ?pkt = "plain_udp (udp_builder lb_filter) (le_bytes 8 1)"
  let ?p = "plain_parse_udp ?pkt"
  have "le_value (le_bytes 2 1000) = 1000" "le_value (le_bytes 2 2000) = 2000" by (simp_all add: le_value_bytes)
  then have m: "matching plain_crates lb_filter ?pkt = Some ?p" "sp_payload ?p = le_bytes 8 1"
    by (simp_all add: matching_def filter_pkt_def plain_crates_def plain_udp_def plain_parse_udp_def udp_builder_def
        lb_filter_def field_def)
  have num: "8 \<le> length (sp_payload ?p)" "le_read_u64 plain_crates (take 8 (sp_payload ?p)) = Ret 1"
    using m(2) by (simp_all add: plain_crates_def le_value_bytes)
  have two: "carries plain_crates lb_filter [?pkt, ?pkt] [1, 1]"
    by (rule carries_num [OF m(1) num] carries_Nil)+
  have up: "map (\<lambda>j. j \<in> set [1, 1 :: nat]) [0..<3] = [False, True, False]" "set [1, 1 :: nat] \<subseteq> {..<3}"
      "int (3 - card (set [1, 1 :: nat])) = 2" "length [1, 1 :: nat] = 2" by (simp_all add: upt_rec)
  have "(3 :: nat) < 2 ^ 31" "length [1, 1 :: nat] < 2 ^ 64" by simp_all
  from rx_tally [OF two this, of True] show ?thesis using up by metis
qed

text \<open>
  C39: The receive loop stops when the count is exactly \<open>n_pkts\<close>. Once a batch has taken the count
  past it (duplicates are counted) and no further packet comes in, it only ends by its timeout,
  although every number may have been received: whatever number of turns it is given, it is still
  running after them, or it has returned the same record with the clock past the timeout, and it does
  not panic. This holds in both build profiles; with overflow checks, up to the turn at which the
  32-bit turn counter overflows.
\<close>

theorem rx_overshoot_waits:
  assumes "rx_ready F P R m base fuel s w" "keeps (pv_ok P) Q (rx_ops F (rx_q s))" "keeps (pv_ok P) Q (poll_ops F)" "Q w"
    and "\<forall>v. Q v \<longrightarrow> cv_pend R v = []" "0 \<le> i" "overflow_checks F \<longrightarrow> i + int turns < 2 ^ 31"
  shows "rx_pkts_loop F E fuel filt (snd c) start timeout (Suc turns) i c s w = Ret (fst c, s, w) \<and>
    (n_pkts < snd c \<longrightarrow>
       rx_pkts_loop F E fuel filt n_pkts start timeout turns i c s w = Spin \<or>
       (\<exists>s' w'. rx_pkts_loop F E fuel filt n_pkts start timeout turns i c s w = Ret (fst c, s', w') \<and>
          timeout < instant_now F w' - start))"
  using rx_loop_past [OF assms(3) _ _ assms(1,2,4), of n_pkts c i turns] assms(5-7) by simp

theorem rx_overshoot_waits_witness:
  "rx_pkts_loop (loopback True) plain_crates 1 lb_filter 2 0 3 1001 0 ([True], 2) lb_rx_held lb_held_world =
     Ret ([True], lb_rx_held, lb_held_world) \<and>
   rx_pkts_loop (loopback True) plain_crates 1 lb_filter 1 0 3 1000 0 ([True], 2) lb_rx_held lb_held_world = Spin"
proof -
  let ?Q = "\<lambda>v :: lb world. rx_waiting (kern v) = []"
  have ready: "rx_ready (loopback True) (lb_P 2048) (lb_R 2048) lb_area 2 1 lb_rx_held lb_held_world"
    by (simp add: lb_rx_ready)
  have Q: "keeps (pv_ok (lb_P 2048)) ?Q (rx_ops (loopback True) (rx_q lb_rx_held))"
      "keeps (pv_ok (lb_P 2048)) ?Q (poll_ops (loopback True))" "?Q lb_held_world"
    by (auto simp: keeps_def rx_ops_def cons_ops_def poll_ops_def lb_rx_held_def lb_rx_def lb_held_world_def lb_kern_def
        rx_waiting_def lb_cap_def lb_sel lb_ops Let_def)
  have "\<forall>v. ?Q v \<longrightarrow> cv_pend (lb_R 2048) v = []" by (simp add: lb_R_def)
  from rx_overshoot_waits [OF ready Q this, of 0 1000 plain_crates lb_filter "([True], 2)" 0 3 1]
  show ?thesis by (simp add: loopback_def)
qed

section \<open>Options\<close>

text \<open>
  C35: \<open>parse_mac\<close> reads back every hardware address printed in the usual way.
\<close>

theorem parse_mac_roundtrip:
  assumes "length bs = 6"
  shows "parse_mac (show_mac bs) = Ret (Inr bs)"
proof -
  have "split_on (CHR '':'') (show_mac bs) = map show_hex2 bs"
    unfolding show_mac_def using assms colon_notin by (intro split_join) auto
  then show ?thesis using assms by (simp add: parse_mac_eq u8_from_hex_show o_def)
qed

theorem parse_mac_roundtrip_witness:
  "parse_mac ''02:00:00:00:00:ff'' = Ret (Inr [2, 0, 0, 0, 0, 255])"
proof -
  have "show_mac [2, 0, 0, 0, 0, 255] = ''02:00:00:00:00:ff''" by code_simp
  then show ?thesis using parse_mac_roundtrip [of "[2, 0, 0, 0, 0, 255]"] by simp
qed

text \<open>
  \<open>build_umem_socket_config\<close> returns exactly when half the queue size, rounded down, is a
  power of two and the default frame size is at least 2048; the configurations are then valid, with
  one frame per unit of queue size and rings of half that size. Otherwise it panics.
\<close>

theorem dev_config_exact:
  "let n = do_xdp_queue_size opts; ok = ((\<exists>k. unat n div 2 = 2 ^ k) \<and> 2048 \<le> unat (XSK_UMEM__DEFAULT_FRAME_SIZE A)) in
   case build_umem_socket_config A opts of
     Ret (uc, sc) \<Rightarrow> ok \<and> UmemConfig_valid uc \<and> SocketConfig_valid sc \<and> frame_count uc = n \<and>
       unat (fill_queue_size uc) = unat n div 2 \<and> comp_queue_size uc = fill_queue_size uc \<and>
       rx_queue_size sc = fill_queue_size uc \<and> tx_queue_size sc = fill_queue_size uc
   | Panic c \<Rightarrow> \<not> ok \<and> c = Unwrap
   | _ \<Rightarrow> False"
proof -
  have "unat (n div 2) = unat n div 2" for n :: u32 by (simp add: unat_div)
  moreover have "n \<noteq> 0" if "unat n div 2 = 2 ^ k" for n :: u32 and k using that by (cases "n = 0") simp_all
  ultimately show ?thesis
    by (auto simp: build_config_eq is_pow_of_two_unat UmemConfig_valid_def SocketConfig_valid_def Let_def word_neq_0_conv)
qed

section \<open>Answering with synacker\<close>

text \<open>
  What the filter of synacker lets through of the IPv4 TCP packets. A given destination port
  decides alone: the comparison with the source port is overwritten, so with both ports given, packets
  from any source port pass.
\<close>

theorem synacker_filter_exact:
  assumes "sp_ip p = Some (Ipv4 ip)" "sp_transport p = Some (Tcp tcp)"
  shows "SynackerFilter_filter f p \<longleftrightarrow>
    sf_src_ip f \<in> {None, Some (ipv4_source ip)} \<and> sf_dest_ip f \<in> {None, Some (ipv4_destination ip)} \<and>
    (if sf_dest_port f = None then sf_src_port f \<in> {None, Some (tcp_source_port tcp)}
     else sf_dest_port f = Some (tcp_destination_port tcp))"
  using assms by (auto simp: SynackerFilter_filter_def Let_def split: option.splits)

theorem synacker_filter_exact_witness:
  "SynackerFilter_filter \<lparr>sf_src_ip = None, sf_src_port = Some 81, sf_dest_ip = None, sf_dest_port = Some 90\<rparr> lb_syn \<and>
   \<not> SynackerFilter_filter \<lparr>sf_src_ip = None, sf_src_port = Some 81, sf_dest_ip = None, sf_dest_port = None\<rparr> lb_syn"
  using synacker_filter_exact [of lb_syn "\<lparr>ipv4_source = [10, 0, 0, 1], ipv4_destination = [10, 0, 0, 2]\<rparr>"
      "\<lparr>tcp_source_port = 80, tcp_destination_port = 90, tcp_sequence_number = 7, tcp_window_size = 1024\<rparr>"]
  by (simp add: lb_syn_def)

text \<open>
  C34: The answer to a TCP packet, parsed back, goes from the packet's destination to its source at
  every layer and carries the packet's own sequence number; a packet with the largest sequence number
  makes a build with overflow checks panic instead.
\<close>

theorem synack_goes_back:
  assumes "tcp_law E" "\<forall>b. \<exists>bs. tcp_bytes E b [] = Inr bs"
    and "sp_link p = Some (Ethernet2 link)" "sp_ip p = Some (Ipv4 ip)" "sp_transport p = Some (Tcp tcp)"
    and "length (eth_source link) = 6" "length (eth_destination link) = 6"
    and "length (ipv4_source ip) = 4" "length (ipv4_destination ip) = 4"
  shows "if chk \<and> tcp_sequence_number tcp = - 1 then generate_synack chk E p = Panic ArithOverflow
    else \<exists>bs. generate_synack chk E p = Ret (Some bs) \<and>
      from_ethernet E bs = Inr
        \<lparr>sp_link = Some (Ethernet2 \<lparr>eth_source = eth_destination link, eth_destination = eth_source link\<rparr>),
         sp_ip = Some (Ipv4 \<lparr>ipv4_source = ipv4_destination ip, ipv4_destination = ipv4_source ip\<rparr>),
         sp_transport = Some (Tcp \<lparr>tcp_source_port = tcp_destination_port tcp, tcp_destination_port = tcp_source_port tcp,
           tcp_sequence_number = tcp_sequence_number tcp, tcp_window_size = tcp_window_size tcp\<rparr>),
         sp_payload = []\<rparr>"
proof -
  let ?b = "\<lparr>tb_ip = \<lparr>pb_src_mac = eth_destination link, pb_dest_mac = eth_source link, pb_src_ip = ipv4_destination ip,
      pb_dest_ip = ipv4_source ip, pb_ttl = 20\<rparr>, tb_src_port = tcp_destination_port tcp,
      tb_dest_port = tcp_source_port tcp, tb_seq = tcp_sequence_number tcp, tb_window = tcp_window_size tcp,
      tb_syn = True, tb_ack = Some (tcp_sequence_number tcp + 1)\<rparr>"
  obtain bs where bs: "tcp_bytes E ?b [] = Inr bs" using assms(2) by blast
  have parsed: "from_ethernet E bs = Inr (built_packet ?b)"
    using assms(1) bs assms(6-9) unfolding tcp_law_def by (metis IpBuilder.select_convs(1-4) TcpBuilder.select_convs(1))
  have run: "generate_synack chk E p = bindO (add32 chk (tcp_sequence_number tcp) 1) (\<lambda>ack.
      bindO (expectR ''failed to build packet'' (tcp_bytes E (?b\<lparr>tb_ack := Some ack\<rparr>) [])) (\<lambda>bs. Ret (Some bs)))"
    using assms(3-9) by (simp add: generate_synack_def first_n_def)
  show ?thesis using run bs parsed
    by (cases "chk \<and> tcp_sequence_number tcp = - 1") (auto simp: add32_one built_packet_def)
qed

theorem synack_goes_back_witness:
  "\<exists>bs. generate_synack True plain_crates lb_syn = Ret (Some bs) \<and>
     (\<exists>q. from_ethernet plain_crates bs = Inr q \<and> sp_ip q = Some (Ipv4 \<lparr>ipv4_source = [10, 0, 0, 2], ipv4_destination = [10, 0, 0, 1]\<rparr>))"
proof -
  have "\<forall>b. \<exists>bs. tcp_bytes plain_crates b [] = Inr bs" by (simp add: plain_crates_def)
  from synack_goes_back [OF plain_tcp_law this, of lb_syn "\<lparr>eth_source = [2, 0, 0, 0, 0, 1], eth_destination = [2, 0, 0, 0, 0, 2]\<rparr>"
      "\<lparr>ipv4_source = [10, 0, 0, 1], ipv4_destination = [10, 0, 0, 2]\<rparr>"
      "\<lparr>tcp_source_port = 80, tcp_destination_port = 90, tcp_sequence_number = 7, tcp_window_size = 1024\<rparr>" True]
  show ?thesis by (auto simp: lb_syn_def)
qed

text \<open>
  C19: One turn of synacker answers a packet that passes the filter: when \<open>recv\<close> delivered it and
  an answer was built, the turn returns however long the frame at the cursor is still in flight, as
  long as the kernel completes it in the end, and the answer was sent exactly once, after the packets
  already waiting.
\<close>

theorem synacker_answers:
  assumes "recv F fuel (x2_rx xsk) buf w = Ret (n, buf', rx', w1)" "0 < n" "n \<le> length buf'"
    and "from_ethernet E (take n buf') = Inr p" "SynackerFilter_filter filt p"
    and "generate_synack (overflow_checks F) E p = Ret (Some synack)"
    and "tx_ready F T C m fuel (x2_tx xsk) w1" "send_fits synack (x2_tx xsk)"
    and "comp_progress F T C (comp_q (x2_tx xsk)) (length (tx_frames (x2_tx xsk))) turns"
  shows "\<exists>tx' w2 handed. synacker_turn F E fuel turns filt xsk buf w = Ret (xsk\<lparr>x2_rx := rx', x2_tx := tx'\<rparr>, buf', w2) \<and>
    tx_run F fuel m T C (x2_tx xsk) w1 tx' w2 [synack] handed \<and>
    handed @ batch_data tx' w2 = batch_data (x2_tx xsk) w1 @ [synack] \<and> tx_inv m tx' \<and> tx_linked T C tx' w2"
proof -
  let ?s = "x2_tx xsk"
  have R: "tx_platform F (tx_q ?s) (comp_q ?s) T C (tx_bytes m ?s)" "tx_progress F (tx_q ?s) T (batch_size ?s) fuel"
      "tx_inv m ?s" "tx_linked T C ?s w1" using assms(7) by (simp_all add: tx_ready_def)
  obtain j where "j < turns" "settled C ((drain_turn F ^^ j) (?s, w1))"
    using assms(9) R(4) unfolding comp_progress_def by blast
  from send_retry.loop_returns [OF assms(7,8) this run_start]
  obtain tx' w2 handed where run: "send_until F fuel turns ?s synack w1 = Ret (tx', w2)"
      "tx_run F fuel m T C ?s w1 tx' w2 [synack] handed" by auto
  have "synacker_turn F E fuel turns filt xsk buf w = Ret (xsk\<lparr>x2_rx := rx', x2_tx := tx'\<rparr>, buf', w2)"
    using assms(1-6) run(1) by (simp add: synacker_turn_def Let_def)
  moreover have "handed @ batch_data tx' w2 = batch_data ?s w1 @ [synack]" "tx_inv m tx'" "tx_linked T C tx' w2"
    using tx_run_inv [OF run(2) R] by auto
  ultimately show ?thesis using run(2) by blast
qed

theorem synacker_answers_witness:
  "\<exists>xsk' buf' (w2 :: lb world). synacker_turn (loopback True) (plain_crates\<lparr>from_ethernet := \<lambda>_. Inr lb_syn\<rparr>) 1 1
       \<lparr>sf_src_ip = None, sf_src_port = None, sf_dest_ip = None, sf_dest_port = Some 90\<rparr>
       ((lb_xsk 1)\<lparr>x2_rx := lb_rx_held\<rparr>) (replicate 8 0) lb_held_world = Ret (xsk', buf', w2) \<and> tx_inv lb_area (x2_tx xsk')"
proof -
  let ?E = "plain_crates\<lparr>from_ethernet := \<lambda>_. Inr lb_syn\<rparr>" and ?xsk = "(lb_xsk 1)\<lparr>x2_rx := lb_rx_held\<rparr>"
  let ?f = "\<lparr>sf_src_ip = None, sf_src_port = None, sf_dest_ip = None, sf_dest_port = Some 90\<rparr>"
  obtain rx' and w1 :: "lb world" where run: "recv (loopback True) 1 (x2_rx ?xsk) (replicate 8 0) lb_held_world =
      Ret (3, 7 # 7 # 7 # replicate 5 0, rx', w1)"
    and w1: "prompt (kern w1)" "tx_sent (kern w1) = []" "tx_back (kern w1) = []" "tx_resvd (kern w1) = 0"
      "tx_peeked (kern w1) = 0" "tx_done (kern w1) = 0"
    using lb_recv_held by auto
  have ready: "tx_ready (loopback True) (lb_T True) (lb_C True) lb_area 1 (x2_tx ?xsk) w1"
    using lb_tx_ready_at [of 1 1 w1 True] w1 by (simp add: lb_xsk_def)
  obtain synack where ack: "generate_synack (overflow_checks (loopback True)) ?E lb_syn = Ret (Some synack)" "length synack = 31"
    by (simp add: generate_synack_def lb_syn_def first_n_def loopback_def add32_def plain_crates_def plain_tcp_def)
  have fit: "send_fits synack (x2_tx ?xsk)" using ack(2) by (simp add: send_fits_def lb_xsk_def)
  have prog: "comp_progress (loopback True) (lb_T True) (lb_C True) (comp_q (x2_tx ?xsk)) (length (tx_frames (x2_tx ?xsk))) 1"
    using lb_comp_progress [of 2 1] by (simp add: lb_cap_def numeral_2_eq_2 lb_xsk_def)
  have parsed: "from_ethernet ?E (take 3 (7 # 7 # 7 # replicate 5 0)) = Inr lb_syn" by simp
  have pass: "SynackerFilter_filter ?f lb_syn" by (simp add: SynackerFilter_filter_def lb_syn_def)
  show ?thesis
    using synacker_answers [OF run _ _ parsed pass ack(1) ready fit prog] by auto
qed

end
