(* ===== verification/Dev_Threads.thy ===== *)
theory Dev_Threads
  imports Dev_Tx Xsk_Run Iface
begin

text \<open>
  The threads of \<^verbatim>\<open>src/examples/dev_to_dev.rs\<close>. \<open>thread_step\<close> is the body of a thread one
  call on the socket at a time, \<open>run_threads\<close> lets the threads take their steps in the order of a
  schedule, with steps of the kernel anywhere in between, and \<open>spawn_threads\<close> is the main thread
  around it. By itself a thread takes its steps to the same end as its body \<open>dev_thread\<close>.
\<close>

section \<open>Definitions\<close>

datatype thread_state =
    Spawned
  | TxSending Xsk2 usize "u64 list"
  | TxDraining Xsk2
  | RxLooping Xsk2 DevFilter nat nat i32 "bool list \<times> u64"
  | Finished Xsk2

text \<open>Building the socket and the filter, up to the loop of \<open>tx_pkts\<close> or of \<open>rx_pkts\<close>.\<close>

definition thread_start ::
    "'k ffi \<Rightarrow> crates \<Rightarrow> DevOpts \<Rightarrow> nat \<times> u32 \<times> UmemConfig \<times> SocketConfig \<Rightarrow> 'k world \<Rightarrow>
     (thread_state \<times> 'k world) outcome" where
  "thread_start F E opts job w =
     (case job of (i, queue, uc, sc) \<Rightarrow>
        bindO (build_xsk F uc sc (do_dev opts) queue (do_batch_size opts) w) (\<lambda>(xsk, w1).
          bindO (DevFilter_from_opts opts) (\<lambda>r.
            bindO (expectR ''failed to build packet filter'' r) (\<lambda>filt.
              case do_mode opts of
                ModeTx \<Rightarrow>
                  bindO (split_pkts (do_n_pkts opts) i (length (do_queues opts))) (\<lambda>pkts.
                    bindO (generate_pkt E (replicate MAX_PACKET_SIZE 0) (replicate 8 0) (udp_builder filt))
                      (\<lambda>(len_pkt, prefill_pkt).
                        bindO (sliceO prefill_pkt 0 len_pkt) (\<lambda>template.
                          bindO (prefill (x2_tx xsk) template w1) (\<lambda>(s, w2).
                            Ret (TxSending (xsk\<lparr>x2_tx := s\<rparr>) len_pkt pkts, w2)))))
              | ModeRx \<Rightarrow>
                  Ret (RxLooping xsk filt (instant_now F w1)
                         (case do_timeout_sec opts of
                            Some timeout \<Rightarrow> from_secs timeout
                          | None \<Rightarrow> from_secs DEV_DEFAULT_TIMEOUT)
                         0 (replicate (do_n_pkts opts) False, 0), w1)))))"

text \<open>
  One turn of each loop a thread runs: one call of \<open>send_apply\<close> in the retry loop of \<open>tx_pkts\<close>,
  one turn of \<open>drain\<close>, one turn of the loop of \<open>rx_pkts\<close>, with the count of the missing packets
  after its last one.
\<close>

definition tx_send_step ::
    "'k ffi \<Rightarrow> crates \<Rightarrow> nat \<Rightarrow> Xsk2 \<Rightarrow> usize \<Rightarrow> u64 \<Rightarrow> u64 list \<Rightarrow> 'k world \<Rightarrow> (thread_state \<times> 'k world) outcome" where
  [simp]: "tx_send_step F E fuel xsk len_pkt i is w =
     bindO (send_apply F fuel (x2_tx xsk) (tx_closure (overflow_checks F) E len_pkt i) () w) (\<lambda>(r, s, _, w1).
       Ret (TxSending (xsk\<lparr>x2_tx := s\<rparr>) len_pkt (case r of Inr _ \<Rightarrow> is | Inl _ \<Rightarrow> i # is), w1))"

definition tx_drain_step :: "'k ffi \<Rightarrow> nat \<Rightarrow> Xsk2 \<Rightarrow> 'k world \<Rightarrow> (thread_state \<times> 'k world) outcome" where
  [simp]: "tx_drain_step F fuel xsk w =
     bindO (drain_body F fuel (x2_tx xsk) w) (\<lambda>(s, w1).
       Ret (if outstanding_tx_frames s = 0 then Finished (xsk\<lparr>x2_tx := s\<rparr>) else TxDraining (xsk\<lparr>x2_tx := s\<rparr>), w1))"

definition rx_step ::
    "'k ffi \<Rightarrow> crates \<Rightarrow> nat \<Rightarrow> u64 \<Rightarrow> Xsk2 \<Rightarrow> DevFilter \<Rightarrow> nat \<Rightarrow> nat \<Rightarrow> i32 \<Rightarrow> bool list \<times> u64 \<Rightarrow> 'k world \<Rightarrow>
     (thread_state \<times> 'k world) outcome" where
  [simp]: "rx_step F E fuel n_pkts xsk filt start timeout i c w =
     (let finish = bindO (count_missing (overflow_checks F) (fst c) 0) (\<lambda>_. Ret (Finished xsk, w)) in
      if snd c \<noteq> n_pkts then
        bindO (add_i32 (overflow_checks F) i 1) (\<lambda>i.
          if i mod 65536 = 0 \<and> timeout < instant_now F w - start then finish
          else
            bindO (recv_apply F fuel (x2_rx xsk) (rx_closure (overflow_checks F) E filt) c w) (\<lambda>(c, s, w1).
              Ret (RxLooping (xsk\<lparr>x2_rx := s\<rparr>) filt start timeout i c, w1)))
      else finish)"

text \<open>The next step of a thread, by where it stands in the closure that \<open>spawn_threads\<close> runs.\<close>

fun thread_step ::
    "'k ffi \<Rightarrow> crates \<Rightarrow> nat \<Rightarrow> DevOpts \<Rightarrow> nat \<times> u32 \<times> UmemConfig \<times> SocketConfig \<Rightarrow> thread_state \<Rightarrow> 'k world \<Rightarrow>
     (thread_state \<times> 'k world) outcome" where
  "thread_step F E fuel opts job Spawned w = thread_start F E opts job w"
| "thread_step F E fuel opts job (TxSending xsk len_pkt []) w = Ret (TxDraining xsk, w)"
| "thread_step F E fuel opts job (TxSending xsk len_pkt (i # is)) w = tx_send_step F E fuel xsk len_pkt i is w"
| "thread_step F E fuel opts job (TxDraining xsk) w = tx_drain_step F fuel xsk w"
| "thread_step F E fuel opts job (RxLooping xsk filt start timeout i c) w =
     rx_step F E fuel (do_n_pkts opts) xsk filt start timeout i c w"
| "thread_step F E fuel opts job (Finished xsk) w = Ret (Finished xsk, w)"

text \<open>A schedule: which thread takes the next step, and what the kernel does in between.\<close>

datatype 'w event = Step nat | Env "'w \<Rightarrow> 'w"

fun run_threads ::
    "'k ffi \<Rightarrow> crates \<Rightarrow> nat \<Rightarrow> DevOpts \<Rightarrow> (nat \<times> u32 \<times> UmemConfig \<times> SocketConfig) list \<Rightarrow> 'k world event list \<Rightarrow>
     thread_state list \<Rightarrow> 'k world \<Rightarrow> (thread_state list \<times> 'k world) outcome" where
  "run_threads F E fuel opts jobs [] sts w = Ret (sts, w)"
| "run_threads F E fuel opts jobs (Env f # es) sts w = run_threads F E fuel opts jobs es sts (f w)"
| "run_threads F E fuel opts jobs (Step k # es) sts w =
     bindO (nthO jobs k) (\<lambda>job.
       bindO (nthO sts k) (\<lambda>st.
         bindO (thread_step F E fuel opts job st w) (\<lambda>(st', w'). run_threads F E fuel opts jobs es (sts[k := st']) w')))"

fun is_finished :: "thread_state \<Rightarrow> bool" where
  "is_finished (Finished _) = True"
| "is_finished _ = False"

text \<open>
  \<open>handle.join().expect(..)\<close>: waits for ever if a thread does not end, panics if one panicked.
  A run is followed up to the first panic of a thread.
\<close>

fun join_all :: "(thread_state list \<times> 'k world) outcome \<Rightarrow> (thread_state list \<times> 'k world) outcome" where
  "join_all (Ret (sts, w)) = (if list_all is_finished sts then Ret (sts, w) else Spin)"
| "join_all (Panic _) = Panic (Expect ''failed to join tx/rx handle'')"
| "join_all UB = UB"
| "join_all Spin = Spin"

text \<open>
  The main thread: the counters of the interface before, the threads, the counters after. The
  configurations depend on the options alone, so the loop that starts the threads fails for the first
  one or not at all. The elapsed time and the rate are printed only.
\<close>

definition spawn_threads ::
    "'k ffi \<Rightarrow> crates \<Rightarrow> nat \<Rightarrow> DevOpts \<Rightarrow> 'k world event list \<Rightarrow> 'k world \<Rightarrow>
     ((InterfaceStatsTx + InterfaceStatsRx) \<times> thread_state list \<times> 'k world) outcome" where
  "spawn_threads F E fuel opts es w =
     bindO (InterfaceStats_new F (do_dev opts) w) (\<lambda>iface_stats_start.
       bindO (spawn_jobs (abi F) opts) (\<lambda>jobs.
         bindO (join_all (run_threads F E fuel opts jobs es (replicate (length jobs) Spawned) w)) (\<lambda>(sts, w1).
           bindO (InterfaceStats_new F (do_dev opts) w1) (\<lambda>iface_stats_end.
             bindO (InterfaceStats_sub (overflow_checks F) iface_stats_end iface_stats_start) (\<lambda>iface_stats.
               Ret (case do_mode opts of ModeTx \<Rightarrow> Inl (st_tx iface_stats) | ModeRx \<Rightarrow> Inr (st_rx iface_stats),
                    sts, w1))))))"

text \<open>\<open>main\<close>, on the parsed options.\<close>

definition dev_main :: "'k ffi \<Rightarrow> crates \<Rightarrow> nat \<Rightarrow> DevOpts \<Rightarrow> 'k world event list \<Rightarrow> 'k world \<Rightarrow> 'k world outcome" where
  "dev_main F E fuel opts es w = bindO (spawn_threads F E fuel opts es w) (\<lambda>(_, _, w1). Ret w1)"

section \<open>A thread by itself\<close>

text \<open>The steps of one thread in a row.\<close>

inductive thread_steps ::
    "'k ffi \<Rightarrow> crates \<Rightarrow> nat \<Rightarrow> DevOpts \<Rightarrow> nat \<times> u32 \<times> UmemConfig \<times> SocketConfig \<Rightarrow>
     thread_state \<Rightarrow> 'k world \<Rightarrow> nat \<Rightarrow> thread_state \<Rightarrow> 'k world \<Rightarrow> bool"
  for F E fuel opts job where
  steps_none: "thread_steps F E fuel opts job st w 0 st w"
| steps_one: "thread_step F E fuel opts job st w = Ret (st1, w1) \<Longrightarrow> thread_steps F E fuel opts job st1 w1 n st' w' \<Longrightarrow>
    thread_steps F E fuel opts job st w (Suc n) st' w'"

lemma thread_steps_trans:
  "thread_steps F E fuel opts job st w n st1 w1 \<Longrightarrow> thread_steps F E fuel opts job st1 w1 k st' w' \<Longrightarrow>
   thread_steps F E fuel opts job st w (n + k) st' w'"
  by (induction rule: thread_steps.induct) (auto intro: steps_one)

lemma steps_single: "thread_step F E fuel opts job st w = Ret (st', w') \<Longrightarrow> thread_steps F E fuel opts job st w 1 st' w'"
  using steps_one [OF _ steps_none] by simp

text \<open>The loops of the thread are sequences of steps.\<close>

lemma tx_until_steps:
  "tx_until F E fuel turns len i (x2_tx xsk) w = Ret (s', w') \<Longrightarrow>
   \<exists>n. thread_steps F E fuel opts job (TxSending xsk len (i # is)) w n (TxSending (xsk\<lparr>x2_tx := s'\<rparr>) len is) w'"
proof (induction turns arbitrary: xsk w)
  case 0
  then show ?case by simp
next
  case (Suc turns)
  obtain r s1 w1 where op: "send_apply F fuel (x2_tx xsk) (tx_closure (overflow_checks F) E len i) () w = Ret (r, s1, (), w1)"
    and rest: "(case r of Inr _ \<Rightarrow> Ret (s1, w1) | Inl _ \<Rightarrow> tx_until F E fuel turns len i s1 w1) = Ret (s', w')"
    using Suc.prems by (auto simp: bindO_Ret_iff split: prod.splits)
  let ?xsk = "xsk\<lparr>x2_tx := s1\<rparr>"
  have one: "thread_steps F E fuel opts job (TxSending xsk len (i # is)) w 1
      (TxSending ?xsk len (case r of Inr _ \<Rightarrow> is | Inl _ \<Rightarrow> i # is)) w1"
    by (rule steps_single) (use op in simp)
  show ?case
  proof (cases r)
    case (Inr u)
    then show ?thesis using one rest by auto
  next
    case (Inl e)
    then have "tx_until F E fuel turns len i (x2_tx ?xsk) w1 = Ret (s', w')" using rest by simp
    from Suc.IH [OF this] show ?thesis using thread_steps_trans [OF one] Inl by auto
  qed
qed

lemma tx_loop_steps:
  "tx_loop F E fuel turns len is (x2_tx xsk) w = Ret (s', w') \<Longrightarrow>
   \<exists>n. thread_steps F E fuel opts job (TxSending xsk len is) w n (TxSending (xsk\<lparr>x2_tx := s'\<rparr>) len []) w'"
proof (induction "is" arbitrary: xsk w)
  case Nil
  then show ?case using steps_none by fastforce
next
  case (Cons i "is")
  obtain s1 w1 where one: "tx_until F E fuel turns len i (x2_tx xsk) w = Ret (s1, w1)"
    and rest: "tx_loop F E fuel turns len is (x2_tx (xsk\<lparr>x2_tx := s1\<rparr>)) w1 = Ret (s', w')"
    using Cons.prems by (auto simp: bindO_Ret_iff split: prod.splits)
  show ?case
    using tx_until_steps [OF one, of opts job "is"] Cons.IH [OF rest] thread_steps_trans by fastforce
qed

text \<open>More fuel does not change the result of a loop that returns.\<close>

lemma submit_more_fuel:
  "tx_submit_loop F fuel q batch n w = Ret w' \<Longrightarrow> fuel \<le> fuel' \<Longrightarrow> tx_submit_loop F fuel' q batch n w = Ret w'"
proof (induction fuel arbitrary: fuel' w)
  case 0
  then show ?case by simp
next
  case (Suc fuel)
  obtain k where "fuel' = Suc k" "fuel \<le> k" using Suc.prems(2) by (cases fuel') auto
  then show ?case using Suc by (auto simp: bindO_Ret_iff split: prod.splits if_splits)
qed

lemma put_batch_more_fuel:
  assumes "put_batch_on_tx_queue F fuel s w = Ret (s', w')" "fuel \<le> fuel'"
  shows "put_batch_on_tx_queue F fuel' s w = Ret (s', w')"
proof (cases "cur_batch_size s = 0")
  case True
  then show ?thesis using assms(1) by (simp add: put_batch_on_tx_queue_def)
next
  case False
  then show ?thesis
    using assms(1) submit_more_fuel [OF _ assms(2)]
    by (auto simp: put_batch_on_tx_queue_def Let_def bindO_Ret_iff)
qed

lemma drain_body_more_fuel:
  assumes "drain_body F fuel s w = Ret (s', w')" "fuel \<le> fuel'"
  shows "drain_body F fuel' s w = Ret (s', w')"
proof -
  obtain r where "complete_frames F s w = Ret r" using assms(1) by (auto simp: drain_body_def bindO_Ret_iff)
  then show ?thesis
    using assms(1) put_batch_more_fuel [OF _ assms(2)] by (cases r) (simp add: drain_body_def)
qed

lemma drain_steps:
  "drain F k (x2_tx xsk) w = Ret (s', w') \<Longrightarrow> k \<le> fuel \<Longrightarrow>
   \<exists>n. thread_steps F E fuel opts job (TxDraining xsk) w n (Finished (xsk\<lparr>x2_tx := s'\<rparr>)) w'"
proof (induction k arbitrary: xsk w)
  case 0
  then show ?case by simp
next
  case (Suc k)
  obtain s1 w1 where body: "drain_body F (Suc k) (x2_tx xsk) w = Ret (s1, w1)"
    and rest: "(if outstanding_tx_frames s1 = 0 then Ret (s1, w1) else drain F k s1 w1) = Ret (s', w')"
    using Suc.prems(1) by (auto simp: bindO_Ret_iff split: prod.splits)
  let ?xsk = "xsk\<lparr>x2_tx := s1\<rparr>"
  have one: "thread_steps F E fuel opts job (TxDraining xsk) w 1
      (if outstanding_tx_frames s1 = 0 then Finished ?xsk else TxDraining ?xsk) w1"
    by (rule steps_single) (use drain_body_more_fuel [OF body Suc.prems(2)] in simp)
  show ?case
  proof (cases "outstanding_tx_frames s1 = 0")
    case True
    then show ?thesis using one rest by auto
  next
    case False
    then have "drain F k (x2_tx ?xsk) w1 = Ret (s', w')" using rest by simp
    from Suc.IH [OF this] show ?thesis using thread_steps_trans [OF one] False Suc.prems(2) by auto
  qed
qed

lemma rx_loop_steps:
  "rx_pkts_loop F E fuel filt (do_n_pkts opts) start timeout turns i c (x2_rx xsk) w = Ret (nums, s', w') \<Longrightarrow>
   count_missing (overflow_checks F) nums 0 = Ret k \<Longrightarrow>
   \<exists>n. thread_steps F E fuel opts job (RxLooping xsk filt start timeout i c) w n (Finished (xsk\<lparr>x2_rx := s'\<rparr>)) w'"
proof (induction turns arbitrary: i c xsk w)
  case 0
  then show ?case by simp
next
  case (Suc turns)
  let ?st = "RxLooping xsk filt start timeout i c"
  have stop: ?case if "thread_step F E fuel opts job ?st w = Ret (Finished xsk, w)" "s' = x2_rx xsk" "w' = w"
    using steps_single [OF that(1)] that(2,3) by auto
  show ?case
  proof (cases "snd c = do_n_pkts opts")
    case True
    then show ?thesis using Suc.prems by (intro stop) auto
  next
    case False
    then obtain i1 where i1: "add_i32 (overflow_checks F) i 1 = Ret i1"
      and rest: "(if i1 mod 65536 = 0 \<and> timeout < instant_now F w - start then Ret (fst c, x2_rx xsk, w)
        else bindO (recv_apply F fuel (x2_rx xsk) (rx_closure (overflow_checks F) E filt) c w)
          (\<lambda>(c, s, w1). rx_pkts_loop F E fuel filt (do_n_pkts opts) start timeout turns i1 c s w1)) = Ret (nums, s', w')"
      using Suc.prems(1) by (auto simp: bindO_Ret_iff)
    show ?thesis
    proof (cases "i1 mod 65536 = 0 \<and> timeout < instant_now F w - start")
      case True
      then show ?thesis using False i1 rest Suc.prems(2) by (intro stop) auto
    next
      case cont: False
      obtain c1 s1 w1 where op: "recv_apply F fuel (x2_rx xsk) (rx_closure (overflow_checks F) E filt) c w = Ret (c1, s1, w1)"
        and rest1: "rx_pkts_loop F E fuel filt (do_n_pkts opts) start timeout turns i1 c1 (x2_rx (xsk\<lparr>x2_rx := s1\<rparr>)) w1 =
          Ret (nums, s', w')"
        using rest cont by (auto simp: bindO_Ret_iff split: prod.splits)
      have "thread_steps F E fuel opts job ?st w 1 (RxLooping (xsk\<lparr>x2_rx := s1\<rparr>) filt start timeout i1 c1) w1"
        by (rule steps_single) (use False i1 cont op in auto)
      from thread_steps_trans [OF this] show ?thesis using Suc.IH [OF rest1 Suc.prems(2)] by auto
    qed
  qed
qed

text \<open>The body of a thread as a whole, and its steps on a schedule of its own.\<close>

lemma dev_thread_steps:
  assumes "dev_thread F E fuel turns opts job w = Ret (xsk', w')"
  shows "\<exists>n. thread_steps F E fuel opts job Spawned w n (Finished xsk') w'"
proof -
  obtain i queue uc sc where job: "job = (i, queue, uc, sc)" by (cases job) auto
  obtain xsk w1 r filt where built: "build_xsk F uc sc (do_dev opts) queue (do_batch_size opts) w = Ret (xsk, w1)"
      "DevFilter_from_opts opts = Ret r" "expectR ''failed to build packet filter'' r = Ret filt"
    using assms by (auto simp: dev_thread_def job bindO_Ret_iff split: prod.splits)
  show ?thesis
  proof (cases "do_mode opts")
    case ModeTx
    then obtain pkts len_pkt prefill_pkt template s0 w2 s1 w3 s2 where
        start: "split_pkts (do_n_pkts opts) i (length (do_queues opts)) = Ret pkts"
          "generate_pkt E (replicate MAX_PACKET_SIZE 0) (replicate 8 0) (udp_builder filt) = Ret (len_pkt, prefill_pkt)"
          "sliceO prefill_pkt 0 len_pkt = Ret template" "prefill (x2_tx xsk) template w1 = Ret (s0, w2)"
        and loop: "tx_loop F E fuel turns len_pkt pkts (x2_tx (xsk\<lparr>x2_tx := s0\<rparr>)) w2 = Ret (s1, w3)"
        and last: "drain F fuel (x2_tx (xsk\<lparr>x2_tx := s1\<rparr>)) w3 = Ret (s2, w')" "xsk' = xsk\<lparr>x2_tx := s2\<rparr>"
      using assms built by (auto simp: dev_thread_def tx_pkts_def job bindO_Ret_iff split: prod.splits)
    have "thread_steps F E fuel opts job Spawned w 1 (TxSending (xsk\<lparr>x2_tx := s0\<rparr>) len_pkt pkts) w2"
      by (rule steps_single) (use ModeTx built start in \<open>simp add: thread_start_def job\<close>)
    moreover have "thread_steps F E fuel opts job (TxSending (xsk\<lparr>x2_tx := s1\<rparr>) len_pkt []) w3 1 (TxDraining (xsk\<lparr>x2_tx := s1\<rparr>)) w3"
      by (rule steps_single) simp
    moreover obtain n where "thread_steps F E fuel opts job (TxSending (xsk\<lparr>x2_tx := s0\<rparr>) len_pkt pkts) w2 n
        (TxSending (xsk\<lparr>x2_tx := s1\<rparr>) len_pkt []) w3"
      using tx_loop_steps [OF loop, of opts job] by auto
    moreover obtain k where "thread_steps F E fuel opts job (TxDraining (xsk\<lparr>x2_tx := s1\<rparr>)) w3 k (Finished xsk') w'"
      using drain_steps [OF last(1) order.refl, of E opts job] last(2) by auto
    ultimately show ?thesis by (blast intro: thread_steps_trans)
  next
    case ModeRx
    let ?timeout = "case do_timeout_sec opts of Some timeout \<Rightarrow> from_secs timeout | None \<Rightarrow> from_secs DEV_DEFAULT_TIMEOUT"
    obtain nums s k where loop: "rx_pkts_loop F E fuel filt (do_n_pkts opts) (instant_now F w1) ?timeout turns 0
          (replicate (do_n_pkts opts) False, 0) (x2_rx xsk) w1 = Ret (nums, s, w')"
        and missing: "count_missing (overflow_checks F) nums 0 = Ret k" "xsk' = xsk\<lparr>x2_rx := s\<rparr>"
      using ModeRx assms built by (auto simp: dev_thread_def rx_pkts_def job Let_def bindO_Ret_iff split: prod.splits)
    have "thread_steps F E fuel opts job Spawned w 1
        (RxLooping xsk filt (instant_now F w1) ?timeout 0 (replicate (do_n_pkts opts) False, 0)) w1"
      by (rule steps_single) (use ModeRx built in \<open>simp add: thread_start_def job\<close>)
    from thread_steps_trans [OF this] show ?thesis using rx_loop_steps [OF loop missing(1)] missing(2) by blast
  qed
qed

lemma run_threads_append:
  "run_threads F E fuel opts jobs (es @ fs) sts w =
     bindO (run_threads F E fuel opts jobs es sts w) (\<lambda>(sts1, w1). run_threads F E fuel opts jobs fs sts1 w1)"
  by (induction F E fuel opts jobs es sts w rule: run_threads.induct)
    (auto simp: bindO_assoc split_def intro!: bindO_cong)

lemma thread_steps_run:
  "thread_steps F E fuel opts job st w n st' w' \<Longrightarrow>
   run_threads F E fuel opts [job] (replicate n (Step 0)) [st] w = Ret ([st'], w')"
  by (induction rule: thread_steps.induct) (simp_all add: nthO_def)

lemma finished_stays: "run_threads F E fuel opts [job] (replicate n (Step 0)) [Finished xsk] w = Ret ([Finished xsk], w)"
  by (induction n) (simp_all add: nthO_def)

text \<open>
  The steps agree with the body: where \<open>dev_thread\<close> returns, the thread on a schedule of its own
  is in the same state after finitely many steps and stays there.
\<close>

lemma dev_thread_run:
  assumes "dev_thread F E fuel turns opts job w = Ret (xsk, w')"
  shows "\<exists>n. \<forall>k \<ge> n. run_threads F E fuel opts [job] (replicate k (Step 0)) [Spawned] w = Ret ([Finished xsk], w')"
proof -
  obtain n where "thread_steps F E fuel opts job Spawned w n (Finished xsk) w'"
    using dev_thread_steps [OF assms] by blast
  from thread_steps_run [OF this] have run: "run_threads F E fuel opts [job] (replicate n (Step 0)) [Spawned] w = Ret ([Finished xsk], w')" .
  have "run_threads F E fuel opts [job] (replicate (n + j) (Step 0)) [Spawned] w = Ret ([Finished xsk], w')" for j
    by (simp add: replicate_add run_threads_append run finished_stays)
  then show ?thesis by (metis le_iff_add)
qed

section \<open>The main thread\<close>

lemma run_threads_length:
  "run_threads F E fuel opts jobs es sts w = Ret (sts', w') \<Longrightarrow> length sts' = length sts"
  by (induction F E fuel opts jobs es sts w rule: run_threads.induct) (auto simp: bindO_Ret_iff split: prod.splits)

lemma join_all_Ret: "join_all r = Ret (sts, w) \<longleftrightarrow> r = Ret (sts, w) \<and> list_all is_finished sts"
  by (cases r rule: join_all.cases) auto

text \<open>It returns only after every thread has finished, one per queue.\<close>

lemma spawn_threads_joins:
  assumes "spawn_threads F E fuel opts es w = Ret (stats, sts, w')"
  shows "list_all is_finished sts \<and> length sts = length (do_queues opts)"
proof -
  obtain jobs where jobs: "spawn_jobs (abi F) opts = Ret jobs"
      "run_threads F E fuel opts jobs es (replicate (length jobs) Spawned) w = Ret (sts, w')" "list_all is_finished sts"
    using assms by (auto simp: spawn_threads_def bindO_Ret_iff join_all_Ret)
  have "length jobs = length (do_queues opts)" using arg_cong [OF spawn_jobs_indices(1) [OF jobs(1)], of length] by simp
  then show ?thesis using run_threads_length [OF jobs(2)] jobs(3) by simp
qed

end
