(* ===== verification/Dev_Interleave.thy ===== *)
theory Dev_Interleave
  imports Dev_Threads
begin

text \<open>
  The sending threads of \<^verbatim>\<open>src/examples/dev_to_dev.rs\<close> side by side. Each thread owns
  one socket; what one does to its socket leaves the others' alone, so each keeps its own invariant
  whatever the schedule, and hands over its own packets, in order.
\<close>

section \<open>Definitions\<close>

text \<open>The socket a thread works on: its memory and rings, its state once prefilled, its numbers.\<close>

record 'k lane =
  ln_area :: MmapArea
  ln_tx :: "('k, xdp_desc) prod_view"
  ln_comp :: "('k, u64) cons_view"
  ln_start :: XskTx
  ln_pkts :: "u64 list"

abbreviation ln_bytes :: "'k lane \<Rightarrow> nat set" where
  "ln_bytes L \<equiv> tx_bytes (ln_area L) (ln_start L)"

abbreviation ln_calls :: "'k ffi \<Rightarrow> 'k lane \<Rightarrow> ('k world \<Rightarrow> 'k world) set" where
  "ln_calls F L \<equiv> tx_calls F (tx_q (ln_start L)) (comp_q (ln_start L))"

definition lane_calm :: "'k lane \<Rightarrow> 'k world \<Rightarrow> 'k world \<Rightarrow> bool" where
  "lane_calm L w w' \<longleftrightarrow> tx_calm (ln_tx L) (ln_comp L) (ln_bytes L) w w'"

text \<open>A thread about to send: its socket is ready and empty, and every frame holds the template.\<close>

definition lane_ready :: "'k ffi \<Rightarrow> crates \<Rightarrow> nat \<Rightarrow> u8 list \<Rightarrow> 'k lane \<Rightarrow> 'k world \<Rightarrow> bool" where
  "lane_ready F E fuel template L w \<longleftrightarrow>
     tx_ready F (ln_tx L) (ln_comp L) (ln_area L) fuel (ln_start L) w \<and> cur_batch_size (ln_start L) = 0 \<and>
     templated (ln_area L) template (ln_start L) w \<and> tx_room F (ln_start L) (length (ln_pkts L)) \<and>
     (\<forall>i \<in> set (ln_pkts L). tx_fits (E, length template, i) (ln_start L))"

text \<open>A call on one socket leaves another one's rings and frames alone, and no two share a frame.\<close>

definition lanes_apart :: "'k ffi \<Rightarrow> 'k lane \<Rightarrow> 'k lane \<Rightarrow> bool" where
  "lanes_apart F L L' \<longleftrightarrow>
     ln_bytes L \<inter> ln_bytes L' = {} \<and> (\<forall>f \<in> ln_calls F L. \<forall>w. pv_ok (ln_tx L') w \<longrightarrow> lane_calm L' w (f w))"

text \<open>The packets thread \<open>k\<close> hands to the kernel under a schedule.\<close>

fun handed_by ::
    "'k ffi \<Rightarrow> crates \<Rightarrow> nat \<Rightarrow> DevOpts \<Rightarrow> (nat \<times> u32 \<times> UmemConfig \<times> SocketConfig) list \<Rightarrow> 'k lane \<Rightarrow> nat \<Rightarrow>
     'k world event list \<Rightarrow> thread_state list \<Rightarrow> 'k world \<Rightarrow> u8 list list" where
  "handed_by F E fuel opts jobs L k [] sts w = []"
| "handed_by F E fuel opts jobs L k (Env f # es) sts w = handed_by F E fuel opts jobs L k es sts (f w)"
| "handed_by F E fuel opts jobs L k (Step j # es) sts w =
     (case thread_step F E fuel opts (jobs ! j) (sts ! j) w of
        Ret (st', w') \<Rightarrow>
          (if j = k then new_packets (ln_area L) (ln_tx L) w w' else []) @
          handed_by F E fuel opts jobs L k es (sts[j := st']) w'
      | _ \<Rightarrow> [])"

text \<open>
  The turns thread \<open>k\<close> gets when the kernel has completed everything it had submitted, and an
  upper bound of those it still needs.
\<close>

fun thread_tx :: "thread_state \<Rightarrow> XskTx option" where
  "thread_tx (TxSending xsk _ _) = Some (x2_tx xsk)"
| "thread_tx (TxDraining xsk) = Some (x2_tx xsk)"
| "thread_tx (Finished xsk) = Some (x2_tx xsk)"
| "thread_tx _ = None"

definition good_turn :: "'k lane \<Rightarrow> thread_state \<Rightarrow> 'k world \<Rightarrow> bool" where
  "good_turn L st w \<longleftrightarrow> (case thread_tx st of Some s \<Rightarrow> in_flight (ln_comp L) s w = {} | None \<Rightarrow> False)"

fun good_turns ::
    "'k ffi \<Rightarrow> crates \<Rightarrow> nat \<Rightarrow> DevOpts \<Rightarrow> (nat \<times> u32 \<times> UmemConfig \<times> SocketConfig) list \<Rightarrow> 'k lane \<Rightarrow> nat \<Rightarrow>
     'k world event list \<Rightarrow> thread_state list \<Rightarrow> 'k world \<Rightarrow> nat" where
  "good_turns F E fuel opts jobs L k [] sts w = 0"
| "good_turns F E fuel opts jobs L k (Env f # es) sts w = good_turns F E fuel opts jobs L k es sts (f w)"
| "good_turns F E fuel opts jobs L k (Step j # es) sts w =
     (case thread_step F E fuel opts (jobs ! j) (sts ! j) w of
        Ret (st', w') \<Rightarrow>
          (if j = k \<and> good_turn L (sts ! k) w then 1 else 0) + good_turns F E fuel opts jobs L k es (sts[j := st']) w'
      | _ \<Rightarrow> 0)"

fun turns_left :: "thread_state \<Rightarrow> nat" where
  "turns_left (TxSending _ _ rest) = length rest + 3"
| "turns_left (TxDraining xsk) = (if cur_batch_size (x2_tx xsk) = 0 then 1 else 2)"
| "turns_left _ = 0"

text \<open>What the kernel may do between the steps, and which threads a schedule may pick.\<close>

definition fair_event :: "'k lane list \<Rightarrow> 'k world event \<Rightarrow> bool" where
  "fair_event Ls e \<longleftrightarrow>
     (case e of
        Step k \<Rightarrow> k < length Ls
      | Env f \<Rightarrow> \<forall>L \<in> set Ls. \<forall>w. pv_ok (ln_tx L) w \<longrightarrow> lane_calm L w (f w))"

text \<open>
  The invariant of a thread: the packets accepted so far carry the numbers it is done with, in order,
  and are those handed over (\<open>out\<close>) and those waiting in the batch.
\<close>

definition lane_ok ::
    "'k ffi \<Rightarrow> crates \<Rightarrow> nat \<Rightarrow> u8 list \<Rightarrow> 'k lane \<Rightarrow> 'k world \<Rightarrow> thread_state \<Rightarrow> 'k world \<Rightarrow> u8 list list \<Rightarrow> bool" where
  "lane_ok F E fuel template L w0 st w out \<longleftrightarrow>
     (let m = ln_area L; T = ln_tx L; C = ln_comp L; s0 = ln_start L in
      case st of
        TxSending xsk len rest \<Rightarrow>
          (\<exists>sent acc. len = length template \<and> ln_pkts L = sent @ rest \<and>
             tx_run F fuel m T C s0 w0 (x2_tx xsk) w acc out \<and> list_all2 (numbered E template) sent acc \<and>
             templated m template (x2_tx xsk) w \<and> tx_room F (x2_tx xsk) (length rest))
      | TxDraining xsk \<Rightarrow>
          tx_core m (x2_tx xsk) \<and> tx_linked T C (x2_tx xsk) w \<and> tx_fixed s0 (x2_tx xsk) \<and>
          (cur_batch_size (x2_tx xsk) = 0 \<or> tx_inv m (x2_tx xsk)) \<and> drain_counts F T C (x2_tx xsk) w \<and>
          list_all2 (numbered E template) (ln_pkts L) (out @ batch_data (x2_tx xsk) w)
      | Finished xsk \<Rightarrow>
          tx_core m (x2_tx xsk) \<and> tx_linked T C (x2_tx xsk) w \<and> tx_fixed s0 (x2_tx xsk) \<and>
          outstanding_tx_frames (x2_tx xsk) = 0 \<and> list_all2 (numbered E template) (ln_pkts L) out
      | _ \<Rightarrow> False)"

section \<open>Steps of the others\<close>

lemma templated_calm:
  assumes "templated m template s w" "same_on (tx_bytes m s) w w'"
  shows "templated m template s w'"
proof -
  have "frame_region m s k w' = frame_region m s k w" if "k < length (tx_frames s)" for k
    using assms(2) chunk_in_bytes [OF that, of m] by (intro region_chunk) (auto simp: same_on_def)
  then show ?thesis using assms(1) by (simp add: templated_def)
qed

lemma batch_data_calm:
  assumes "cur_batch_size s = 0 \<or> tx_inv m s" "same_on (tx_bytes m s) w w'"
  shows "batch_data s w' = batch_data s w"
  using assms batch_data_kernel [of m s w w'] by (auto simp: batch_data_def)

text \<open>The facts every state of the invariant gives.\<close>

lemma lane_run:
  assumes ready: "lane_ready F E fuel template L w0"
    and run: "tx_run F fuel (ln_area L) (ln_tx L) (ln_comp L) (ln_start L) w0 s w acc out"
  shows "tx_inv (ln_area L) s" "tx_linked (ln_tx L) (ln_comp L) s w" "tx_fixed (ln_start L) s"
    "acc = out @ batch_data s w" "tx_bytes (ln_area L) s = ln_bytes L" "tx_accepted s = tx_accepted (ln_start L) + length acc"
proof -
  have R: "tx_platform F (tx_q (ln_start L)) (comp_q (ln_start L)) (ln_tx L) (ln_comp L) (ln_bytes L)"
      "tx_progress F (tx_q (ln_start L)) (ln_tx L) (batch_size (ln_start L)) fuel" "tx_inv (ln_area L) (ln_start L)"
      "tx_linked (ln_tx L) (ln_comp L) (ln_start L) w0" and idle: "cur_batch_size (ln_start L) = 0"
    using ready by (simp_all add: lane_ready_def tx_ready_def)
  note inv = tx_run_inv [OF run R]
  then show "tx_inv (ln_area L) s" "tx_linked (ln_tx L) (ln_comp L) s w" and fixed: "tx_fixed (ln_start L) s"
    and "tx_accepted s = tx_accepted (ln_start L) + length acc" by blast+
  show "acc = out @ batch_data s w" using inv idle by (simp add: batch_data_def)
  show "tx_bytes (ln_area L) s = ln_bytes L" using tx_fixed_bytes [OF fixed] .
qed

lemma lane_ok_linked:
  assumes "lane_ready F E fuel template L w0" "lane_ok F E fuel template L w0 st w out"
  shows "pv_ok (ln_tx L) w"
proof -
  have "\<exists>s. tx_linked (ln_tx L) (ln_comp L) s w"
    using assms(2) by (cases st) (auto simp: lane_ok_def Let_def dest: lane_run(2) [OF assms(1)])
  then show ?thesis by (auto simp: tx_linked_def)
qed

lemma lane_ok_calm:
  assumes ready: "lane_ready F E fuel template L w0" and ok: "lane_ok F E fuel template L w0 st w out"
    and calm: "lane_calm L w w'"
  shows "lane_ok F E fuel template L w0 st w' out"
proof -
  have same: "pv_ok (ln_tx L) w'" "tx_same (ln_tx L) (ln_bytes L) w w'" "comp_same (ln_comp L) (ln_bytes L) w w'"
      "same_on (ln_bytes L) w w'" using calm by (auto simp: lane_calm_def tx_calm_def tx_same_def)
  have linked: "tx_linked (ln_tx L) (ln_comp L) s w'" if "tx_linked (ln_tx L) (ln_comp L) s w" for s
    using tx_linked_calm [OF that] calm by (simp add: lane_calm_def)
  show ?thesis
  proof (cases st)
    case (TxSending xsk len rest)
    then obtain sent acc where st: "len = length template" "ln_pkts L = sent @ rest"
        "tx_run F fuel (ln_area L) (ln_tx L) (ln_comp L) (ln_start L) w0 (x2_tx xsk) w acc out"
        "list_all2 (numbered E template) sent acc" "templated (ln_area L) template (x2_tx xsk) w" "tx_room F (x2_tx xsk) (length rest)"
      using ok by (auto simp: lane_ok_def Let_def)
    note bytes = lane_run(5) [OF ready st(3)]
    have "tx_run F fuel (ln_area L) (ln_tx L) (ln_comp L) (ln_start L) w0 (x2_tx xsk) w' acc out"
      using run_kernel [OF st(3)] same bytes by simp
    moreover have "templated (ln_area L) template (x2_tx xsk) w'" using templated_calm [OF st(5)] same(4) bytes by simp
    ultimately show ?thesis using st TxSending by (auto simp: lane_ok_def Let_def)
  next
    case (TxDraining xsk)
    then have st: "tx_core (ln_area L) (x2_tx xsk)" "tx_linked (ln_tx L) (ln_comp L) (x2_tx xsk) w"
        "drain_counts F (ln_tx L) (ln_comp L) (x2_tx xsk) w" "tx_fixed (ln_start L) (x2_tx xsk)"
        "cur_batch_size (x2_tx xsk) = 0 \<or> tx_inv (ln_area L) (x2_tx xsk)"
      using ok by (simp_all add: lane_ok_def Let_def)
    have "batch_data (x2_tx xsk) w' = batch_data (x2_tx xsk) w"
      using batch_data_calm [OF st(5)] same(4) tx_fixed_bytes [OF st(4), of "ln_area L"] by simp
    then show ?thesis
      using ok TxDraining linked [OF st(2)] drain_counts_accepted [OF st(1,2), of F]
        drain_counts_accepted [OF st(1) linked [OF st(2)], of F] by (simp add: lane_ok_def Let_def)
  next
    case (Finished xsk)
    then show ?thesis using ok linked by (simp add: lane_ok_def Let_def)
  qed (use ok in \<open>simp_all add: lane_ok_def Let_def\<close>)
qed

lemma apart_calm:
  assumes ready: "lane_ready F E fuel template L w0" and apart: "lanes_apart F L' L"
    and via: "via (ln_calls F L' \<union> stores (ln_bytes L')) w w'" and ok: "pv_ok (ln_tx L) w"
  shows "lane_calm L w w'"
  using via
proof induction
  case via_refl
  then show ?case using ok by (simp add: lane_calm_def tx_calm_def)
next
  case (via_step w1 f)
  have ok1: "pv_ok (ln_tx L) w1" using via_step(3) by (simp add: lane_calm_def tx_calm_def)
  have "lane_calm L w1 (f w1)"
  proof (cases "f \<in> stores (ln_bytes L')")
    case True
    then have f: "kern (f w1) = kern w1" "\<And>a. a \<notin> ln_bytes L' \<Longrightarrow> mem (f w1) a = mem w1 a" by (simp_all add: stores_def)
    have "outside_umem (ln_tx L) (ln_comp L)" using ready by (auto simp: lane_ready_def tx_ready_def dest: tx_platformD(8))
    note same = outside_umemD [OF this f(1)]
    have "same_on (ln_bytes L) w1 (f w1)" using f(2) apart by (auto simp: same_on_def lanes_apart_def)
    then show ?thesis using same ok1 by (simp add: lane_calm_def tx_calm_def tx_same_def comp_same_def)
  next
    case False
    then show ?thesis using via_step(2) apart ok1 by (auto simp: lanes_apart_def)
  qed
  with via_step(3) show ?case unfolding lane_calm_def by (rule tx_calm_trans)
qed

section \<open>A step of its own\<close>

text \<open>One attempt to send, whether it succeeds or not, keeps the template in every frame.\<close>

lemma tx_attempt_templated:
  assumes ready: "tx_ready F T C m fuel s w" and fit: "tx_fits (E, length template, i) s" and templ: "templated m template s w"
  shows "\<exists>r s' w'. tx_attempt F fuel (E, length template, i) s w = Ret (r, s', w') \<and>
    (tx_fixed s s' \<longrightarrow> templated m template s' w')"
proof (cases "tx_cursor s \<in> in_flight C s w")
  case False
  then show ?thesis
    using tx_retry.accepted [OF ready fit False] templated_effect [OF templ _ fit] by blast
next
  case True
  obtain k s1 w1 where step: "complete_frames F s w = Ret (k, s1, w1)" "waited m T s w s1 w1"
      "onq (tx_frames s1) = in_flight C s w"
    using complete_step [OF ready] by blast
  have "tx_attempt F fuel (E, length template, i) s w = Ret (Inl NoFreeTxFrames, s1, w1)"
    using tx_retry.blocked [OF step(1)] step(2,3) True by (simp add: waited_def del: tx_attempt.simps)
  moreover have "templated m template s1 w1"
    using templ waited_region [OF step(2)] step(2) by (simp add: templated_def waited_def tx_fixed_def)
  ultimately show ?thesis by blast
qed

lemma lane_ready_run:
  assumes ready: "lane_ready F E fuel template L w0"
    and run: "tx_run F fuel (ln_area L) (ln_tx L) (ln_comp L) (ln_start L) w0 s w acc out" and room: "tx_room F s n"
  shows "tx_ready F (ln_tx L) (ln_comp L) (ln_area L) fuel s w"
proof -
  note R = lane_run [OF ready run]
  have "tx_ready F (ln_tx L) (ln_comp L) (ln_area L) fuel (ln_start L) w0" using ready by (simp add: lane_ready_def)
  from ready_moved [OF this R(3,1,2)] show ?thesis using tx_room_counts(1) [OF R(1,2) room] by blast
qed

definition steps_well ::
    "'k ffi \<Rightarrow> crates \<Rightarrow> nat \<Rightarrow> u8 list \<Rightarrow> 'k lane \<Rightarrow> 'k world \<Rightarrow> (thread_state \<times> 'k world) outcome \<Rightarrow> 'k world \<Rightarrow>
     u8 list list \<Rightarrow> bool" where
  "steps_well F E fuel template L w0 res w out \<longleftrightarrow>
     (\<exists>st' w'. res = Ret (st', w') \<and>
        lane_ok F E fuel template L w0 st' w' (out @ new_packets (ln_area L) (ln_tx L) w w') \<and>
        via (ln_calls F L \<union> stores (ln_bytes L)) w w')"

lemma lane_send_step:
  assumes ready: "lane_ready F E fuel template L w0"
    and ok: "lane_ok F E fuel template L w0 (TxSending xsk len (i # is)) w out"
  shows "steps_well F E fuel template L w0 (thread_step F E fuel opts job (TxSending xsk len (i # is)) w) w out"
proof -
  let ?m = "ln_area L" and ?T = "ln_tx L" and ?C = "ln_comp L" and ?s = "x2_tx xsk" and ?a = "(E, length template, i)"
  obtain sent acc where st: "len = length template" "ln_pkts L = sent @ i # is"
      "tx_run F fuel ?m ?T ?C (ln_start L) w0 ?s w acc out"
      "list_all2 (numbered E template) sent acc" "templated ?m template ?s w" "tx_room F ?s (Suc (length is))"
    using ok by (auto simp: lane_ok_def Let_def)
  note R = lane_run [OF ready st(3)] and now = lane_ready_run [OF ready st(3,6)]
  have fit: "tx_fits ?a ?s" using ready st(2) R(3) by (simp add: lane_ready_def tx_fixed_def)
  obtain r s' w' where att: "tx_attempt F fuel ?a ?s w = Ret (r, s', w')" and templ: "tx_fixed ?s s' \<longrightarrow> templated ?m template s' w'"
    using tx_attempt_templated [OF now fit st(5)] by blast
  have counts: "tx_counts F ?T ?C ?s w" using now by (simp add: tx_ready_def)
  let ?new = "case r of Inl _ \<Rightarrow> [] | Inr _ \<Rightarrow> [tx_packet ?m ?a ?s w]" and ?is = "case r of Inl _ \<Rightarrow> i # is | Inr _ \<Rightarrow> is"
  have run': "tx_run F fuel ?m ?T ?C (ln_start L) w0 s' w' (acc @ ?new) (out @ new_packets ?m ?T w w')"
    using tx_retry.run_step [OF st(3) counts fit att] .
  note R' = lane_run [OF ready run']
  have fixed: "tx_fixed ?s s'" using R(3) R'(3) by (simp add: tx_fixed_def)
  have op: "send_apply F fuel ?s (tx_closure (overflow_checks F) E len i) () w = Ret (r, s', (), w')"
    using att st(1) by (auto simp: bindO_Ret_iff split: prod.splits)
  have room: "tx_room F s' (length ?is)"
    using st(6) R(6) R'(6) fixed by (auto simp: tx_room_def tx_fixed_def split: sum.splits)
  have "tx_cursor ?s < length (tx_frames ?s)" using R(1) by (simp add: tx_inv_def)
  then have num: "numbered E template i (tx_packet ?m ?a ?s w)"
    unfolding tx_packet_def prod.case
    using st(5) by (intro stamp_numbered [OF fit]) (simp_all add: templated_def)
  have "\<exists>sent'. ln_pkts L = sent' @ ?is \<and> list_all2 (numbered E template) sent' (acc @ ?new)"
    using st(2,4) num by (cases r) (auto intro: exI [of _ "sent @ [i]"] list_all2_appendI)
  then have "lane_ok F E fuel template L w0 (TxSending (xsk\<lparr>x2_tx := s'\<rparr>) len ?is) w' (out @ new_packets ?m ?T w w')"
    using st(1) run' templ fixed room by (auto simp: lane_ok_def Let_def)
  moreover obtain bytes where "tx_closure (overflow_checks F) E len i () (cursor_region ?m ?s w) = Ret (len + 8, bytes, ())"
    using tx_closure_ok [OF fit, of "cursor_region ?m ?s w" "overflow_checks F"] st(1) by auto
  then have "via (ln_calls F L \<union> stores (ln_bytes L)) w w'"
    using send_apply_via [OF _ R(1,2) counts _ op] now R(3,5) by (auto simp: tx_ready_def tx_fixed_def)
  ultimately show ?thesis using op by (cases r) (auto simp: steps_well_def)
qed

lemma complete_frames_queues:
  "complete_frames F s w = Ret (k, s', w') \<Longrightarrow> tx_q s' = tx_q s \<and> comp_q s' = comp_q s"
  by (auto simp: complete_frames_def update_tx_frames_def Let_def bindO_Ret_iff split: prod.splits if_splits)

lemma lane_drain_step:
  assumes ready: "lane_ready F E fuel template L w0" and ok: "lane_ok F E fuel template L w0 (TxDraining xsk) w out"
  shows "steps_well F E fuel template L w0 (thread_step F E fuel opts job (TxDraining xsk) w) w out"
proof -
  let ?m = "ln_area L" and ?T = "ln_tx L" and ?C = "ln_comp L" and ?s = "x2_tx xsk"
  have st: "tx_core ?m ?s" "tx_linked ?T ?C ?s w" "cur_batch_size ?s = 0 \<or> tx_inv ?m ?s" "drain_counts F ?T ?C ?s w"
      "tx_fixed (ln_start L) ?s" "list_all2 (numbered E template) (ln_pkts L) (out @ batch_data ?s w)"
    using ok by (simp_all add: lane_ok_def Let_def)
  note bytes = tx_fixed_bytes [OF st(5), of ?m]
  have plat: "tx_platform F (tx_q ?s) (comp_q ?s) ?T ?C (tx_bytes ?m ?s)" "tx_progress F (tx_q ?s) ?T (batch_size ?s) fuel"
    using ready st(5) bytes by (simp_all add: lane_ready_def tx_ready_def tx_fixed_def)
  obtain s' w' where body: "drain_body F fuel ?s w = Ret (s', w')" "tx_core ?m s'" "tx_linked ?T ?C s' w'"
      "cur_batch_size s' = 0" "tx_fixed ?s s'" "tx_accepted s' = tx_accepted ?s" "new_packets ?m ?T w w' = batch_data ?s w"
    using drain_body_ok [OF plat(1) st(1-4) plat(2)] by blast
  have fixed: "tx_fixed (ln_start L) s'" using st(5) body(5) by (simp add: tx_fixed_def)
  have counts: "drain_counts F ?T ?C s' w'"
    using drain_counts_accepted [OF st(1,2), of F] drain_counts_accepted [OF body(2,3), of F] st(4) body(6) by simp
  obtain k s1 w1 where parts: "complete_frames F ?s w = Ret (k, s1, w1)" "put_batch_on_tx_queue F fuel s1 w1 = Ret (s', w')"
    using body(1) by (auto simp: drain_body_def bindO_Ret_iff split: prod.splits)
  have "via (ln_calls F L) w w'" 
    using complete_frames_via [OF parts(1)] put_batch_via [OF parts(2)] complete_frames_queues [OF parts(1)] st(5) via_trans
    by (auto simp: tx_fixed_def)
  then have "via (ln_calls F L \<union> stores (ln_bytes L)) w w'" by (rule via_mono) simp
  moreover have "batch_data s' w' = []" using body(4) by (simp add: batch_data_def)
  ultimately show ?thesis
    using body fixed counts st(6) by (auto simp: steps_well_def lane_ok_def Let_def)
qed

lemma lane_step:
  assumes ready: "lane_ready F E fuel template L w0" and ok: "lane_ok F E fuel template L w0 st w out"
  shows "steps_well F E fuel template L w0 (thread_step F E fuel opts job st w) w out"
proof (cases st)
  case (TxSending xsk len rest)
  show ?thesis
  proof (cases rest)
    case Nil
    then obtain acc where st: "tx_run F fuel (ln_area L) (ln_tx L) (ln_comp L) (ln_start L) w0 (x2_tx xsk) w acc out"
        "list_all2 (numbered E template) (ln_pkts L) acc" "tx_room F (x2_tx xsk) 0"
      using ok TxSending by (auto simp: lane_ok_def Let_def)
    note R = lane_run [OF ready st(1)]
    have core: "tx_core (ln_area L) (x2_tx xsk)" using R(1) by (simp add: tx_inv_def)
    have "lane_ok F E fuel template L w0 (TxDraining xsk) w out"
      using R tx_room_counts(2) [OF R(1,2) st(3)] st(2) core by (simp add: lane_ok_def Let_def)
    then show ?thesis by (simp add: TxSending Nil steps_well_def new_packets_def)
  next
    case (Cons i "is")
    then show ?thesis using lane_send_step [OF ready] ok TxSending by simp
  qed
next
  case (TxDraining xsk)
  then show ?thesis using lane_drain_step [OF ready] ok by simp
next
  case (Finished xsk)
  then show ?thesis using ok by (simp add: steps_well_def new_packets_def)
qed (use ok in \<open>simp_all add: lane_ok_def Let_def\<close>)

section \<open>Any schedule\<close>

definition lanes_ok ::
    "'k ffi \<Rightarrow> crates \<Rightarrow> nat \<Rightarrow> u8 list \<Rightarrow> 'k lane list \<Rightarrow> 'k world \<Rightarrow> thread_state list \<Rightarrow> 'k world \<Rightarrow> (nat \<Rightarrow> u8 list list) \<Rightarrow> bool" where
  "lanes_ok F E fuel template Ls w0 sts w outs \<longleftrightarrow>
     length sts = length Ls \<and> (\<forall>k < length Ls. lane_ok F E fuel template (Ls ! k) w0 (sts ! k) w (outs k))"

text \<open>A step of one thread is a step of its own for it and of its environment for the others.\<close>

lemma lanes_step:
  assumes ready: "\<forall>L \<in> set Ls. lane_ready F E fuel template L w0"
    and apart: "\<forall>j < length Ls. \<forall>k < length Ls. j \<noteq> k \<longrightarrow> lanes_apart F (Ls ! j) (Ls ! k)"
    and ok: "lanes_ok F E fuel template Ls w0 sts w outs" and j: "j < length Ls"
  shows "\<exists>st' w'. thread_step F E fuel opts job (sts ! j) w = Ret (st', w') \<and>
    lanes_ok F E fuel template Ls w0 (sts[j := st']) w'
      (\<lambda>k. outs k @ (if j = k then new_packets (ln_area (Ls ! k)) (ln_tx (Ls ! k)) w w' else []))"
proof -
  have each: "lane_ready F E fuel template (Ls ! k) w0" "lane_ok F E fuel template (Ls ! k) w0 (sts ! k) w (outs k)"
      if "k < length Ls" for k using ready ok that by (simp_all add: lanes_ok_def)
  obtain st' w' where step: "thread_step F E fuel opts job (sts ! j) w = Ret (st', w')"
      "lane_ok F E fuel template (Ls ! j) w0 st' w' (outs j @ new_packets (ln_area (Ls ! j)) (ln_tx (Ls ! j)) w w')"
      "via (ln_calls F (Ls ! j) \<union> stores (ln_bytes (Ls ! j))) w w'"
    using lane_step [OF each [OF j]] unfolding steps_well_def by blast
  have "lane_ok F E fuel template (Ls ! k) w0 (sts ! k) w' (outs k)" if k: "k < length Ls" "j \<noteq> k" for k
  proof (rule lane_ok_calm [OF each [OF k(1)]])
    have "lanes_apart F (Ls ! j) (Ls ! k)" using apart j k by blast
    then show "lane_calm (Ls ! k) w w'"
      using apart_calm [OF each(1) [OF k(1)] _ step(3)] lane_ok_linked [OF each [OF k(1)]] by blast
  qed
  then show ?thesis using step(1,2) ok by (auto simp: lanes_ok_def nth_list_update)
qed

lemma lanes_env:
  assumes ready: "\<forall>L \<in> set Ls. lane_ready F E fuel template L w0"
    and ok: "lanes_ok F E fuel template Ls w0 sts w outs" and calm: "fair_event Ls (Env f)"
  shows "lanes_ok F E fuel template Ls w0 sts (f w) outs"
proof -
  have "lane_ok F E fuel template (Ls ! k) w0 (sts ! k) (f w) (outs k)" if k: "k < length Ls" for k
  proof -
    have L: "lane_ready F E fuel template (Ls ! k) w0" "lane_ok F E fuel template (Ls ! k) w0 (sts ! k) w (outs k)"
      using ready ok k by (simp_all add: lanes_ok_def)
    have "lane_calm (Ls ! k) w (f w)" using calm k lane_ok_linked [OF L] by (simp add: fair_event_def)
    then show ?thesis by (rule lane_ok_calm [OF L])
  qed
  then show ?thesis using ok by (simp add: lanes_ok_def)
qed

lemma run_threads_ok:
  assumes ready: "\<forall>L \<in> set Ls. lane_ready F E fuel template L w0"
    and apart: "\<forall>j < length Ls. \<forall>k < length Ls. j \<noteq> k \<longrightarrow> lanes_apart F (Ls ! j) (Ls ! k)"
    and jobs: "length jobs = length Ls"
  shows "list_all (fair_event Ls) es \<Longrightarrow> lanes_ok F E fuel template Ls w0 sts w outs \<Longrightarrow>
    \<exists>sts' w'. run_threads F E fuel opts jobs es sts w = Ret (sts', w') \<and>
      lanes_ok F E fuel template Ls w0 sts' w' (\<lambda>k. outs k @ handed_by F E fuel opts jobs (Ls ! k) k es sts w)"
proof (induction es arbitrary: sts w outs)
  case Nil
  then show ?case by simp
next
  case (Cons e es)
  show ?case
  proof (cases e)
    case (Env f)
    then show ?thesis using Cons.IH [OF _ lanes_env [OF ready Cons.prems(2)]] Cons.prems(1) by simp
  next
    case (Step j)
    then have j: "j < length Ls" using Cons.prems(1) by (simp add: fair_event_def)
    obtain st' w' where step: "thread_step F E fuel opts (jobs ! j) (sts ! j) w = Ret (st', w')"
        "lanes_ok F E fuel template Ls w0 (sts[j := st']) w'
          (\<lambda>k. outs k @ (if j = k then new_packets (ln_area (Ls ! k)) (ln_tx (Ls ! k)) w w' else []))"
      using lanes_step [OF ready apart Cons.prems(2) j] by blast
    have "length sts = length Ls" using Cons.prems(2) by (simp add: lanes_ok_def)
    then show ?thesis using Cons.IH [OF _ step(2)] Cons.prems(1) step(1) j jobs by (simp add: Step)
  qed
qed

text \<open>Threads that have built and prefilled their sockets satisfy the invariant.\<close>

lemma lanes_start:
  assumes "\<forall>L \<in> set Ls. lane_ready F E fuel template L w" "length xsks = length Ls"
    and "\<forall>k < length Ls. x2_tx (xsks ! k) = ln_start (Ls ! k)"
  shows "lanes_ok F E fuel template Ls w
    (map2 (\<lambda>xsk L. TxSending xsk (length template) (ln_pkts L)) xsks Ls) w (\<lambda>_. [])"
  unfolding lanes_ok_def
proof (intro conjI allI impI)
  show "length (map2 (\<lambda>xsk L. TxSending xsk (length template) (ln_pkts L)) xsks Ls) = length Ls" using assms(2) by simp
  fix k assume "k < length Ls"
  then show "lane_ok F E fuel template (Ls ! k) w
      (map2 (\<lambda>xsk L. TxSending xsk (length template) (ln_pkts L)) xsks Ls ! k) w []"
    using assms run_start [of F fuel "ln_area (Ls ! k)" "ln_tx (Ls ! k)" "ln_comp (Ls ! k)" "ln_start (Ls ! k)" w]
    by (fastforce simp: lane_ok_def lane_ready_def Let_def)
qed

text \<open>What the invariant says of the packets handed over, and of a thread that has finished.\<close>

lemma handed_part:
  assumes "list_all2 P xs (out @ ys)"
  obtains sent more where "xs = sent @ more" "list_all2 P sent out"
  using assms that by (auto simp: list_all2_append2)

lemma lane_ok_handed:
  assumes "lane_ready F E fuel template L w0" "lane_ok F E fuel template L w0 st w out"
  shows "\<exists>sent rest. ln_pkts L = sent @ rest \<and> list_all2 (numbered E template) sent out \<and> (is_finished st \<longrightarrow> rest = [])"
proof (cases st)
  case (TxSending xsk len rest)
  then obtain sent acc where st: "ln_pkts L = sent @ rest" "list_all2 (numbered E template) sent acc"
      "tx_run F fuel (ln_area L) (ln_tx L) (ln_comp L) (ln_start L) w0 (x2_tx xsk) w acc out"
    using assms(2) by (auto simp: lane_ok_def Let_def)
  have "list_all2 (numbered E template) sent (out @ batch_data (x2_tx xsk) w)"
    using st(2) lane_run(4) [OF assms(1) st(3)] by simp
  from handed_part [OF this] obtain part more where "sent = part @ more" "list_all2 (numbered E template) part out" .
  then show ?thesis using st(1) TxSending by auto
next
  case (TxDraining xsk)
  then have "list_all2 (numbered E template) (ln_pkts L) (out @ batch_data (x2_tx xsk) w)"
    using assms(2) by (simp add: lane_ok_def Let_def)
  from handed_part [OF this] obtain part more where "ln_pkts L = part @ more" "list_all2 (numbered E template) part out" .
  then show ?thesis using TxDraining by auto
qed (use assms(2) in \<open>auto simp: lane_ok_def Let_def\<close>)

section \<open>Turns\<close>

lemma lane_send_turns:
  assumes ready: "lane_ready F E fuel template L w0"
    and ok: "lane_ok F E fuel template L w0 (TxSending xsk len (i # is)) w out"
    and step: "thread_step F E fuel opts job (TxSending xsk len (i # is)) w = Ret (st', w')"
  shows "turns_left st' \<le> length is + (if in_flight (ln_comp L) (x2_tx xsk) w = {} then 3 else 4)"
proof -
  obtain sent acc where st: "len = length template" "ln_pkts L = sent @ i # is"
      "tx_run F fuel (ln_area L) (ln_tx L) (ln_comp L) (ln_start L) w0 (x2_tx xsk) w acc out" "tx_room F (x2_tx xsk) (Suc (length is))"
    using ok by (auto simp: lane_ok_def Let_def)
  obtain r s1 where res: "send_apply F fuel (x2_tx xsk) (tx_closure (overflow_checks F) E len i) () w = Ret (r, s1, (), w')"
      "st' = TxSending (xsk\<lparr>x2_tx := s1\<rparr>) len (case r of Inr _ \<Rightarrow> is | Inl _ \<Rightarrow> i # is)"
    using step by (auto simp: bindO_Ret_iff split: prod.splits)
  have fit: "tx_fits (E, length template, i) (x2_tx xsk)"
    using ready st(2) lane_run(3) [OF ready st(3)] by (simp add: lane_ready_def tx_fixed_def)
  have "r = Inr ()" if "in_flight (ln_comp L) (x2_tx xsk) w = {}"
    using tx_retry.accepted [OF lane_ready_run [OF ready st(3,4)] fit] that st(1) res(1) by auto
  then show ?thesis using res(2) by (cases r) auto
qed

lemma lane_drain_turns:
  assumes ready: "lane_ready F E fuel template L w0" and ok: "lane_ok F E fuel template L w0 (TxDraining xsk) w out"
    and step: "thread_step F E fuel opts job (TxDraining xsk) w = Ret (st', w')"
  shows "turns_left st' \<le> (if in_flight (ln_comp L) (x2_tx xsk) w = {} \<and> cur_batch_size (x2_tx xsk) = 0 then 0 else 1)"
proof -
  let ?s = "x2_tx xsk" and ?m = "ln_area L" and ?T = "ln_tx L" and ?C = "ln_comp L"
  have st: "tx_core ?m ?s" "tx_linked ?T ?C ?s w" "cur_batch_size ?s = 0 \<or> tx_inv ?m ?s" "drain_counts F ?T ?C ?s w"
      "tx_fixed (ln_start L) ?s"
    using ok by (simp_all add: lane_ok_def Let_def)
  have plat: "tx_platform F (tx_q ?s) (comp_q ?s) ?T ?C (tx_bytes ?m ?s)" "tx_progress F (tx_q ?s) ?T (batch_size ?s) fuel"
    using ready st(5) tx_fixed_bytes [OF st(5), of ?m] by (simp_all add: lane_ready_def tx_ready_def tx_fixed_def)
  obtain s1 where body: "drain_body F fuel ?s w = Ret (s1, w')" "cur_batch_size s1 = 0"
      "st' = (if outstanding_tx_frames s1 = 0 then Finished (xsk\<lparr>x2_tx := s1\<rparr>) else TxDraining (xsk\<lparr>x2_tx := s1\<rparr>))"
    using drain_body_ok [OF plat(1) st(1-4) plat(2)] step by (auto simp: bindO_Ret_iff)
  have "outstanding_tx_frames s1 = 0" if gone: "in_flight ?C ?s w = {}" and idle: "cur_batch_size ?s = 0"
  proof -
    obtain ixs ff w1 where turn: "drain_body F fuel ?s w = Ret (completed ixs ff ?s, w1)"
        "completes ?T ?C (tx_bytes ?m ?s) ixs ?s w w1" "tx_core ?m (completed ixs ff ?s)"
      using drain_body_idle [OF plat(1) st(1,2) idle st(4)] .
    have "0 < unat (tx_frame_size ?s)" using st(1) by (simp add: tx_core_def tx_frames_inv_def)
    then have "onq (tx_frames (completed ixs ff ?s)) = {}"
      using in_flight_completes [OF turn(2)] gone by (simp add: onq_mark_free)
    then show ?thesis using turn(1,3) body(1) by (simp add: tx_core_def)
  qed
  then show ?thesis using body(2,3) by auto
qed

lemma lane_step_turns:
  assumes ready: "lane_ready F E fuel template L w0" and ok: "lane_ok F E fuel template L w0 st w out"
    and step: "thread_step F E fuel opts job st w = Ret (st', w')"
  shows "turns_left st' \<le> turns_left st - (if good_turn L st w then 1 else 0)"
proof (cases st)
  case (TxSending xsk len rest)
  show ?thesis
  proof (cases rest)
    case Nil
    then show ?thesis using step TxSending by auto
  next
    case (Cons i "is")
    then have st: "st = TxSending xsk len (i # is)" using TxSending by simp
    from lane_send_turns [OF ready ok [unfolded st] step [unfolded st]] show ?thesis by (auto simp: st good_turn_def split: if_splits)
  qed
next
  case (TxDraining xsk)
  from lane_drain_turns [OF ready ok [unfolded TxDraining] step [unfolded TxDraining]] show ?thesis
    by (auto simp: TxDraining good_turn_def split: if_splits)
next
  case (Finished xsk)
  then show ?thesis using step by auto
qed (use ok in \<open>simp_all add: lane_ok_def Let_def\<close>)

lemma run_threads_turns:
  assumes ready: "\<forall>L \<in> set Ls. lane_ready F E fuel template L w0"
    and apart: "\<forall>j < length Ls. \<forall>k < length Ls. j \<noteq> k \<longrightarrow> lanes_apart F (Ls ! j) (Ls ! k)"
    and jobs: "length jobs = length Ls" and k: "k < length Ls"
  shows "list_all (fair_event Ls) es \<Longrightarrow> lanes_ok F E fuel template Ls w0 sts w outs \<Longrightarrow>
    run_threads F E fuel opts jobs es sts w = Ret (sts', w') \<Longrightarrow>
    turns_left (sts' ! k) \<le> turns_left (sts ! k) - good_turns F E fuel opts jobs (Ls ! k) k es sts w"
proof (induction es arbitrary: sts w outs)
  case Nil
  then show ?case by simp
next
  case (Cons e es)
  show ?case
  proof (cases e)
    case (Env f)
    then show ?thesis using Cons.IH [OF _ lanes_env [OF ready Cons.prems(2)]] Cons.prems(1,3) by simp
  next
    case (Step j)
    then have j: "j < length Ls" "length sts = length Ls"
      using Cons.prems(1,2) by (simp_all add: fair_event_def lanes_ok_def)
    obtain st1 w1 where step: "thread_step F E fuel opts (jobs ! j) (sts ! j) w = Ret (st1, w1)"
        "lanes_ok F E fuel template Ls w0 (sts[j := st1]) w1
          (\<lambda>k. outs k @ (if j = k then new_packets (ln_area (Ls ! k)) (ln_tx (Ls ! k)) w w1 else []))"
      using lanes_step [OF ready apart Cons.prems(2) j(1)] by blast
    have "turns_left (sts' ! k) \<le> turns_left (sts[j := st1] ! k) - good_turns F E fuel opts jobs (Ls ! k) k es (sts[j := st1]) w1"
      using Cons.IH [OF _ step(2)] Cons.prems(1,3) step(1) j jobs by (simp add: Step)
    moreover have "turns_left (sts[j := st1] ! k) \<le> turns_left (sts ! k) - (if j = k \<and> good_turn (Ls ! k) (sts ! k) w then 1 else 0)"
    proof (cases "j = k")
      case True
      then show ?thesis
        using lane_step_turns [of F E fuel template "Ls ! k" w0 "sts ! k" w "outs k"] ready Cons.prems(2) step(1) j k
        by (simp add: lanes_ok_def)
    qed simp
    ultimately show ?thesis using step(1) by (simp add: Step)
  qed
qed

lemma no_turns_left:
  assumes "lane_ok F E fuel template L w0 st w out" "turns_left st = 0"
  shows "is_finished st"
  using assms by (cases st) (auto simp: lane_ok_def Let_def split: if_splits)

text \<open>On a kernel that has completed everything at every look, every turn counts.\<close>

fun is_step :: "nat \<Rightarrow> 'w event \<Rightarrow> bool" where
  "is_step k (Step j) \<longleftrightarrow> j = k"
| "is_step k (Env _) \<longleftrightarrow> False"

definition lane_prompt :: "'k lane \<Rightarrow> bool" where
  "lane_prompt L \<longleftrightarrow>
     (\<forall>s w. tx_fixed (ln_start L) s \<longrightarrow> tx_linked (ln_tx L) (ln_comp L) s w \<longrightarrow> in_flight (ln_comp L) s w = {})"

lemma prompt_turn:
  assumes "lane_ready F E fuel template L w0" "lane_prompt L" "lane_ok F E fuel template L w0 st w out"
  shows "good_turn L st w"
  using assms(2,3) lane_run(2,3) [OF assms(1)]
  by (cases st) (fastforce simp: lane_ok_def good_turn_def lane_prompt_def Let_def)+

lemma prompt_turns:
  assumes ready: "\<forall>L \<in> set Ls. lane_ready F E fuel template L w0"
    and apart: "\<forall>j < length Ls. \<forall>k < length Ls. j \<noteq> k \<longrightarrow> lanes_apart F (Ls ! j) (Ls ! k)"
    and k: "k < length Ls" "lane_prompt (Ls ! k)"
  shows "list_all (fair_event Ls) es \<Longrightarrow> lanes_ok F E fuel template Ls w0 sts w outs \<Longrightarrow>
    good_turns F E fuel opts jobs (Ls ! k) k es sts w = length (filter (is_step k) es)"
proof (induction es arbitrary: sts w outs)
  case Nil
  then show ?case by simp
next
  case (Cons e es)
  show ?case
  proof (cases e)
    case (Env f)
    then show ?thesis using Cons.IH [OF _ lanes_env [OF ready Cons.prems(2)]] Cons.prems(1) by simp
  next
    case (Step j)
    then have j: "j < length Ls" using Cons.prems(1) by (simp add: fair_event_def)
    obtain st1 w1 where step: "thread_step F E fuel opts (jobs ! j) (sts ! j) w = Ret (st1, w1)"
        "lanes_ok F E fuel template Ls w0 (sts[j := st1]) w1
          (\<lambda>k. outs k @ (if j = k then new_packets (ln_area (Ls ! k)) (ln_tx (Ls ! k)) w w1 else []))"
      using lanes_step [OF ready apart Cons.prems(2) j] by blast
    have "good_turn (Ls ! k) (sts ! k) w"
      using prompt_turn [of F E fuel template "Ls ! k" w0 "sts ! k" w "outs k"] ready k Cons.prems(2) by (simp add: lanes_ok_def)
    then show ?thesis using Cons.IH [OF _ step(2)] Cons.prems(1) step(1) by (simp add: Step)
  qed
qed

section \<open>The threads of the program\<close>

text \<open>
  The sending threads once each has built and prefilled its socket: one thread per queue, each about
  to send the numbers \<open>split_pkts\<close> gives it.
\<close>

definition side_by_side ::
    "'k ffi \<Rightarrow> crates \<Rightarrow> nat \<Rightarrow> DevOpts \<Rightarrow> u8 list \<Rightarrow> (nat \<times> u32 \<times> UmemConfig \<times> SocketConfig) list \<Rightarrow> 'k lane list \<Rightarrow>
     thread_state list \<Rightarrow> 'k world \<Rightarrow> bool" where
  "side_by_side F E fuel opts template jobs Ls sts w \<longleftrightarrow>
     spawn_jobs (abi F) opts = Ret jobs \<and> do_queues opts \<noteq> [] \<and> length Ls = length (do_queues opts) \<and>
     (\<forall>L \<in> set Ls. lane_ready F E fuel template L w) \<and>
     (\<forall>j < length Ls. \<forall>k < length Ls. j \<noteq> k \<longrightarrow> lanes_apart F (Ls ! j) (Ls ! k)) \<and>
     (\<forall>k < length Ls. split_pkts (do_n_pkts opts) k (length (do_queues opts)) = Ret (ln_pkts (Ls ! k))) \<and>
     (\<exists>xsks. length xsks = length Ls \<and> (\<forall>k < length Ls. x2_tx (xsks ! k) = ln_start (Ls ! k)) \<and>
        sts = map2 (\<lambda>xsk L. TxSending xsk (length template) (ln_pkts L)) xsks Ls)"

lemma side_by_sideD:
  assumes "side_by_side F E fuel opts template jobs Ls sts w"
  shows "length jobs = length Ls" "length Ls = length (do_queues opts)" "do_queues opts \<noteq> []"
    "\<forall>L \<in> set Ls. lane_ready F E fuel template L w"
    "\<forall>j < length Ls. \<forall>k < length Ls. j \<noteq> k \<longrightarrow> lanes_apart F (Ls ! j) (Ls ! k)"
    "\<And>k. k < length Ls \<Longrightarrow> ln_pkts (Ls ! k) = filter (\<lambda>i. i mod length (do_queues opts) = k) [0..<do_n_pkts opts]"
    "lanes_ok F E fuel template Ls w sts w (\<lambda>_. [])" "\<And>k. k < length Ls \<Longrightarrow> turns_left (sts ! k) = length (ln_pkts (Ls ! k)) + 3"
proof -
  show *: "length Ls = length (do_queues opts)" "do_queues opts \<noteq> []" "\<forall>L \<in> set Ls. lane_ready F E fuel template L w"
    "\<forall>j < length Ls. \<forall>k < length Ls. j \<noteq> k \<longrightarrow> lanes_apart F (Ls ! j) (Ls ! k)"
    using assms unfolding side_by_side_def by blast+
  show "length jobs = length Ls"
    using assms arg_cong [OF spawn_jobs_indices(1), of "abi F" opts jobs length] by (simp add: side_by_side_def)
  show "ln_pkts (Ls ! k) = filter (\<lambda>i. i mod length (do_queues opts) = k) [0..<do_n_pkts opts]" if "k < length Ls" for k
    using assms that split_pkts_eq [of "length (do_queues opts)" "do_n_pkts opts" k] *(2) by (auto simp: side_by_side_def)
  show "lanes_ok F E fuel template Ls w sts w (\<lambda>_. [])"
    using assms lanes_start [OF *(3)] unfolding side_by_side_def by blast
  show "turns_left (sts ! k) = length (ln_pkts (Ls ! k)) + 3" if "k < length Ls" for k
    using assms that unfolding side_by_side_def by auto
qed

lemma numbered_residues:
  assumes "0 < q" "\<And>k. k < q \<Longrightarrow> list_all2 P (filter (\<lambda>i. i mod q = k) [0..<n]) (out k)"
  shows "\<exists>nums. mset nums = mset [0..<n] \<and> list_all2 P nums (concat (map out [0..<q]))"
proof -
  have "list_all2 (list_all2 P) (map (\<lambda>k. filter (\<lambda>i. i mod q = k) [0..<n]) [0..<q]) (map out [0..<q])"
    using assms(2) by (simp add: list_all2_conv_all_nth [of "list_all2 P"])
  then have "list_all2 P (concat (map (\<lambda>k. filter (\<lambda>i. i mod q = k) [0..<n]) [0..<q])) (concat (map out [0..<q]))"
    by (rule concat_transfer [THEN rel_funD])
  then show ?thesis using residues_partition [OF assms(1), of "[0..<n]"] by blast
qed

end
