(* ===== verification/Loopback_Many.thy ===== *)
theory Loopback_Many
  imports Loopback_States Dev_Interleave
begin

text \<open>
  Several sockets on the reference platform: one copy of its rings per socket and one memory for
  all. Ring \<open>r\<close> of socket \<open>i\<close> is ring \<open>8 i + r\<close>. It shows that the hypotheses about
  threads that run side by side can hold.
\<close>

section \<open>Definitions\<close>

definition sock_at :: "nat \<Rightarrow> (nat \<Rightarrow> 'k) world \<Rightarrow> 'k world" where
  "sock_at i w = \<lparr>mem = mem w, kern = kern w i\<rparr>"

definition in_sock :: "nat \<Rightarrow> ('k world \<Rightarrow> 'k world) \<Rightarrow> (nat \<Rightarrow> 'k) world \<Rightarrow> (nat \<Rightarrow> 'k) world" where
  "in_sock i g w = (let w1 = g (sock_at i w) in \<lparr>mem = mem w1, kern = (kern w)(i := kern w1)\<rparr>)"

definition in_sock_ret :: "nat \<Rightarrow> ('k world \<Rightarrow> 'a \<times> 'k world) \<Rightarrow> (nat \<Rightarrow> 'k) world \<Rightarrow> 'a \<times> (nat \<Rightarrow> 'k) world" where
  "in_sock_ret i g w = (fst (g (sock_at i w)), in_sock i (\<lambda>w. snd (g w)) w)"

definition many :: "'k ffi \<Rightarrow> (nat \<Rightarrow> 'k) ffi" where
  "many F = \<lparr>overflow_checks = overflow_checks F, abi = abi F,
     xsk_ring_prod__reserve = (\<lambda>r nb i. in_sock_ret (r div 8) (xsk_ring_prod__reserve F (r mod 8) nb i)),
     xsk_ring_prod__fill_addr = (\<lambda>r i a. in_sock (r div 8) (xsk_ring_prod__fill_addr F (r mod 8) i a)),
     xsk_ring_prod__tx_desc = (\<lambda>r i d. in_sock (r div 8) (xsk_ring_prod__tx_desc F (r mod 8) i d)),
     xsk_ring_prod__submit = (\<lambda>r nb. in_sock (r div 8) (xsk_ring_prod__submit F (r mod 8) nb)),
     xsk_ring_prod__needs_wakeup = (\<lambda>r w. xsk_ring_prod__needs_wakeup F (r mod 8) (sock_at (r div 8) w)),
     xsk_ring_cons__peek = (\<lambda>r nb i. in_sock_ret (r div 8) (xsk_ring_cons__peek F (r mod 8) nb i)),
     xsk_ring_cons__comp_addr = (\<lambda>r i w. xsk_ring_cons__comp_addr F (r mod 8) i (sock_at (r div 8) w)),
     xsk_ring_cons__rx_desc = (\<lambda>r i w. xsk_ring_cons__rx_desc F (r mod 8) i (sock_at (r div 8) w)),
     xsk_ring_cons__release = (\<lambda>r nb. in_sock (r div 8) (xsk_ring_cons__release F (r mod 8) nb)),
     libc_poll = (\<lambda>c t. in_sock_ret (nat (pf_fd c) div 8) (libc_poll F c t)),
     libc_sendto = (\<lambda>fd. in_sock_ret (nat fd div 8) (libc_sendto F fd)), libc_errno = (\<lambda>w. libc_errno F (sock_at 0 w)),
     libc_mmap = (\<lambda>len prot flags. in_sock_ret 0 (libc_mmap F len prot flags)),
     libc_munmap = (\<lambda>p len. in_sock_ret 0 (libc_munmap F p len)),
     xsk_umem__create = (\<lambda>p len cfg. in_sock_ret 0 (xsk_umem__create F p len cfg)),
     xsk_umem__delete = (\<lambda>u. in_sock_ret 0 (xsk_umem__delete F u)),
     xsk_socket__create = (\<lambda>name q u cfg. in_sock_ret 0 (xsk_socket__create F name q u cfg)),
     xsk_socket__fd = (\<lambda>s w. xsk_socket__fd F s (sock_at 0 w)),
     xsk_socket__delete = (\<lambda>s. in_sock 0 (xsk_socket__delete F s)),
     instant_now = (\<lambda>w. instant_now F (sock_at 0 w)), read_to_string = (\<lambda>path w. read_to_string F path (sock_at 0 w))\<rparr>"

definition prod_at :: "nat \<Rightarrow> ('k, 'e) prod_view \<Rightarrow> (nat \<Rightarrow> 'k, 'e) prod_view" where
  "prod_at i V = \<lparr>pv_ok = \<lambda>w. pv_ok V (sock_at i w), pv_free = \<lambda>w. pv_free V (sock_at i w),
     pv_resv = \<lambda>w. pv_resv V (sock_at i w), pv_slot = \<lambda>w. pv_slot V (sock_at i w), pv_subm = \<lambda>w. pv_subm V (sock_at i w)\<rparr>"

definition cons_at :: "nat \<Rightarrow> ('k, 'e) cons_view \<Rightarrow> (nat \<Rightarrow> 'k, 'e) cons_view" where
  "cons_at i V = \<lparr>cv_ok = \<lambda>w. cv_ok V (sock_at i w), cv_pend = \<lambda>w. cv_pend V (sock_at i w),
     cv_peek = \<lambda>w. cv_peek V (sock_at i w), cv_taken = \<lambda>w. cv_taken V (sock_at i w)\<rparr>"

text \<open>Socket \<open>i\<close> with its own area, and the thread that sends on it.\<close>

definition many_tq :: "nat \<Rightarrow> TxQueue" where
  "many_tq i = lb_tq\<lparr>tq_inner := 8 * i + 4, tq_fd := Fd_new lb_abi (8 * int i + 5)\<rparr>"

definition many_cq :: "nat \<Rightarrow> CompQueue" where
  "many_cq i = lb_cq\<lparr>cq_inner := 8 * i + 2\<rparr>"

definition many_area :: "nat \<Rightarrow> MmapArea" where
  "many_area i = \<lparr>area_len = 8192, mem_ptr = 4096 + 8192 * i\<rparr>"

definition many_world :: "(nat \<Rightarrow> lb) world" where
  "many_world = \<lparr>mem = (\<lambda>_. 0), kern = (\<lambda>_. lb_kern True)\<rparr>"

definition many_tx :: "nat \<Rightarrow> XskTx" where
  "many_tx i = XskTx_new (many (loopback True)) (many_tq i) (many_cq i)
     (take 2 (umem_frames (many_area i) lb_uc 1792)) 2048 1 many_world"

definition many_lane :: "nat \<Rightarrow> u64 list \<Rightarrow> (nat \<Rightarrow> lb) lane" where
  "many_lane i pkts = \<lparr>ln_area = many_area i, ln_tx = prod_at i (lb_T True), ln_comp = cons_at i (lb_C True),
     ln_start = many_tx i, ln_pkts = pkts\<rparr>"

section \<open>One socket of many\<close>

lemma sock_simps [simp]:
  "mem (sock_at i w) = mem w" "kern (sock_at i w) = kern w i" "mem (in_sock i g w) = mem (g (sock_at i w))"
  "sock_at i (in_sock i g w) = g (sock_at i w)" "fst (in_sock_ret i h w) = fst (h (sock_at i w))"
  "snd (in_sock_ret i h w) = in_sock i (\<lambda>w. snd (h w)) w"
  by (simp_all add: sock_at_def in_sock_def in_sock_ret_def Let_def)

lemma in_sock_same [simp]: "in_sock i (\<lambda>w. w) w = w"
  by (simp add: sock_at_def in_sock_def Let_def)

lemma in_sock_other: "i \<noteq> j \<Longrightarrow> mem (g (sock_at i w)) = mem w \<Longrightarrow> sock_at j (in_sock i g w) = sock_at j w"
  by (simp add: sock_at_def in_sock_def Let_def)

lemma in_sock_ret_iff: "in_sock_ret i h w = (x, w') \<longleftrightarrow> x = fst (h (sock_at i w)) \<and> w' = in_sock i (\<lambda>w. snd (h w)) w"
  by (auto simp: in_sock_ret_def)

lemma view_simps [simp]:
  "pv_ok (prod_at i V) w = pv_ok V (sock_at i w)" "pv_free (prod_at i V) w = pv_free V (sock_at i w)"
  "pv_resv (prod_at i V) w = pv_resv V (sock_at i w)" "pv_slot (prod_at i V) w = pv_slot V (sock_at i w)"
  "pv_subm (prod_at i V) w = pv_subm V (sock_at i w)" "pv_index (prod_at i V) w = pv_index V (sock_at i w)"
  "cv_ok (cons_at i U) w = cv_ok U (sock_at i w)" "cv_pend (cons_at i U) w = cv_pend U (sock_at i w)"
  "cv_peek (cons_at i U) w = cv_peek U (sock_at i w)" "cv_taken (cons_at i U) w = cv_taken U (sock_at i w)"
  "cv_index (cons_at i U) w = cv_index U (sock_at i w)"
  by (simp_all add: prod_at_def cons_at_def fun_eq_iff pv_index_def cv_index_def)

lemma ring_number: "r < 8 \<Longrightarrow> (8 * i + r) div 8 = i \<and> (8 * i + r) mod 8 = (r :: nat)"
  by simp

lemma many_prod_ring:
  assumes "prod_ring F r (xsk_ring_prod__tx_desc F r) V" "r < 8"
  shows "prod_ring (many F) (8 * i + r) (xsk_ring_prod__tx_desc (many F) (8 * i + r)) (prod_at i V)"
proof -
  note laws = prod_ringD [OF assms(1)]
  have "reserve_law (many F) (8 * i + r) (prod_at i V)"
    unfolding reserve_law_def
  proof (intro allI impI)
    fix w nb idx cnt j w'
    assume "pv_ok (prod_at i V) w" "pv_resv (prod_at i V) w = 0" "0 < nb"
      "xsk_ring_prod__reserve (many F) (8 * i + r) nb idx w = ((cnt, j), w')"
    then have "pv_ok V (sock_at i w)" "pv_resv V (sock_at i w) = 0" "0 < nb"
        "xsk_ring_prod__reserve F r nb idx (sock_at i w) = ((cnt, j), sock_at i w')"
      using assms(2) by (auto simp: many_def in_sock_ret_iff prod_eq_iff)
    with laws(1) show "pv_ok (prod_at i V) w' \<and> pv_subm (prod_at i V) w' = pv_subm (prod_at i V) w \<and>
        pv_resv (prod_at i V) w' = cnt \<and>
        (if nb \<le> pv_free (prod_at i V) w then cnt = nb \<and> j = pv_index (prod_at i V) w 0 else cnt = 0)"
      unfolding reserve_law_def view_simps by blast
  qed
  moreover have "put_law (xsk_ring_prod__tx_desc (many F) (8 * i + r)) (prod_at i V)"
    using laws(2) assms(2) by (simp add: put_law_def many_def Let_def)
  moreover have "submit_law (many F) (8 * i + r) (prod_at i V)"
    using laws(3) assms(2) by (simp add: submit_law_def many_def Let_def)
  ultimately show ?thesis by (simp add: prod_ring_def)
qed

lemma many_cons_ring:
  assumes "cons_ring F r (xsk_ring_cons__comp_addr F r) V" "r < 8"
  shows "cons_ring (many F) (8 * i + r) (xsk_ring_cons__comp_addr (many F) (8 * i + r)) (cons_at i V)"
proof -
  note laws = cons_ringD [OF assms(1)]
  have "peek_law (many F) (8 * i + r) (xsk_ring_cons__comp_addr (many F) (8 * i + r)) (cons_at i V)"
    unfolding peek_law_def
  proof (intro allI impI)
    fix w nb idx cnt j w'
    assume "cv_ok (cons_at i V) w" "cv_peek (cons_at i V) w = 0"
      and peek: "xsk_ring_cons__peek (many F) (8 * i + r) nb idx w = ((cnt, j), w')"
    then have h: "cv_ok V (sock_at i w)" "cv_peek V (sock_at i w) = 0"
        "xsk_ring_cons__peek F r nb idx (sock_at i w) = ((cnt, j), sock_at i w')"
      using assms(2) by (auto simp: many_def in_sock_ret_iff prod_eq_iff)
    have get: "xsk_ring_cons__comp_addr (many F) (8 * i + r) x w' = xsk_ring_cons__comp_addr F r x (sock_at i w')" for x
      using assms(2) by (simp add: many_def)
    note P = peek_lawD [OF laws(1) h]
    show "cv_ok (cons_at i V) w' \<and> cv_taken (cons_at i V) w' = cv_taken (cons_at i V) w \<and>
        cv_peek (cons_at i V) w' = cnt \<and> cnt = min nb (length (cv_pend (cons_at i V) w)) \<and>
        (0 < cnt \<longrightarrow> j = cv_index (cons_at i V) w 0) \<and> cnt \<le> length (cv_pend (cons_at i V) w') \<and>
        take cnt (cv_pend (cons_at i V) w') = take cnt (cv_pend (cons_at i V) w) \<and>
        (\<forall>k < cnt. xsk_ring_cons__comp_addr (many F) (8 * i + r) (cv_index (cons_at i V) w k) w' = cv_pend (cons_at i V) w ! k)"
      unfolding view_simps get using P(1,2,3,5-8) by (intro conjI P(4)) blast+
  qed
  moreover have "release_law (many F) (8 * i + r) (cons_at i V)"
    using laws(2) assms(2) by (simp add: release_law_def many_def Let_def)
  ultimately show ?thesis by (simp add: cons_ring_def)
qed

lemma many_queues [simp]:
  "tq_inner (many_tq i) = 8 * i + 4" "fd_id (tq_fd (many_tq i)) = 8 * int i + 5" "cq_inner (many_cq i) = 8 * i + 2"
  by (simp_all add: many_tq_def many_cq_def Fd_new_def)

text \<open>The calls on socket \<open>i\<close> are those on one socket, made on its rings.\<close>

lemma image_all: "f ` {h x |x. True} = {f (h x) |x. True}" "f ` {g x y |x y. True} = {f (g x y) |x y. True}"
  by blast+

lemma many_prod_ops:
  "r < 8 \<Longrightarrow> prod_ops (many F) (8 * i + r) (xsk_ring_prod__tx_desc (many F) (8 * i + r)) =
     in_sock i ` prod_ops F r (xsk_ring_prod__tx_desc F r)"
  unfolding prod_ops_def image_Un image_all by (simp add: many_def)

lemma many_cons_ops: "r < 8 \<Longrightarrow> cons_ops (many F) (8 * i + r) = in_sock i ` cons_ops F r"
  unfolding cons_ops_def image_Un image_all by (simp add: many_def)

lemma many_calls:
  "tx_calls (many (loopback chk)) (many_tq i) (many_cq i) = in_sock i ` tx_calls (loopback chk) lb_tq lb_cq"
proof -
  have "nat (8 * int i + 5) div 8 = i" by (simp add: nat_add_distrib nat_mult_distrib)
  then have "(\<lambda>w. snd (libc_sendto (many (loopback chk)) (8 * int i + 5) w)) =
      in_sock i (\<lambda>w. snd (libc_sendto (loopback chk) (fd_id (tq_fd lb_tq)) w))"
    by (simp add: many_def loopback_def fun_eq_iff)
  then show ?thesis
    using many_prod_ops [of 4 "loopback chk" i] many_cons_ops [of 2 "loopback chk" i]
    by (simp add: tx_calls_def tx_ops_def comp_ops_def image_Un lb_tq_def lb_cq_def)
qed

lemma lb_calls_mem: "g \<in> tx_calls (loopback chk) lb_tq lb_cq \<Longrightarrow> mem (g w) = mem w"
  by (auto simp: tx_calls_def tx_ops_def comp_ops_def prod_ops_def cons_ops_def lb_sel lb_ops Let_def)

lemma many_tx_platform: "tx_platform (many (loopback chk)) (many_tq i) (many_cq i) (prod_at i (lb_T pr)) (cons_at i (lb_C pr)) K"
proof -
  note plat = tx_platformD [OF lb_tx_platform [of chk pr K]]
  have ops: "tx_ops (many (loopback chk)) (many_tq i) = in_sock i ` tx_ops (loopback chk) lb_tq"
      "comp_ops (many (loopback chk)) (many_cq i) = in_sock i ` comp_ops (loopback chk) lb_cq"
    using many_prod_ops [of 4 "loopback chk" i] many_cons_ops [of 2 "loopback chk" i]
    by (simp_all add: tx_ops_def comp_ops_def lb_tq_def lb_cq_def)
  show ?thesis
    unfolding tx_platform_def
  proof (intro conjI allI)
    show "tx_contract (many (loopback chk)) (many_tq i) (prod_at i (lb_T pr))"
      using many_prod_ring [of "loopback chk" 4 "lb_T pr" i] lb_tx_contract [of chk pr] by (simp add: tx_contract_def lb_tq_def)
    show "comp_contract (many (loopback chk)) (many_cq i) (cons_at i (lb_C pr))"
      using many_cons_ring [of "loopback chk" 2 "lb_C pr" i] lb_comp_contract [of chk pr] by (simp add: comp_contract_def lb_cq_def)
    show "cv_ok (cons_at i (lb_C pr)) = pv_ok (prod_at i (lb_T pr))" by (simp add: fun_eq_iff lb_T_def lb_C_def)
    show "keeps (pv_ok (prod_at i (lb_T pr))) (comp_same (cons_at i (lb_C pr)) K w) (tx_ops (many (loopback chk)) (many_tq i))" for w
      using plat(4) [of "sock_at i w"] unfolding ops by (simp add: keeps_def comp_same_def same_on_def)
    show "keeps (pv_ok (prod_at i (lb_T pr))) (tx_same (prod_at i (lb_T pr)) K w) (comp_ops (many (loopback chk)) (many_cq i))" for w
      using plat(5) [of "sock_at i w"] unfolding ops by (simp add: keeps_def tx_same_def same_on_def)
    show "wakeup_law (many (loopback chk)) (many_tq i) (prod_at i (lb_T pr)) (cons_at i (lb_C pr)) K"
      by (auto simp: wakeup_law_def many_def in_sock_ret_def tx_same_def comp_same_def same_on_def loopback_def)
    show "completion_law (prod_at i (lb_T pr)) (cons_at i (lb_C pr))"
      using lb_completion [of pr] by (simp add: completion_law_def)
    show "outside_umem (prod_at i (lb_T pr)) (cons_at i (lb_C pr))"
      by (simp add: outside_umem_def lb_sel)
  qed
qed

lemma many_apart:
  assumes "i \<noteq> j"
  shows "lanes_apart (many (loopback True)) (many_lane i ps) (many_lane j qs)"
proof -
  have "tx_bytes (many_area i) (many_tx i) \<inter> tx_bytes (many_area j) (many_tx j) = {}"
    using assms by (auto simp: tx_bytes_def many_area_def many_tx_def XskTx_new_def umem_frames_def)
  moreover have "lane_calm (many_lane j qs) w (f w)"
    if f: "f \<in> tx_calls (many (loopback True)) (many_tq i) (many_cq i)" and ok: "pv_ok (ln_tx (many_lane j qs)) w" for f w
  proof -
    obtain g where g: "f = in_sock i g" "mem (g (sock_at i w)) = mem w"
      using f lb_calls_mem unfolding many_calls by fastforce
    note same = in_sock_other [of i j g w, OF assms g(2)]
    show ?thesis using ok g(2) by (simp add: lane_calm_def tx_calm_def many_lane_def g(1) same tx_same_def comp_same_def same_on_def)
  qed
  moreover have "ln_calls (many (loopback True)) (many_lane i ps) = tx_calls (many (loopback True)) (many_tq i) (many_cq i)"
    by (simp add: many_lane_def many_tx_def XskTx_new_def)
  ultimately show ?thesis by (simp add: lanes_apart_def many_lane_def)
qed

lemma many_tx_fields [simp]:
  "tx_q (many_tx i) = many_tq i" "comp_q (many_tx i) = many_cq i"
  "tx_frames (many_tx i) = [frame_at (many_area i) 2048 1792 0, frame_at (many_area i) 2048 1792 1]"
  "tx_cursor (many_tx i) = 0" "cur_batch_size (many_tx i) = 0" "batch_size (many_tx i) = 1"
  "tx_frame_size (many_tx i) = 2048" "outstanding_tx_frames (many_tx i) = 0"
  "pkts_tx (tx_stats (many_tx i)) = 0" "pkts_tx_completed (tx_stats (many_tx i)) = 0"
  by (simp_all add: many_tx_def XskTx_new_def umem_frames_def upt_rec TxStats_new_def)

lemma many_ready:
  assumes "0 < fuel" "le_law E" "8 \<le> n" "n + 8 \<le> 2048" "\<forall>i \<in> set ps. i < 2 ^ 64" "length ps < 1000"
  shows "lane_ready (many (loopback True)) E fuel (replicate n 0) (many_lane i ps) many_world"
proof -
  let ?T = "prod_at i (lb_T True)" and ?C = "cons_at i (lb_C True)"
  have onq: "onq (tx_frames (many_tx i)) = {}" by (auto simp: onq_def nth_Cons split: nat.splits)
  have kern: "kern many_world i = lb_kern True" by (simp add: many_world_def)
  have "tx_inv (many_area i) (many_tx i)"
    using XskTx_new_inv [of "many_area i" lb_uc 1792 2 1 "many (loopback True)" "many_tq i" "many_cq i" many_world]
    by (simp add: many_tx_def many_area_def)
  moreover have "tx_linked ?T ?C (many_tx i) many_world"
    using onq by (simp add: tx_linked_def lb_T_def lb_C_def lb_tx_ok_def lb_kern_def kern)
  moreover have "tx_counts (many (loopback True)) ?T ?C (many_tx i) many_world"
    by (simp add: tx_counts_def idx_room_def lb_T_def lb_C_def lb_kern_def kern)
  moreover have "tx_progress (many (loopback True)) (many_tq i) ?T 1 fuel"
    using assms(1) unfolding tx_progress_def by (auto simp: lb_T_def lb_cap_def intro!: exI [of _ 0])
  ultimately have "tx_ready (many (loopback True)) ?T ?C (many_area i) fuel (many_tx i) many_world"
    using many_tx_platform by (simp add: tx_ready_def)
  moreover have "templated (many_area i) (replicate n 0) (many_tx i) many_world"
    using assms(4) by (simp add: templated_def frame_region_def bytes_at_def many_world_def take_map map_replicate_const)
  ultimately show ?thesis
    using assms(2-6) by (simp add: lane_ready_def many_lane_def tx_room_def tx_accepted_def idx_room_def)
qed

lemma many_prompt: "lane_prompt (many_lane i ps)"
  unfolding lane_prompt_def
proof (intro allI impI)
  fix s and w :: "(nat \<Rightarrow> lb) world"
  assume fixed: "tx_fixed (ln_start (many_lane i ps)) s" and link: "tx_linked (ln_tx (many_lane i ps)) (ln_comp (many_lane i ps)) s w"
  let ?s = "s\<lparr>comp_q := lb_cq\<rparr>"
  have "length (tx_frames ?s) = 2" "comp_q ?s = lb_cq" using fixed by (simp_all add: many_lane_def tx_fixed_def)
  moreover have "tx_linked (lb_T True) (lb_C True) ?s (sock_at i w)" using link by (simp add: many_lane_def tx_linked_def)
  ultimately obtain j where "j < 1" "settled (lb_C True) ((drain_turn (loopback True) ^^ j) (?s, sock_at i w))"
    using lb_comp_progress [of 2 1 True] unfolding comp_progress_def by (auto simp: lb_cap_def)
  then show "in_flight (ln_comp (many_lane i ps)) s w = {}" by (simp add: settled_def many_lane_def in_flight_def)
qed

section \<open>Two threads\<close>

definition many_opts :: DevOpts where
  "many_opts = \<lparr>do_dev = ''veth0'', do_src_mac = ''02:00:00:00:00:01'', do_dest_mac = ''02:00:00:00:00:02'',
     do_src_ip = ''10.0.0.1'', do_src_port = 1000, do_dest_ip = ''10.0.0.2'', do_dest_port = 2000, do_verbose = 0,
     do_mode = ModeTx, do_n_pkts = 5, do_queues = [0, 1], do_bind_option = BindCopy, do_socket_option = SocketSkb,
     do_timeout_sec = None, do_xdp_queue_size = 8, do_batch_size = 1\<rparr>"

definition two_lanes :: "(nat \<Rightarrow> lb) lane list" where
  "two_lanes = [many_lane 0 [0, 2, 4], many_lane 1 [1, 3]]"

definition two_threads :: "thread_state list" where
  "two_threads =
     [TxSending ((lb_xsk 1)\<lparr>x2_tx := many_tx 0\<rparr>) 16 [0, 2, 4], TxSending ((lb_xsk 1)\<lparr>x2_tx := many_tx 1\<rparr>) 16 [1, 3]]"

lemma two_side_by_side:
  assumes "0 < fuel" "le_law E"
  shows "\<exists>jobs. side_by_side (many (loopback True)) E fuel many_opts (replicate 16 0) jobs two_lanes two_threads many_world"
proof -
  have "is_pow_of_two (8 div 2)" by (simp add: is_pow_of_two_def)
  then obtain jobs where jobs: "spawn_jobs (abi (many (loopback True))) many_opts = Ret jobs"
    by (simp add: spawn_jobs_def many_opts_def build_config_eq many_def loopback_def lb_abi_def Let_def)
  let ?xsks = "[(lb_xsk 1)\<lparr>x2_tx := many_tx 0\<rparr>, (lb_xsk 1)\<lparr>x2_tx := many_tx 1\<rparr>]"
  have "lane_ready (many (loopback True)) E fuel (replicate 16 0) L many_world" if "L \<in> set two_lanes" for L
    using that many_ready [OF assms, of 16] by (auto simp: two_lanes_def)
  moreover have "lanes_apart (many (loopback True)) (two_lanes ! j) (two_lanes ! k)" if "j < 2" "k < 2" "j \<noteq> k" for j k
    using that many_apart [of 0 1] many_apart [of 1 0] by (auto simp: two_lanes_def less_2_cases_iff)
  moreover have "split_pkts 5 k 2 = Ret (ln_pkts (two_lanes ! k))" if "k < 2" for k
    using that by (auto simp: two_lanes_def many_lane_def split_pkts_eq less_2_cases_iff upt_rec)
  moreover have "two_threads = map2 (\<lambda>xsk L. TxSending xsk (length (replicate 16 (0 :: u8))) (ln_pkts L)) ?xsks two_lanes"
      "\<forall>k < 2. x2_tx (?xsks ! k) = ln_start (two_lanes ! k)"
    by (auto simp: two_threads_def two_lanes_def many_lane_def less_2_cases_iff)
  moreover have "length two_lanes = 2" "length ?xsks = 2" by (simp_all add: two_lanes_def)
  moreover have "length (do_queues many_opts) = 2" "do_queues many_opts \<noteq> []" "do_n_pkts many_opts = 5"
    by (simp_all add: many_opts_def)
  ultimately show ?thesis
    using jobs unfolding side_by_side_def by (intro exI [of _ jobs] conjI exI [of _ ?xsks]) auto
qed

end
