(* ===== verification/Thread_Props.thy ===== *)
theory Thread_Props
  imports Loopback_Many Example_Crates
begin

text \<open>
  The properties of the threads of \<^verbatim>\<open>src/examples/dev_to_dev.rs\<close>: sending threads that run
  side by side do not get in each other's way, and they finish.
\<close>

section \<open>Side by side\<close>

text \<open>
  C17: The sending threads may be scheduled in any order, with anything the kernel does in between:
  none of them panics, and at every moment the packets a thread has handed over carry, in order, the
  first of its numbers. Once all threads have finished, the packets handed over by all of them
  together carry the numbers below \<open>n_pkts\<close>, each exactly once. The sockets are apart: a call on
  one leaves the rings and the frames of the others alone.
\<close>

theorem threads_send_all:
  assumes "side_by_side F E fuel opts template jobs Ls sts w" "list_all (fair_event Ls) es"
    and "out = (\<lambda>k. handed_by F E fuel opts jobs (Ls ! k) k es sts w)"
  shows "\<exists>sts' w'. run_threads F E fuel opts jobs es sts w = Ret (sts', w') \<and>
    (\<forall>k < length Ls. \<exists>sent rest. ln_pkts (Ls ! k) = sent @ rest \<and> list_all2 (numbered E template) sent (out k) \<and>
       (is_finished (sts' ! k) \<longrightarrow> rest = [])) \<and>
    (list_all is_finished sts' \<longrightarrow>
       (\<exists>nums. mset nums = mset [0..<do_n_pkts opts] \<and>
          list_all2 (numbered E template) nums (concat (map out [0..<length Ls]))))"
proof -
  note D = side_by_sideD [OF assms(1)]
  obtain sts' w' where run: "run_threads F E fuel opts jobs es sts w = Ret (sts', w')"
      "lanes_ok F E fuel template Ls w sts' w' out"
    using run_threads_ok [OF D(4,5,1) assms(2) D(7), of opts] assms(3) by auto
  have part: "\<exists>sent rest. ln_pkts (Ls ! k) = sent @ rest \<and> list_all2 (numbered E template) sent (out k) \<and>
       (is_finished (sts' ! k) \<longrightarrow> rest = [])" if "k < length Ls" for k
    using run(2) D(4) that by (intro lane_ok_handed [of F E fuel template "Ls ! k" w _ w']) (simp_all add: lanes_ok_def)
  have "\<exists>nums. mset nums = mset [0..<do_n_pkts opts] \<and> list_all2 (numbered E template) nums (concat (map out [0..<length Ls]))"
    if "list_all is_finished sts'"
    unfolding D(2) using part D(2,3,6) that run(2)
    by (intro numbered_residues) (fastforce simp: lanes_ok_def list_all_length)+
  then show ?thesis using run(1) part by blast
qed

theorem threads_send_all_witness:
  "\<exists>jobs sts w. run_threads (many (loopback True)) plain_crates 1 many_opts jobs [Step 1, Step 0, Env (\<lambda>w. w), Step 1]
       two_threads many_world = Ret (sts, w) \<and>
     (\<exists>sent rest. [1, 3] = sent @ rest \<and> list_all2 (numbered plain_crates (replicate 16 0)) sent
        (handed_by (many (loopback True)) plain_crates 1 many_opts jobs (two_lanes ! 1) 1 [Step 1, Step 0, Env (\<lambda>w. w), Step 1]
          two_threads many_world))"
proof -
  obtain jobs where start: "side_by_side (many (loopback True)) plain_crates 1 many_opts (replicate 16 0) jobs two_lanes two_threads many_world"
    using two_side_by_side [of 1 plain_crates] plain_le_law by auto
  have fair: "list_all (fair_event two_lanes) [Step 1, Step 0, Env (\<lambda>w. w), Step 1]"
    by (simp add: two_lanes_def fair_event_def lane_calm_def tx_calm_def)
  have one: "ln_pkts (two_lanes ! 1) = [1, 3]" "1 < length two_lanes" by (simp_all add: two_lanes_def many_lane_def)
  from threads_send_all [OF start fair refl]
  obtain sts w where "run_threads (many (loopback True)) plain_crates 1 many_opts jobs [Step 1, Step 0, Env (\<lambda>w. w), Step 1]
      two_threads many_world = Ret (sts, w)"
    and part: "\<forall>k < length two_lanes. \<exists>sent rest. ln_pkts (two_lanes ! k) = sent @ rest \<and>
      list_all2 (numbered plain_crates (replicate 16 0)) sent (handed_by (many (loopback True)) plain_crates 1 many_opts jobs
        (two_lanes ! k) k [Step 1, Step 0, Env (\<lambda>w. w), Step 1] two_threads many_world)"
    by blast
  then show ?thesis using part [rule_format, OF one(2)] unfolding one(1) by blast
qed

text \<open>
  C18: Sending threads that run side by side finish: a thread that has got three more turns than it
  has packets, each at a moment when the kernel had completed what the thread had submitted, has
  handed over all its packets and has nothing outstanding. Turns at other moments cost nothing.
\<close>

theorem threads_finish:
  assumes "side_by_side F E fuel opts template jobs Ls sts w" "list_all (fair_event Ls) es" "k < length Ls"
    and "length (ln_pkts (Ls ! k)) + 3 \<le> good_turns F E fuel opts jobs (Ls ! k) k es sts w"
  shows "\<exists>sts' w' xsk. run_threads F E fuel opts jobs es sts w = Ret (sts', w') \<and> sts' ! k = Finished xsk \<and>
    outstanding_tx_frames (x2_tx xsk) = 0 \<and>
    list_all2 (numbered E template) (ln_pkts (Ls ! k)) (handed_by F E fuel opts jobs (Ls ! k) k es sts w)"
proof -
  note D = side_by_sideD [OF assms(1)]
  obtain sts' w' where run: "run_threads F E fuel opts jobs es sts w = Ret (sts', w')"
      "lanes_ok F E fuel template Ls w sts' w' (\<lambda>k. [] @ handed_by F E fuel opts jobs (Ls ! k) k es sts w)"
    using run_threads_ok [OF D(4,5,1) assms(2) D(7), of opts] by auto
  have "turns_left (sts' ! k) = 0"
    using run_threads_turns [OF D(4,5,1) assms(3,2) D(7) run(1)] D(8) [OF assms(3)] assms(4) by simp
  moreover have ok: "lane_ok F E fuel template (Ls ! k) w (sts' ! k) w' (handed_by F E fuel opts jobs (Ls ! k) k es sts w)"
    using run(2) assms(3) by (simp add: lanes_ok_def)
  ultimately obtain xsk where "sts' ! k = Finished xsk" using no_turns_left is_finished.elims(2) by metis
  then show ?thesis using run(1) ok by (auto simp: lane_ok_def Let_def)
qed

theorem threads_finish_witness:
  "\<exists>jobs sts w xsk. run_threads (many (loopback True)) plain_crates 1 many_opts jobs (concat (replicate 6 [Step 0, Step 1]))
       two_threads many_world = Ret (sts, w) \<and> sts ! 0 = Finished xsk \<and> outstanding_tx_frames (x2_tx xsk) = 0"
proof -
  let ?es = "concat (replicate 6 [Step 0, Step 1])"
  obtain jobs where start: "side_by_side (many (loopback True)) plain_crates 1 many_opts (replicate 16 0) jobs two_lanes two_threads many_world"
    using two_side_by_side [of 1 plain_crates] plain_le_law by auto
  have fair: "list_all (fair_event two_lanes) ?es" by (simp add: two_lanes_def fair_event_def numeral_eq_Suc)
  have zero: "0 < length two_lanes" "lane_prompt (two_lanes ! 0)" "length (ln_pkts (two_lanes ! 0)) = 3"
    using many_prompt by (simp_all add: two_lanes_def many_lane_def)
  have "good_turns (many (loopback True)) plain_crates 1 many_opts jobs (two_lanes ! 0) 0 ?es two_threads many_world = 6"
    using prompt_turns [OF side_by_sideD(4,5) [OF start] zero(1,2) fair side_by_sideD(7) [OF start]]
    by (simp add: numeral_eq_Suc)
  then show ?thesis using threads_finish [OF start fair zero(1)] zero(3) by auto
qed

end
