(* ===== verification/Spec2Isabelle.thy ===== *)
theory Spec2Isabelle
  imports Tx_Props Rx_Props Link_Props Umem_Props System_Props Example_Props Thread_Props
begin

text \<open>
  \<^bold>\<open>A verification of xdpsock\<close>, a Rust crate for AF\_XDP sockets on top of libbpf.

  \<^bold>\<open>The program.\<close> A UMEM (\<^verbatim>\<open>src/src/umem\<close>) is an anonymous mapping cut into
  frames of equal size. Four rings shared with the kernel move frame addresses: the fill and
  completion rings belong to the UMEM, the transmit and receive rings to the socket
  (\<^verbatim>\<open>src/src/socket\<close>). The transmit end \<open>XskTx\<close> writes packets into its frames,
  hands them over in batches and collects completions; the receive end \<open>XskRx\<close> lends its
  frames to the kernel, delivers what arrives and lends them again; \<open>Xsk2\<close> builds both
  (\<^verbatim>\<open>src/src/xsk\<close>). \<^verbatim>\<open>src/src/iface.rs\<close> reads interface counters. Two
  programs use the crate: \<^verbatim>\<open>src/examples/synacker.rs\<close> answers TCP packets that pass a filter,
  \<^verbatim>\<open>src/examples/dev_to_dev.rs\<close> sends or receives numbered UDP packets, one thread per
  queue.

  \<^bold>\<open>The model.\<close> Every function of the source is a HOL function of the same name over an
  explicit state. A computation ends in an \<open>outcome\<close>: a value, a panic with its cause,
  undefined behaviour, or \<open>Spin\<close> when the fuel of an unbounded loop is used up. \<open>u8\<close>,
  \<open>u16\<close> and \<open>u32\<close> are words; \<open>u64\<close> and \<open>usize\<close> are naturals with their
  64-bit overflow behaviour written out, in both build profiles (\<open>overflow_checks\<close>). The
  process memory and the state of the kernel are the record \<open>'k world\<close>; libbpf, libc, the
  clock and the file system are the parameter \<open>'k ffi\<close>, and the crates the two programs use
  (etherparse, byteorder, ctrlc) the parameter \<open>crates\<close>; about both, theorems assume only named,
  documented behaviour.

  \<^item> \<open>Xdp_Prelude\<close>: outcomes, checked arithmetic, slices, generic lemmas.
  \<^item> \<open>Xdp_Platform\<close>: the world, the platform, the contracts of a producer ring and of a
    consumer ring.
  \<^item> \<open>Util_Pow2\<close> (\<^verbatim>\<open>util.rs\<close>), \<open>Config_Builder\<close> (the interface the two builders
    share), \<open>Umem_Config\<close> (\<^verbatim>\<open>umem/config.rs\<close>), \<open>Socket_Config\<close>
    (\<^verbatim>\<open>socket/config.rs\<close>).
  \<^item> \<open>Mmap\<close> (\<^verbatim>\<open>umem/mmap.rs\<close>) with the interface \<open>byte_store\<close>; \<open>Frame\<close>,
    \<open>Umem_Queues\<close>, \<open>Umem_Build\<close> (\<^verbatim>\<open>umem/umem.rs\<close>).
  \<^item> \<open>Fd_Poll\<close> (\<^verbatim>\<open>socket/fd.rs\<close>, \<^verbatim>\<open>socket/poll.rs\<close>), \<open>Ring_Loops\<close>
    (the interfaces \<open>batch_producer\<close> and \<open>batch_consumer\<close>, which the four queues
    implement), \<open>Socket_Queues\<close> (\<^verbatim>\<open>socket/socket.rs\<close>).
  \<^item> \<open>Xsk_Tx\<close> is the model of \<^verbatim>\<open>xsk/tx.rs\<close>; \<open>Xsk_Tx_Inv\<close>, \<open>Xsk_Tx_Ops\<close>,
    \<open>Xsk_Tx_Send\<close>, \<open>Xsk_Tx_Drain\<close> and \<open>Xsk_Tx_Run\<close> prove it correct; \<open>Xsk_Tx_Retry\<close> has the
    interface \<open>retried\<close> of a caller that repeats a send until it is accepted.
  \<^item> \<open>Xsk_Rx\<close> is the model of \<^verbatim>\<open>xsk/rx.rs\<close>; \<open>Xsk_Rx_Inv\<close>, \<open>Xsk_Rx_Ops\<close>,
    \<open>Xsk_Rx_Recv\<close>, \<open>Xsk_Rx_Apply\<close> and \<open>Xsk_Rx_Cases\<close> prove it correct; \<open>Xsk_Rx_Fifo\<close>
    states \<open>recv\<close> as taking the head of a queue.
  \<^item> \<open>Xsk_Link\<close>: a sender and a receiver on one link, what the kernel promises of the link, and runs of
    both sockets in any interleaving.
  \<^item> \<open>Xsk\<close> (\<^verbatim>\<open>xsk/xsk.rs\<close>); \<open>Xsk_Calls\<close> shows by which calls each operation
    changes the world, and \<open>Xsk_Run\<close> puts the two ends of a socket together; \<open>Xsk_Safety\<close> shows what the socket
    keeps against a kernel that follows no contract. \<open>Unit_Tests\<close> has the crate's unit tests as
    definitions, \<open>Queue_Tests\<close> the integration tests of three queues (\<^verbatim>\<open>src/tests\<close>). \<open>Iface\<close> (\<^verbatim>\<open>iface.rs\<close>).
  \<^item> \<open>Ether_Lib\<close>: the third-party crates and the parts of the standard library the two programs
    use; \<open>Synacker\<close> (\<^verbatim>\<open>examples/synacker.rs\<close>); \<open>Dev_To_Dev\<close>
    (\<^verbatim>\<open>examples/dev_to_dev.rs\<close>) with \<open>Dev_Tx\<close> and \<open>Dev_Rx\<close> about its two modes, \<open>Dev_Threads\<close> about its threads step
    by step and \<open>Dev_Interleave\<close> about the sending threads under any schedule.
  \<^item> \<open>Loopback\<close> and \<open>Loopback_States\<close>: an executable platform that satisfies all the
    contracts, and concrete states on it; every property with hypotheses is applied there;
    \<open>Loopback_Many\<close> puts several sockets side by side, \<open>Loopback_Link\<close> a sender and a receiver
    between which the kernel copies packets, \<open>Loopback_Small\<close> has rings of four entries, \<open>Example_Crates\<close>
    does the same for the crates.
  \<^item> \<open>Tx_Props\<close>, \<open>Rx_Props\<close>, \<open>Link_Props\<close>, \<open>Umem_Props\<close>, \<open>System_Props\<close>,
    \<open>Example_Props\<close>, \<open>Thread_Props\<close>: the properties.

  \<^bold>\<open>What is shown.\<close>
  \<^item> Transmit: \<open>send\<close> and \<open>send_apply\<close> return and keep the invariant (a frame is marked
    \<open>OnTxQueue\<close> exactly while the kernel holds its address); they refine a batching queue;
    over any interleaving with the kernel the packets come out in order, complete and unaltered;
    the statistics count them exactly; frames in flight are never written; \<open>drain\<close> returns with
    everything completed.
  \<^item> Receive: \<open>recv\<close> and \<open>recv_apply\<close> return and keep the invariant (every frame is either
    held or with the kernel exactly once, and the counters agree); each packet is delivered with the
    bytes that arrived, held packets are stable, frames go back to the fill ring. Where the kernel
    fills buffers in the order it got them, \<open>recv\<close> refines taking the head of a queue: over any
    sequence of calls, with the kernel and the transmit end in between, the packets come out once each
    and in the order they arrived.
  \<^item> End to end: a sender and a receiver on one link form one queue. What was delivered, followed by
    what is under way, is what was under way at the start followed by what was accepted: equal where
    the link loses nothing, a subsequence of it where it may lose packets.
  \<^item> UMEM: the frames tile the mapping, writing and reading back agree, frames do not interfere;
    the configuration builders return the configuration set or the error of the first failed check; the queues submit all or nothing; the crate's unit tests
    and the integration tests of the transmit, fill and completion queues pass.
  \<^item> System: a successful build establishes both invariants; any interleaving of sends, receives and
    steps of the kernel keeps them and is, for the transmit end, a run of its own; neither end touches
    what the other holds. Whatever the kernel does, and with no contract of a ring assumed, the cursors
    stay valid and sending accesses no memory outside the mapping.
  \<^item> Programs: \<open>tx_pkts\<close> sends each number once and in order and ends with all of them completed;
    the threads share the numbers out without gap or overlap, and under every schedule they send them
    together exactly once each, without a panic, and finish after a number of turns that is stated; the
    receiver's tally is exact; synacker answers a packet that passes, to where it came from; hardware
    addresses parse back. (That the steps of a thread agree with its body is the lemma
    \<open>dev_thread_run\<close> of \<open>Dev_Threads\<close>.)
  \<^item> Failures: the inputs on which the code panics, loops for ever or misattributes a frame are
    stated and proved as theorems of their own (a batch that wraps, a batch that never fits, addresses
    above 4 GiB, \<open>recv\<close> after \<open>recv_apply\<close>, a buffer that is too small, a count that passes its
    goal).

  \<^bold>\<open>Fuel.\<close> The loops that hand a batch over, give frames back and drain have no bound in the
  source. The theorems take the number of turns the kernel needs as the fuel
  (\<open>tx_progress\<close>, \<open>fill_progress\<close>, \<open>comp_progress\<close>) and show that it is enough;
  \<open>submit_never_fits\<close> shows that without progress no fuel is. The loops of the two programs
  have a number of turns of their own: a repeated send needs as many as the kernel needs to complete
  what is in flight; the receive loops run until their timeout, and what is shown of them holds for
  every number of turns.

  \<^bold>\<open>Not modelled.\<close> Log output, \<open>Debug\<close> instances, \<open>Send\<close> and \<open>Sync\<close> markers, the
  packets per second (floating point), failing allocations, the order in which values are dropped
  during unwinding, the module files, and the integration tests of the receive queue and of whole
  sockets, which assert what the virtual device of a network namespace delivers in a given time. Of
  the two programs: the parsing of the command line and what is printed. A run of the threads of
  \<open>dev_to_dev\<close> is followed up to the first panic of a thread, and one step of a thread is one call
  on its socket: two calls on different sockets do not overlap in the model. The schedules of
  \<open>Dev_Interleave\<close> start when the sockets are built.
\<close>

end
